(* ===== verification/Prelude.thy ===== *)
theory Prelude
  imports Main "HOL-Library.Word" "HOL-Library.Signed_Division" "HOL-Library.Multiset"
begin

text \<open>
  Shared vocabulary of the development.  The kernel part of the program is C compiled for a
  32-bit ARM with \<^verbatim>\<open>-fno-strict-overflow\<close>, so signed arithmetic wraps around.  This theory
  fixes how that C is written in HOL:
  \<^item> \<open>s16\<close>, \<open>s32\<close>, \<open>s64\<close>, \<open>u32\<close>, \<open>u64\<close>: the value a C object of that width holds after
    an integer is stored in it;
  \<^item> \<open>'a res\<close>: a run either ends in a \<open>fault\<close> (the C has no defined outcome or the kernel
    stops: division by zero, an access outside an array, a loop that never ends, a second
    \<^verbatim>\<open>kfree\<close>) or returns; \<open>bindR\<close> sequences runs;
  \<^item> \<open>c_div\<close>, \<open>c_mod\<close>: the C operators on \<^verbatim>\<open>int\<close>, which truncate towards zero;
  \<^item> \<open>arr_list\<close>: the first cells of an array as a list, through which every loop over a task
    array is related to a list function.
\<close>

section \<open>Fact collections\<close>

named_theorems wrap_id \<open>machine integers that are in range keep their value\<close>
named_theorems res_simps \<open>equations of the fault result type\<close>

section \<open>Runs that may fault\<close>

datatype fault =
    DivByZero
  | OutOfBounds
  | NullDeref
  | BadFree
  | Diverges
  | Uninitialised

type_synonym 'a res = "fault + 'a"

definition bindR :: "'a res \<Rightarrow> ('a \<Rightarrow> 'b res) \<Rightarrow> 'b res" where
  "bindR m f = (case m of Inl e \<Rightarrow> Inl e | Inr x \<Rightarrow> f x)"

lemma bindR_Inl [simp, res_simps]: "bindR (Inl e) f = Inl e"
  by (simp add: bindR_def)

lemma bindR_Inr [simp, res_simps]: "bindR (Inr x) f = f x"
  by (simp add: bindR_def)

lemma bindR_eq_Inr [res_simps]: "bindR m f = Inr y \<longleftrightarrow> (\<exists>x. m = Inr x \<and> f x = Inr y)"
  by (cases m) (simp_all add: bindR_def)

lemma bindR_eq_Inl [res_simps]:
  "bindR m f = Inl e \<longleftrightarrow> m = Inl e \<or> (\<exists>x. m = Inr x \<and> f x = Inl e)"
  by (cases m) (simp_all add: bindR_def)

lemma bindR_InrE:
  assumes "bindR m f = Inr y"
  obtains x where "m = Inr x" "f x = Inr y"
  using assms by (auto simp: bindR_eq_Inr)

lemma bindR_assoc: "bindR (bindR m f) g = bindR m (\<lambda>x. bindR (f x) g)"
  by (cases m) simp_all

section \<open>Machine integers\<close>

definition s16 :: "int \<Rightarrow> int" where
  "s16 x = (x + 2 ^ 15) mod 2 ^ 16 - 2 ^ 15"

definition s32 :: "int \<Rightarrow> int" where
  "s32 x = (x + 2 ^ 31) mod 2 ^ 32 - 2 ^ 31"

definition s64 :: "int \<Rightarrow> int" where
  "s64 x = (x + 2 ^ 63) mod 2 ^ 64 - 2 ^ 63"

definition u32 :: "int \<Rightarrow> int" where
  "u32 x = x mod 2 ^ 32"

definition u64 :: "int \<Rightarrow> int" where
  "u64 x = x mod 2 ^ 64"

definition INT_MAX :: int where
  "INT_MAX = 2147483647"

lemma s16_id [wrap_id]: "- 32768 \<le> x \<Longrightarrow> x < 32768 \<Longrightarrow> s16 x = x"
  by (simp add: s16_def)

lemma s32_id [wrap_id]: "- 2147483648 \<le> x \<Longrightarrow> x < 2147483648 \<Longrightarrow> s32 x = x"
  by (simp add: s32_def)

lemma s64_id [wrap_id]:
  "- 9223372036854775808 \<le> x \<Longrightarrow> x < 9223372036854775808 \<Longrightarrow> s64 x = x"
  by (simp add: s64_def)

lemma u32_id [wrap_id]: "0 \<le> x \<Longrightarrow> x < 4294967296 \<Longrightarrow> u32 x = x"
  by (simp add: u32_def)

lemma u64_id [wrap_id]: "0 \<le> x \<Longrightarrow> x < 18446744073709551616 \<Longrightarrow> u64 x = x"
  by (simp add: u64_def)

lemma s32_range: "- 2147483648 \<le> s32 x \<and> s32 x < 2147483648"
proof -
  have "0 \<le> (x + 2147483648) mod 4294967296" and "(x + 2147483648) mod 4294967296 < 4294967296"
    by simp_all
  then show ?thesis by (simp add: s32_def)
qed

lemma u32_range: "0 \<le> u32 x \<and> u32 x < 4294967296"
  by (simp add: u32_def)

lemma s32_sub_add: "s32 (s32 (a + b) - b) = s32 a"
  by (simp add: s32_def mod_simps algebra_simps)

text \<open>\<^verbatim>\<open>a / b\<close> and \<^verbatim>\<open>a % b\<close> on \<^verbatim>\<open>int\<close>; a zero divisor stops the kernel.\<close>

definition c_div :: "int \<Rightarrow> int \<Rightarrow> int res" where
  "c_div a b = (if b = 0 then Inl DivByZero else Inr (s32 (a sdiv b)))"

definition c_mod :: "int \<Rightarrow> int \<Rightarrow> int res" where
  "c_mod a b = (if b = 0 then Inl DivByZero else Inr (s32 (a smod b)))"

lemma sdiv_nonneg: "0 \<le> a \<Longrightarrow> 0 < b \<Longrightarrow> (a::int) sdiv b = a div b"
  by (cases "a = 0") (simp_all add: signed_divide_int_def)

lemma smod_nonneg: "0 \<le> a \<Longrightarrow> 0 < b \<Longrightarrow> (a::int) smod b = a mod b"
  by (cases "a = 0") (simp_all add: signed_modulo_int_def)

lemma div_mult_le_int: "0 < d \<Longrightarrow> D div d * d \<le> (D::int)"
  by (simp add: minus_mod_eq_div_mult [symmetric])

lemma le_div_iff_int:
  assumes "0 < (m::int)"
  shows "x \<le> D div m \<longleftrightarrow> x * m \<le> D"
proof
  assume "x \<le> D div m"
  then have "x * m \<le> D div m * m" using assms by (simp add: mult_right_mono)
  then show "x * m \<le> D" using div_mult_le_int [OF assms, of D] by linarith
next
  assume "x * m \<le> D"
  then have "x * m div m \<le> D div m" using assms by (rule zdiv_mono1)
  then show "x \<le> D div m" using assms by simp
qed

lemma div_le_dividend_int: "0 \<le> a \<Longrightarrow> 0 < b \<Longrightarrow> (a::int) div b \<le> a"
  by (cases "b = 1") (auto intro: order.strict_implies_order int_div_less_self
      simp: le_less dest: int_div_less_self)

lemma c_div_nonneg:
  assumes "0 \<le> a" "a < 2147483648" "0 < b"
  shows "c_div a b = Inr (a div b)"
proof -
  have "0 \<le> a div b" and "a div b \<le> a"
    using assms by (simp_all add: pos_imp_zdiv_nonneg_iff div_le_dividend_int)
  then show ?thesis
    using assms by (simp add: c_div_def sdiv_nonneg s32_id)
qed

lemma c_mod_nonneg:
  assumes "0 \<le> a" "a < 2147483648" "0 < b"
  shows "c_mod a b = Inr (a mod b)"
proof -
  have "a mod b < 2147483648"
    using assms zmod_le_nonneg_dividend [of a b] by simp
  then have "s32 (a mod b) = a mod b"
    using pos_mod_sign [of b a] assms by (intro s32_id) linarith+
  then show ?thesis
    using assms by (simp add: c_mod_def smod_nonneg)
qed

section \<open>Error numbers\<close>

text \<open>From \<^verbatim>\<open>include/asm-generic/errno-base.h\<close>.  The program returns most of them without
  the minus sign.\<close>

definition ESRCH :: int where "ESRCH = 3"
definition ENOMEM :: int where "ENOMEM = 12"
definition EBUSY :: int where "EBUSY = 16"
definition EINVAL :: int where "EINVAL = 22"

lemmas errno_defs = ESRCH_def ENOMEM_def EBUSY_def EINVAL_def

section \<open>Arrays read as lists\<close>

definition arr_list :: "(nat \<Rightarrow> 'a) \<Rightarrow> nat \<Rightarrow> 'a list" where
  "arr_list a n = map a [0..<n]"

lemma length_arr_list [simp]: "length (arr_list a n) = n"
  by (simp add: arr_list_def)

lemma nth_arr_list [simp]: "i < n \<Longrightarrow> arr_list a n ! i = a i"
  by (simp add: arr_list_def)

lemma arr_list_0 [simp]: "arr_list a 0 = []"
  by (simp add: arr_list_def)

lemma arr_list_Suc: "arr_list a (Suc n) = arr_list a n @ [a n]"
  by (simp add: arr_list_def)

lemma arr_list_cong: "(\<And>i. i < n \<Longrightarrow> a i = b i) \<Longrightarrow> arr_list a n = arr_list b n"
  by (simp add: arr_list_def)

lemma arr_list_upd [simp]: "arr_list (a(i := x)) n = (arr_list a n)[i := x]"
  by (rule nth_equalityI) (auto simp: nth_list_update)

lemma take_arr_list: "k \<le> n \<Longrightarrow> take k (arr_list a n) = arr_list a k"
  by (simp add: arr_list_def take_map)

lemma set_arr_list: "set (arr_list a n) = a ` {..<n}"
  by (auto simp: arr_list_def atLeast0LessThan)

lemma in_set_arr_list: "x \<in> set (arr_list a n) \<longleftrightarrow> (\<exists>i<n. a i = x)"
  by (auto simp: set_arr_list)

lemma map_arr_list: "map f (arr_list a n) = arr_list (\<lambda>i. f (a i)) n"
  by (simp add: arr_list_def)

lemma sum_list_arr: "sum_list (arr_list f n) = (\<Sum>i<n. f i)"
  by (induction n) (simp_all add: arr_list_Suc)

lemma four_cpus: "{0..3 :: int} = {0, 1, 2, 3}"
  by auto

lemma ball_four: "(\<forall>c\<in>{0..3 :: int}. P c) \<longleftrightarrow> P 0 \<and> P 1 \<and> P 2 \<and> P 3"
  by (simp add: four_cpus)

end
