(* ===== verification/Hrtimer.thy ===== *)
theory Hrtimer
  imports Prelude
begin

text \<open>
  The high-resolution timers the reservation code runs on: the scalar \<^verbatim>\<open>ktime_t\<close> of
  \<^verbatim>\<open>include/linux/ktime.h\<close> (the configuration of 32-bit ARM) and the operations of
  \<^verbatim>\<open>kernel/hrtimer.c\<close> that the program calls.  A \<^verbatim>\<open>ktime_t\<close> is the \<open>int\<close> value of its
  \<^verbatim>\<open>tv64\<close> member; a timer is a record of its expiry, its state bits and its callback.  The
  red-black tree that orders the enqueued timers and the programming of the clock device are
  not modelled: a timer is enqueued when its state says so.
\<close>

section \<open>Times\<close>

record timespec =
  tv_sec :: int
  tv_nsec :: int

definition NSEC_PER_SEC :: int where
  "NSEC_PER_SEC = 1000000000"

definition KTIME_SEC_MAX :: int where
  "KTIME_SEC_MAX = 2147483647"

definition ktime_set :: "int \<Rightarrow> int \<Rightarrow> int" where
  "ktime_set secs nsecs = s64 (s64 (secs * NSEC_PER_SEC) + u32 nsecs)"

definition ktime_sub :: "int \<Rightarrow> int \<Rightarrow> int" where
  "ktime_sub lhs rhs = s64 (lhs - rhs)"

definition ktime_add :: "int \<Rightarrow> int \<Rightarrow> int" where
  "ktime_add lhs rhs = s64 (lhs + rhs)"

definition ktime_add_ns :: "int \<Rightarrow> int \<Rightarrow> int" where
  "ktime_add_ns kt nsval = s64 (kt + nsval)"

definition ktime_add_safe :: "int \<Rightarrow> int \<Rightarrow> int" where
  "ktime_add_safe lhs rhs =
     (let res = ktime_add lhs rhs
      in if res < 0 \<or> res < lhs \<or> res < rhs then ktime_set KTIME_SEC_MAX 0 else res)"

text \<open>The divisor is shifted right until it fits 32 bits, the dividend by as many places; shifting a
  negative divisor never makes it fit.\<close>

function divns_shift :: "int \<Rightarrow> nat \<Rightarrow> int \<times> nat" where
  "divns_shift div_ns sft =
     (if 4294967296 \<le> div_ns then divns_shift (div_ns div 2) (Suc sft) else (div_ns, sft))"
  by pat_completeness auto
termination
  by (relation "measure (\<lambda>(d, _). nat d)") auto

declare divns_shift.simps [simp del]

definition ktime_divns :: "int \<Rightarrow> int \<Rightarrow> int res" where
  "ktime_divns kt div_ns =
     (let (d, sft) = divns_shift div_ns 0
      in if d < 0 then Inl Diverges
         else if d = 0 then Inl DivByZero else Inr (u64 kt div 2 ^ sft div u32 d))"

section \<open>Timers\<close>

datatype timer_fn = NoFunction | CTimerCallback | PTimerCallback | TaskmonTimerCallback

record hrtimer =
  hr_expires :: int
  hr_softexpires :: int
  hr_enqueued :: bool
  hr_callback :: bool
  hr_function :: timer_fn

definition hrtimer_init :: "hrtimer \<Rightarrow> hrtimer" where
  "hrtimer_init timer =
     \<lparr>hr_expires = 0, hr_softexpires = 0, hr_enqueued = False, hr_callback = False,
      hr_function = NoFunction\<rparr>"

definition remove_hrtimer :: "hrtimer \<Rightarrow> int \<times> hrtimer" where
  "remove_hrtimer timer =
     (if hr_enqueued timer then (1, timer\<lparr>hr_enqueued := False\<rparr>) else (0, timer))"

definition enqueue_hrtimer :: "hrtimer \<Rightarrow> hrtimer" where
  "enqueue_hrtimer timer = timer\<lparr>hr_enqueued := True\<rparr>"

text \<open>\<^verbatim>\<open>hrtimer_start\<close> in the relative mode all callers use; \<open>now\<close> is the clock of the timer's base.\<close>

definition hrtimer_start :: "int \<Rightarrow> hrtimer \<Rightarrow> int \<Rightarrow> int \<times> hrtimer" where
  "hrtimer_start now timer tim =
     (let (ret, t1) = remove_hrtimer timer;
          tim1 = ktime_add_safe tim now
      in (ret, enqueue_hrtimer
                 (t1\<lparr>hr_softexpires := tim1, hr_expires := ktime_add_safe tim1 0\<rparr>)))"

definition hrtimer_try_to_cancel :: "hrtimer \<Rightarrow> int \<times> hrtimer" where
  "hrtimer_try_to_cancel timer = (if hr_callback timer then (-1, timer) else remove_hrtimer timer)"

text \<open>\<^verbatim>\<open>hrtimer_cancel\<close> spins while the callback runs on another processor; nothing in the
  caller ends the callback, so from the caller's view the loop then never ends.\<close>

definition hrtimer_cancel :: "hrtimer \<Rightarrow> (int \<times> hrtimer) res" where
  "hrtimer_cancel timer =
     (let (ret, t1) = hrtimer_try_to_cancel timer
      in if 0 \<le> ret then Inr (ret, t1) else Inl Diverges)"

definition hrtimer_add_expires :: "hrtimer \<Rightarrow> int \<Rightarrow> hrtimer" where
  "hrtimer_add_expires timer time =
     timer\<lparr>hr_expires := ktime_add_safe (hr_expires timer) time,
           hr_softexpires := ktime_add_safe (hr_softexpires timer) time\<rparr>"

definition hrtimer_add_expires_ns :: "hrtimer \<Rightarrow> int \<Rightarrow> hrtimer" where
  "hrtimer_add_expires_ns timer ns =
     timer\<lparr>hr_expires := ktime_add_ns (hr_expires timer) ns,
           hr_softexpires := ktime_add_ns (hr_softexpires timer) ns\<rparr>"

definition hrtimer_forward :: "int \<Rightarrow> hrtimer \<Rightarrow> int \<Rightarrow> int \<Rightarrow> (int \<times> hrtimer) res" where
  "hrtimer_forward resolution timer now interval =
     (let delta = ktime_sub now (hr_expires timer)
      in if delta < 0 then Inr (0, timer)
         else
           let incr = (if interval < resolution then resolution else interval)
           in if incr \<le> delta then
                bindR (ktime_divns delta incr) (\<lambda>orun.
                  let t1 = hrtimer_add_expires_ns timer (u64 (incr * orun))
                  in if now < hr_expires t1 then Inr (orun, t1)
                     else Inr (u64 (orun + 1), hrtimer_add_expires t1 incr))
              else Inr (1, hrtimer_add_expires timer incr))"

text \<open>Running an expired timer: the callback \<open>fn\<close> sees the timer dequeued and marked as running,
  and a restart enqueues it again.\<close>

datatype hrtimer_restart = HRTIMER_NORESTART | HRTIMER_RESTART

definition run_hrtimer_begin :: "hrtimer \<Rightarrow> hrtimer" where
  "run_hrtimer_begin timer = timer\<lparr>hr_enqueued := False, hr_callback := True\<rparr>"

definition run_hrtimer_end :: "hrtimer_restart \<Rightarrow> hrtimer \<Rightarrow> hrtimer" where
  "run_hrtimer_end restart timer =
     (if restart \<noteq> HRTIMER_NORESTART then enqueue_hrtimer timer else timer)\<lparr>hr_callback := False\<rparr>"

section \<open>Lemmas\<close>

lemma ktime_set_id:
  "0 \<le> secs \<Longrightarrow> secs < 2147483648 \<Longrightarrow> 0 \<le> nsecs \<Longrightarrow> nsecs < 4294967296 \<Longrightarrow>
   ktime_set secs nsecs = secs * 1000000000 + nsecs"
  by (simp add: ktime_set_def NSEC_PER_SEC_def s64_id u32_id)

lemma ktime_add_safe_id [wrap_id]:
  "0 \<le> a \<Longrightarrow> 0 \<le> b \<Longrightarrow> a + b < 9223372036854775808 \<Longrightarrow> ktime_add_safe a b = a + b"
  by (simp add: ktime_add_safe_def ktime_add_def s64_id Let_def)

lemma hrtimer_start_enqueues [simp]: "hr_enqueued (snd (hrtimer_start now t tim))"
  by (simp add: hrtimer_start_def enqueue_hrtimer_def Let_def split: prod.splits)

lemma hrtimer_start_function [simp]:
  "hr_function (snd (hrtimer_start now t tim)) = hr_function t"
  by (simp add: hrtimer_start_def enqueue_hrtimer_def remove_hrtimer_def Let_def split: prod.splits)

lemma hrtimer_cancel_dequeues: "hrtimer_cancel t = Inr (r, t') \<Longrightarrow> \<not> hr_enqueued t'"
  by (auto simp: hrtimer_cancel_def hrtimer_try_to_cancel_def remove_hrtimer_def
      split: if_splits)

lemma hrtimer_cancel_idle: "\<not> hr_callback t \<Longrightarrow> hrtimer_cancel t = Inr (remove_hrtimer t)"
  by (simp add: hrtimer_cancel_def hrtimer_try_to_cancel_def remove_hrtimer_def)

lemma divns_shift_spec:
  "0 < d \<Longrightarrow> divns_shift d k = (d', k') \<Longrightarrow>
   k \<le> k' \<and> d' = d div 2 ^ (k' - k) \<and> 0 < d' \<and> d' < 4294967296"
proof (induction d k rule: divns_shift.induct)
  case (1 d k)
  show ?case
  proof (cases "4294967296 \<le> d")
    case True
    with "1.prems" have rec: "divns_shift (d div 2) (Suc k) = (d', k')"
      by (simp add: divns_shift.simps [of d k])
    have "0 < d div 2" using True by simp
    with "1.IH" [OF True _ rec] have IH: "Suc k \<le> k'" "d' = d div 2 div 2 ^ (k' - Suc k)"
      "0 < d'" "d' < 4294967296"
      by simp_all
    moreover have "d div 2 div 2 ^ (k' - Suc k) = d div 2 ^ (k' - k)"
    proof -
      have "(2::int) ^ (k' - k) = 2 * 2 ^ (k' - Suc k)"
        using IH(1) by (simp flip: power_Suc add: Suc_diff_Suc)
      then show ?thesis by (simp add: zdiv_zmult2_eq)
    qed
    ultimately show ?thesis by simp
  next
    case False
    with "1.prems" show ?thesis by (simp add: divns_shift.simps [of d k])
  qed
qed

text \<open>The rounded quotient is never below the exact one, which is what makes the forwarded
  expiry lie in the future even when the divisor was shifted.\<close>

lemma shifted_quotient_ge:
  assumes "0 < (d::int)" "0 \<le> D" "0 < d div 2 ^ k"
  shows "D div d \<le> D div 2 ^ k div (d div 2 ^ k)"
proof -
  let ?q = "D div d" and ?e = "d div 2 ^ k"
  have "?q * (?e * 2 ^ k) \<le> ?q * d"
    using assms by (intro mult_left_mono div_mult_le_int) (simp_all add: pos_imp_zdiv_nonneg_iff)
  also have "\<dots> \<le> D" by (rule div_mult_le_int [OF assms(1)])
  finally show ?thesis
    using assms(3) by (simp add: le_div_iff_int mult.assoc)
qed

lemma shifted_quotient_le:
  assumes "0 < (d::int)" "0 \<le> D" "0 < d div 2 ^ k"
  shows "D div 2 ^ k div (d div 2 ^ k) * d \<le> 2 * D"
proof -
  let ?e = "d div 2 ^ k" and ?n = "D div 2 ^ k div (d div 2 ^ k)"
  have n: "0 \<le> ?n" using assms by (simp add: pos_imp_zdiv_nonneg_iff)
  have "d \<le> 2 * ?e * 2 ^ k"
  proof -
    have "d = ?e * 2 ^ k + d mod 2 ^ k" by (rule div_mult_mod_eq [symmetric])
    moreover have "d mod 2 ^ k < 2 ^ k" by simp
    moreover have "2 ^ k \<le> ?e * 2 ^ k" using assms(3) by simp
    ultimately show ?thesis by linarith
  qed
  then have "?n * d \<le> ?n * (2 * ?e * 2 ^ k)" using n by (rule mult_left_mono)
  also have "\<dots> = 2 * (?n * ?e * 2 ^ k)" by simp
  also have "\<dots> \<le> 2 * (D div 2 ^ k * 2 ^ k)"
    using div_mult_le_int [OF assms(3), of "D div 2 ^ k"] by (simp add: mult_right_mono)
  also have "\<dots> \<le> 2 * D" using div_mult_le_int [of "2 ^ k" D] by simp
  finally show ?thesis .
qed

lemma ktime_divns_bounds:
  assumes "0 < d" "0 \<le> D" "D < 18446744073709551616"
  obtains q where "ktime_divns D d = Inr q" "0 \<le> q" "D div d \<le> q" "q * d \<le> 2 * D"
    "d < 4294967296 \<longrightarrow> q = D div d"
proof -
  obtain d' k where dk: "divns_shift d 0 = (d', k)" by fastforce
  from divns_shift_spec [OF assms(1) dk]
  have d': "d' = d div 2 ^ k" "0 < d'" "d' < 4294967296" by simp_all
  let ?q = "D div 2 ^ k div d'"
  have "ktime_divns D d = Inr ?q"
    using assms d' by (simp add: ktime_divns_def dk u64_id u32_id)
  moreover have "0 \<le> ?q"
    using assms d' by (simp add: pos_imp_zdiv_nonneg_iff)
  moreover have "D div d \<le> ?q"
    using shifted_quotient_ge assms d' by simp
  moreover have "?q * d \<le> 2 * D"
    using shifted_quotient_le assms d' by simp
  moreover have "d < 4294967296 \<longrightarrow> ?q = D div d"
    using dk by (auto simp: divns_shift.simps [of d 0])
  ultimately show ?thesis by (rule that)
qed

text \<open>What a periodic callback relies on: forwarding an expired timer by its interval moves the
  expiry by a whole number of intervals, to a time after \<open>now\<close>.\<close>

lemma hrtimer_forward_spec:
  assumes exp: "0 \<le> hr_expires t" "hr_expires t \<le> now" and now: "now < 2 ^ 60"
    and res: "0 < resolution" "resolution \<le> interval" and ivl: "interval < 2 ^ 60"
  obtains n t' where "hrtimer_forward resolution t now interval = Inr (n, t')"
    "1 \<le> n" "hr_expires t' = hr_expires t + n * interval" "now < hr_expires t'"
    "interval < 4294967296 \<longrightarrow> hr_expires t' \<le> now + interval"
    "hr_function t' = hr_function t" "hr_enqueued t' = hr_enqueued t" "hr_callback t' = hr_callback t"
proof -
  define D where "D = now - hr_expires t"
  have D: "0 \<le> D" "D < 2 ^ 60" "ktime_sub now (hr_expires t) = D"
    using assms by (simp_all add: D_def ktime_sub_def s64_id)
  have ivl0: "0 < interval" using res by simp
  show thesis
  proof (cases "interval \<le> D")
    case False
    let ?t' = "hrtimer_add_expires t interval"
    have "hr_expires ?t' = hr_expires t + interval"
      using assms ivl0 by (simp add: hrtimer_add_expires_def ktime_add_safe_id)
    with False D res show thesis
      by (intro that [of 1 ?t'])
        (simp_all add: hrtimer_forward_def Let_def D_def hrtimer_add_expires_def)
  next
    case True
    obtain q where q: "ktime_divns D interval = Inr q" "0 \<le> q" "D div interval \<le> q"
      "q * interval \<le> 2 * D" "interval < 4294967296 \<longrightarrow> q = D div interval"
      using ktime_divns_bounds [of interval D] ivl0 D by auto
    have D1: "1 \<le> D div interval" using True ivl0 by (simp add: le_div_iff_int)
    have lim: "interval * q \<le> 2 ^ 61" "0 \<le> interval * q"
      using q D ivl0 by (simp_all add: mult.commute)
    let ?t1 = "hrtimer_add_expires_ns t (u64 (interval * q))"
    have e1: "hr_expires ?t1 = hr_expires t + q * interval"
      using assms lim by (simp add: hrtimer_add_expires_ns_def ktime_add_ns_def u64_id s64_id
          mult.commute)
    have gap: "D < (D div interval + 1) * interval"
      using ivl0 le_div_iff_int [of interval "D div interval + 1" D] by linarith
    show thesis
    proof (cases "now < hr_expires ?t1")
      case True
      have "interval < 4294967296 \<longrightarrow> hr_expires ?t1 \<le> now + interval"
        using e1 q(5) div_mult_le_int [OF ivl0, of D] ivl0 by (auto simp: D_def)
      with True q D1 e1 \<open>interval \<le> D\<close> D res show thesis
        by (intro that [of q ?t1])
          (simp_all add: hrtimer_forward_def Let_def hrtimer_add_expires_ns_def)
    next
      case False
      let ?t2 = "hrtimer_add_expires ?t1 interval"
      from False e1 have le: "q * interval \<le> D" by (simp add: D_def)
      then have "q = D div interval"
        using q(3) ivl0 by (simp add: le_div_iff_int antisym)
      then have e2: "hr_expires ?t2 = hr_expires t + (q + 1) * interval"
        using False e1 assms ivl0 le q(2)
        by (simp add: hrtimer_add_expires_def ktime_add_safe_id algebra_simps)
      moreover have "u64 (q + 1) = q + 1"
      proof -
        have "q * 1 \<le> q * interval" using q(2) ivl0 by (intro mult_left_mono) simp_all
        then show ?thesis using le D q(2) by (intro u64_id) simp_all
      qed
      moreover have "now < hr_expires ?t2"
        using e2 gap \<open>q = D div interval\<close> by (simp add: D_def)
      moreover have "hr_expires ?t2 \<le> now + interval"
        using e2 le by (simp add: D_def algebra_simps)
      ultimately show thesis
        using False q(1,2,3) D1 \<open>interval \<le> D\<close> D res
        by (intro that [of "q + 1" ?t2])
          (simp_all add: hrtimer_forward_def Let_def hrtimer_add_expires_ns_def
            hrtimer_add_expires_def)
    qed
  qed
qed

end
