(* ===== verification/KState.thy ===== *)
theory KState
  imports Hrtimer
begin

text \<open>
  The data of the program: the reservation attached to every task (\<^verbatim>\<open>_reserve_t\<close> of
  \<^verbatim>\<open>include/linux/reserve.h\<close>), the members of \<^verbatim>\<open>task_struct\<close> it uses, and the global
  variables of \<^verbatim>\<open>rtes/kernel/*.c\<close> and of the \<^verbatim>\<open>taskmon\<close> module as one kernel state \<open>kst\<close>.
  \<^item> A task pointer is a \<open>tptr\<close>; \<open>task s p\<close> is the structure it points to and \<open>threads s\<close>
    lists the live ones in the order of the kernel's task list.
  \<^item> \<open>cpu_tasks s c i\<close> is the cell \<^verbatim>\<open>cpu_tasks[c][i]\<close>.
  \<^item> Memory from \<^verbatim>\<open>kmalloc\<close> is a number (0 is NULL): \<open>kallocd\<close> holds the live blocks,
    \<open>karray\<close> and \<open>kstr\<close> their contents, which \<^verbatim>\<open>kfree\<close> leaves in place; \<open>stale_reads\<close>
    counts reads through a pointer that was already freed.
  \<^item> \<open>sysfs\<close> lists the files the program created, each with the directory object it is in.
  The record \<open>kenv\<close> holds the answers of the kernel services that are not part of the program
  (allocator, hotplug, cpufreq driver, sysfs, scheduler affinity) during one call; the
  definitions take it as an argument.
\<close>

section \<open>Constants of the headers\<close>

definition RESERVE_INTERVAL_NS :: int where "RESERVE_INTERVAL_NS = 500000"
definition RESERVE_INCREMENT_NS :: int where "RESERVE_INCREMENT_NS = 495000"
definition NS_PER_S :: int where "NS_PER_S = 1000000000"
definition NS_PER_MILLI_S :: int where "NS_PER_MILLI_S = 1000000"
definition MILLI_S_PER_S :: int where "MILLI_S_PER_S = 1000"
definition PAGE_SIZE :: int where "PAGE_SIZE = 4096"
definition BUF_LENGTH :: int where "BUF_LENGTH = PAGE_SIZE"
definition ATTR_NAME_BUF_LENGTH :: nat where "ATTR_NAME_BUF_LENGTH = 6"
definition UTIL_MULTIPLE :: int where "UTIL_MULTIPLE = 10000"
definition TASK_SCHEDULING_LENGTH :: int where "TASK_SCHEDULING_LENGTH = 1000"

lemmas reserve_consts =
  RESERVE_INTERVAL_NS_def RESERVE_INCREMENT_NS_def NS_PER_S_def NS_PER_MILLI_S_def
  MILLI_S_PER_S_def PAGE_SIZE_def BUF_LENGTH_def UTIL_MULTIPLE_def TASK_SCHEDULING_LENGTH_def

section \<open>Tasks\<close>

type_synonym tptr = nat

text \<open>\<^verbatim>\<open>struct _reserve_s\<close>.  The two function pointers of \<^verbatim>\<open>tid_attr\<close> are constants of the code
  and are left out; its name is the pointer \<open>r_tid_name\<close>.\<close>

record reserve_t =
  r_flag :: int
  r_suspend :: int
  r_C :: timespec
  r_T :: timespec
  r_cpu :: int
  r_budget :: int
  r_period :: int
  r_util :: int
  r_acc :: timespec
  r_c_timer :: hrtimer
  r_p_timer :: hrtimer
  r_num_p :: int
  r_total_time :: int
  r_sig_sent :: int
  r_taskmon_enabled :: int
  r_tid_name :: nat
  r_periods :: nat
  r_utilization :: "int \<Rightarrow> int"
  r_start :: int
  r_end :: int
  r_buffer_full :: int
  r_locked :: bool
  r_s_locked :: bool
  r_acc_single_run :: timespec
  r_tracking_energy :: int
  r_energy :: int
  r_pid_kobj :: nat
  r_energy_attr :: nat

definition TASK_RUNNING :: int where "TASK_RUNNING = 0"
definition TASK_UNINTERRUPTIBLE :: int where "TASK_UNINTERRUPTIBLE = 2"
definition SCHED_FIFO :: int where "SCHED_FIFO = 1"
definition SCHED_RR :: int where "SCHED_RR = 2"

record task_struct =
  t_pid :: int
  t_tgid :: int
  t_policy :: int
  t_rt_priority :: int
  t_comm :: string
  t_state :: int
  t_need_resched :: bool
  t_reserve :: reserve_t

section \<open>The kernel state\<close>

record kst =
  threads :: "tptr list"
  task :: "tptr \<Rightarrow> task_struct"
  cpu_tasks :: "int \<Rightarrow> nat \<Rightarrow> tptr"
  cpu_tasks_length :: "int \<Rightarrow> int"
  cpu_util :: "int \<Rightarrow> int"
  cpu_open :: "int \<Rightarrow> int"
  cpu_freq :: "int \<Rightarrow> int"
  lastCpuID_revise :: int
  lastCpuID_create :: int
  partition_policy :: string
  cpu_online :: "int \<Rightarrow> bool"
  taskmon_attr_set :: bool
  taskmon_enabled :: int
  rtes_kobj :: nat
  taskmon_kobj :: nat
  util_kobj :: nat
  config_kobj :: nat
  tasks_kobj :: nat
  taskmon_acc_time :: int
  taskmon_count :: int
  taskmon_timer :: hrtimer
  energy_tracking :: int
  total_energy :: int
  lock_initialized :: int
  cpu_cur_freq :: "int \<Rightarrow> int"
  cpus_using_sysclock_governor :: int
  kallocd :: "nat set"
  knext :: nat
  karray :: "nat \<Rightarrow> int \<Rightarrow> int"
  kstr :: "nat \<Rightarrow> string"
  kattr_task :: "nat \<Rightarrow> tptr"
  sysfs :: "(nat \<times> string) list"
  stale_reads :: nat

text \<open>The answers of the surrounding kernel during one call.  \<open>e_kmalloc k\<close> says whether the
  \<open>k\<close>-th allocation of the call succeeds; \<open>e_cpufreq_policy c\<close> is the processor and the governor of
  the frequency policy of \<open>c\<close>, and \<open>e_driver_target c f\<close> the answer of the driver asked for the
  frequency \<open>f\<close>.\<close>

record kenv =
  e_now :: int
  e_resolution :: int
  e_kmalloc :: "nat \<Rightarrow> bool"
  e_kobject_create :: "string \<Rightarrow> bool"
  e_sysfs_create :: "string \<Rightarrow> int"
  e_setaffinity :: "int \<Rightarrow> int list \<Rightarrow> int"
  e_cpu_up :: "int \<Rightarrow> bool"
  e_cpu_down :: "int \<Rightarrow> bool"
  e_cpufreq_get :: "int \<Rightarrow> int"
  e_cpufreq_policy :: "int \<Rightarrow> (int \<times> string) option"
  e_driver_target :: "int \<Rightarrow> int \<Rightarrow> int"

section \<open>Access to the reservation of a task\<close>

definition reserve :: "kst \<Rightarrow> tptr \<Rightarrow> reserve_t" where
  "reserve s t = t_reserve (task s t)"

definition upd_task :: "tptr \<Rightarrow> (task_struct \<Rightarrow> task_struct) \<Rightarrow> kst \<Rightarrow> kst" where
  "upd_task t f s = s\<lparr>task := (task s)(t := f (task s t))\<rparr>"

definition upd_reserve :: "tptr \<Rightarrow> (reserve_t \<Rightarrow> reserve_t) \<Rightarrow> kst \<Rightarrow> kst" where
  "upd_reserve t f = upd_task t (\<lambda>x. x\<lparr>t_reserve := f (t_reserve x)\<rparr>)"

lemma reserve_upd_reserve [simp]:
  "reserve (upd_reserve t f s) u = (if u = t then f (reserve s t) else reserve s u)"
  by (simp add: reserve_def upd_reserve_def upd_task_def)

lemma upd_task_frame [simp]:
  "threads (upd_task t f s) = threads s"
  "cpu_tasks (upd_task t f s) = cpu_tasks s"
  "cpu_tasks_length (upd_task t f s) = cpu_tasks_length s"
  "cpu_util (upd_task t f s) = cpu_util s"
  "cpu_open (upd_task t f s) = cpu_open s"
  "cpu_online (upd_task t f s) = cpu_online s"
  "partition_policy (upd_task t f s) = partition_policy s"
  "lastCpuID_revise (upd_task t f s) = lastCpuID_revise s"
  "lastCpuID_create (upd_task t f s) = lastCpuID_create s"
  "util_kobj (upd_task t f s) = util_kobj s"
  "tasks_kobj (upd_task t f s) = tasks_kobj s"
  "kallocd (upd_task t f s) = kallocd s"
  "knext (upd_task t f s) = knext s"
  "stale_reads (upd_task t f s) = stale_reads s"
  "rtes_kobj (upd_task t f s) = rtes_kobj s"
  "taskmon_attr_set (upd_task t f s) = taskmon_attr_set s"
  "taskmon_enabled (upd_task t f s) = taskmon_enabled s"
  "energy_tracking (upd_task t f s) = energy_tracking s"
  "total_energy (upd_task t f s) = total_energy s"
  "karray (upd_task t f s) = karray s"
  "kstr (upd_task t f s) = kstr s"
  "cpu_freq (upd_task t f s) = cpu_freq s"
  "taskmon_acc_time (upd_task t f s) = taskmon_acc_time s"
  "kattr_task (upd_task t f s) = kattr_task s"
  "taskmon_kobj (upd_task t f s) = taskmon_kobj s"
  "config_kobj (upd_task t f s) = config_kobj s"
  "taskmon_timer (upd_task t f s) = taskmon_timer s"
  "taskmon_count (upd_task t f s) = taskmon_count s"
  "lock_initialized (upd_task t f s) = lock_initialized s"
  "cpu_cur_freq (upd_task t f s) = cpu_cur_freq s"
  "cpus_using_sysclock_governor (upd_task t f s) = cpus_using_sysclock_governor s"
  "sysfs (upd_task t f s) = sysfs s"
  by (simp_all add: upd_task_def)

lemma upd_reserve_frame [simp]:
  "threads (upd_reserve t f s) = threads s"
  "cpu_tasks (upd_reserve t f s) = cpu_tasks s"
  "cpu_tasks_length (upd_reserve t f s) = cpu_tasks_length s"
  "cpu_util (upd_reserve t f s) = cpu_util s"
  "cpu_open (upd_reserve t f s) = cpu_open s"
  "cpu_online (upd_reserve t f s) = cpu_online s"
  "partition_policy (upd_reserve t f s) = partition_policy s"
  "lastCpuID_revise (upd_reserve t f s) = lastCpuID_revise s"
  "lastCpuID_create (upd_reserve t f s) = lastCpuID_create s"
  "util_kobj (upd_reserve t f s) = util_kobj s"
  "tasks_kobj (upd_reserve t f s) = tasks_kobj s"
  "kallocd (upd_reserve t f s) = kallocd s"
  "knext (upd_reserve t f s) = knext s"
  "stale_reads (upd_reserve t f s) = stale_reads s"
  "rtes_kobj (upd_reserve t f s) = rtes_kobj s"
  "taskmon_attr_set (upd_reserve t f s) = taskmon_attr_set s"
  "taskmon_enabled (upd_reserve t f s) = taskmon_enabled s"
  "energy_tracking (upd_reserve t f s) = energy_tracking s"
  "total_energy (upd_reserve t f s) = total_energy s"
  "karray (upd_reserve t f s) = karray s"
  "kstr (upd_reserve t f s) = kstr s"
  "cpu_freq (upd_reserve t f s) = cpu_freq s"
  "taskmon_acc_time (upd_reserve t f s) = taskmon_acc_time s"
  "kattr_task (upd_reserve t f s) = kattr_task s"
  "taskmon_kobj (upd_reserve t f s) = taskmon_kobj s"
  "config_kobj (upd_reserve t f s) = config_kobj s"
  "taskmon_timer (upd_reserve t f s) = taskmon_timer s"
  "taskmon_count (upd_reserve t f s) = taskmon_count s"
  "lock_initialized (upd_reserve t f s) = lock_initialized s"
  "cpu_cur_freq (upd_reserve t f s) = cpu_cur_freq s"
  "cpus_using_sysclock_governor (upd_reserve t f s) = cpus_using_sysclock_governor s"
  "sysfs (upd_reserve t f s) = sysfs s"
  by (simp_all add: upd_reserve_def)

text \<open>\<^verbatim>\<open>find_task_by_vpid\<close> finds any live thread, \<^verbatim>\<open>for_each_process\<close> visits only the leaders of
  thread groups.\<close>

definition find_task_by_vpid :: "kst \<Rightarrow> int \<Rightarrow> tptr option" where
  "find_task_by_vpid s tid = find (\<lambda>p. t_pid (task s p) = tid) (threads s)"

definition for_each_process :: "kst \<Rightarrow> tptr list" where
  "for_each_process s = filter (\<lambda>p. t_pid (task s p) = t_tgid (task s p)) (threads s)"

lemma find_task_by_vpid_SomeD:
  "find_task_by_vpid s tid = Some p \<Longrightarrow> p \<in> set (threads s) \<and> t_pid (task s p) = tid"
  by (auto simp: find_task_by_vpid_def find_Some_iff)

section \<open>Kernel memory and sysfs\<close>

definition kmalloc :: "kenv \<Rightarrow> nat \<Rightarrow> kst \<Rightarrow> nat \<times> kst" where
  "kmalloc e k s =
     (if e_kmalloc e k
      then (Suc (knext s), s\<lparr>knext := Suc (knext s), kallocd := insert (Suc (knext s)) (kallocd s)\<rparr>)
      else (0, s))"

definition kfree :: "nat \<Rightarrow> kst \<Rightarrow> kst res" where
  "kfree p s =
     (if p = 0 then Inr s
      else if p \<in> kallocd s then Inr (s\<lparr>kallocd := kallocd s - {p}\<rparr>)
      else Inl BadFree)"

definition kobject_create :: "kenv \<Rightarrow> string \<Rightarrow> kst \<Rightarrow> nat \<times> kst" where
  "kobject_create e name s =
     (if e_kobject_create e name
      then (Suc (knext s), s\<lparr>knext := Suc (knext s), kallocd := insert (Suc (knext s)) (kallocd s)\<rparr>)
      else (0, s))"

definition kobject_put :: "nat \<Rightarrow> kst \<Rightarrow> kst res" where
  "kobject_put p s = kfree p s"

definition sysfs_create_file :: "kenv \<Rightarrow> nat \<Rightarrow> string \<Rightarrow> kst \<Rightarrow> int \<times> kst" where
  "sysfs_create_file e dir name s =
     (let ret = e_sysfs_create e name
      in if ret = 0 then (0, s\<lparr>sysfs := (dir, name) # sysfs s\<rparr>) else (ret, s))"

definition sysfs_remove_file :: "nat \<Rightarrow> string \<Rightarrow> kst \<Rightarrow> kst" where
  "sysfs_remove_file dir name s = s\<lparr>sysfs := removeAll (dir, name) (sysfs s)\<rparr>"

text \<open>Removing a file whose name is reached through a pointer: the entries of the directory are
  compared with the name, so a NULL name faults unless the directory is empty.\<close>

definition sysfs_remove_ptr :: "nat \<Rightarrow> nat \<Rightarrow> kst \<Rightarrow> kst res" where
  "sysfs_remove_ptr dir p s =
     (if p = 0 then (if (\<exists>x\<in>set (sysfs s). fst x = dir) then Inl NullDeref else Inr s)
      else
        let s1 = (if p \<in> kallocd s then s else s\<lparr>stale_reads := Suc (stale_reads s)\<rparr>)
        in Inr (sysfs_remove_file dir (kstr s p) s1))"

section \<open>Processors going on and off\<close>

definition cpu_up :: "kenv \<Rightarrow> int \<Rightarrow> kst \<Rightarrow> kst" where
  "cpu_up e c s = (if e_cpu_up e c then s\<lparr>cpu_online := (cpu_online s)(c := True)\<rparr> else s)"

definition cpu_down :: "kenv \<Rightarrow> int \<Rightarrow> kst \<Rightarrow> kst" where
  "cpu_down e c s = (if e_cpu_down e c then s\<lparr>cpu_online := (cpu_online s)(c := False)\<rparr> else s)"

section \<open>The state after boot\<close>

text \<open>The initial values of the globals; \<^verbatim>\<open>INIT_TASK\<close> clears the whole reservation.\<close>

definition init_timer :: hrtimer where
  "init_timer = \<lparr>hr_expires = 0, hr_softexpires = 0, hr_enqueued = False, hr_callback = False,
     hr_function = NoFunction\<rparr>"

definition zero_time :: timespec where "zero_time = \<lparr>tv_sec = 0, tv_nsec = 0\<rparr>"

definition init_reserve :: reserve_t where
  "init_reserve = \<lparr>r_flag = 0, r_suspend = 0, r_C = zero_time, r_T = zero_time, r_cpu = 0, r_budget = 0,
     r_period = 0, r_util = 0, r_acc = zero_time, r_c_timer = init_timer, r_p_timer = init_timer,
     r_num_p = 0, r_total_time = 0, r_sig_sent = 0, r_taskmon_enabled = 0, r_tid_name = 0,
     r_periods = 0, r_utilization = (\<lambda>_. 0), r_start = 0, r_end = 0, r_buffer_full = 0,
     r_locked = False, r_s_locked = False, r_acc_single_run = zero_time, r_tracking_energy = 0,
     r_energy = 0, r_pid_kobj = 0, r_energy_attr = 0\<rparr>"

definition init_task :: "tptr \<Rightarrow> task_struct" where
  "init_task p = \<lparr>t_pid = int p, t_tgid = int p, t_policy = 0, t_rt_priority = 0, t_comm = ''swapper'',
     t_state = TASK_RUNNING, t_need_resched = False, t_reserve = init_reserve\<rparr>"

definition boot_state :: "tptr list \<Rightarrow> kst" where
  "boot_state ps = \<lparr>threads = ps, task = init_task, cpu_tasks = (\<lambda>_ _. 0), cpu_tasks_length = (\<lambda>_. 0),
     cpu_util = (\<lambda>_. 0), cpu_open = (\<lambda>_. 0), cpu_freq = (\<lambda>_. 0), lastCpuID_revise = 0,
     lastCpuID_create = 0, partition_policy = ''NFD'', cpu_online = (\<lambda>c. 0 \<le> c \<and> c \<le> 3),
     taskmon_attr_set = False, taskmon_enabled = 0, rtes_kobj = 0, taskmon_kobj = 0, util_kobj = 0,
     config_kobj = 0, tasks_kobj = 0, taskmon_acc_time = 0, taskmon_count = 0,
     taskmon_timer = init_timer, energy_tracking = 0, total_energy = 0, lock_initialized = 0,
     cpu_cur_freq = (\<lambda>_. 0), cpus_using_sysclock_governor = 0, kallocd = {}, knext = 0, karray = (\<lambda>_ _. 0), kstr = (\<lambda>_. []), kattr_task = (\<lambda>_. 0),
     sysfs = [], stale_reads = 0\<rparr>"

text \<open>Setting the admission parameters of a task.\<close>

definition set_params :: "tptr \<Rightarrow> int \<Rightarrow> int \<Rightarrow> int \<Rightarrow> kst \<Rightarrow> kst" where
  "set_params t budget period util =
     upd_reserve t (\<lambda>r. r\<lparr>r_budget := budget, r_period := period, r_util := util\<rparr>)"

end
