(* ===== verification/Response.thy ===== *)
theory Response
  imports Prelude
begin

text \<open>
  The scheduling theory behind \<^verbatim>\<open>try_bind\<close> (admission) and \<^verbatim>\<open>sysclock_compute\<close> (frequency), as
  an abstract specification over natural numbers.  A task is a pair of its budget and its
  period in milliseconds.
  \<^item> \<open>demand hp b t\<close>: the processor time that one job of budget \<open>b\<close> and the jobs of the tasks
    \<open>hp\<close> of higher priority released in a window of length \<open>t\<close> need.
  \<^item> \<open>meets_deadline\<close>: some window within the period covers its own demand, the criterion the
    response-time test decides.
  \<^item> The locale \<open>monotone_demand\<close> is the interface of the iteration in the code: from a demand
    that is monotone in the window, \<open>rt_loop\<close> is shown to end and to decide the criterion.
    It is interpreted on \<open>demand\<close>.
  \<^item> \<open>sched_point\<close>: the criterion only has to be tried at multiples of the periods, which is
    what \<^verbatim>\<open>sysclock_compute\<close> enumerates.
\<close>

section \<open>Demand\<close>

definition ceil_div :: "nat \<Rightarrow> nat \<Rightarrow> nat" where
  "ceil_div t p = t div p + (if t mod p = 0 then 0 else 1)"

definition demand :: "(nat \<times> nat) list \<Rightarrow> nat \<Rightarrow> nat \<Rightarrow> nat" where
  "demand hp b t = b + (\<Sum>(c, p)\<leftarrow>hp. ceil_div t p * c)"

definition meets_deadline :: "(nat \<times> nat) list \<Rightarrow> nat \<Rightarrow> nat \<Rightarrow> bool" where
  "meets_deadline hp b p \<longleftrightarrow> (\<exists>t\<le>p. demand hp b t \<le> t)"

lemma ceil_div_mono: "x \<le> y \<Longrightarrow> ceil_div x p \<le> ceil_div y p"
proof (cases "p = 0")
  case False
  assume le: "x \<le> y"
  then have d: "x div p \<le> y div p" by (rule div_le_mono)
  show ?thesis
  proof (cases "x div p = y div p")
    case True
    have "x mod p \<le> y mod p"
      using le True by (metis add_le_cancel_left div_mult_mod_eq)
    then show ?thesis using True by (auto simp: ceil_div_def)
  next
    case False
    then show ?thesis using d by (auto simp: ceil_div_def)
  qed
qed (auto simp: ceil_div_def)

lemma ceil_div_0 [simp]: "ceil_div 0 p = 0"
  by (simp add: ceil_div_def)

lemma ceil_div_le_iff: "0 < p \<Longrightarrow> ceil_div t p \<le> k \<longleftrightarrow> t \<le> k * p"
proof
  assume p: "0 < p" and le: "ceil_div t p \<le> k"
  have "t mod p \<le> (if t mod p = 0 then 0 else 1) * p"
    using p by (simp add: less_imp_le)
  then have "t \<le> ceil_div t p * p"
    by (metis add_le_cancel_left add_mult_distrib ceil_div_def div_mult_mod_eq)
  also have "\<dots> \<le> k * p" using le by simp
  finally show "t \<le> k * p" .
next
  assume p: "0 < p" and le: "t \<le> k * p"
  then have "ceil_div t p \<le> ceil_div (k * p) p" by (intro ceil_div_mono)
  also have "\<dots> = k" using p by (simp add: ceil_div_def)
  finally show "ceil_div t p \<le> k" .
qed

lemma le_ceil_div_mult: "0 < p \<Longrightarrow> t \<le> ceil_div t p * p"
  using ceil_div_le_iff [of p t "ceil_div t p"] by simp

lemma demand_mono: "x \<le> y \<Longrightarrow> demand hp b x \<le> demand hp b y"
  by (auto simp: demand_def intro!: sum_list_mono mult_le_mono1 ceil_div_mono)

lemma demand_Nil [simp]: "demand [] b t = b"
  by (simp add: demand_def)

lemma demand_0 [simp]: "demand hp b 0 = b"
proof -
  have "(\<Sum>(c, p)\<leftarrow>hp. ceil_div 0 p * c) = 0"
    by (induction hp) auto
  then show ?thesis by (simp only: demand_def)
qed

lemma demand_snoc: "demand (hp @ [(c, p)]) b t = demand hp b t + ceil_div t p * c"
  by (simp add: demand_def)

lemma meets_deadline_budget_le: "meets_deadline hp b p \<Longrightarrow> b \<le> p"
  by (auto simp: meets_deadline_def demand_def)

lemma meets_deadline_Nil [simp]: "meets_deadline [] b p \<longleftrightarrow> b \<le> p"
  by (auto simp: meets_deadline_def)

section \<open>The iteration of the response-time test\<close>

text \<open>The \<^verbatim>\<open>while\<close> loop of the test, for the body \<open>F\<close> that computes \<^verbatim>\<open>curr_budget\<close> from
  \<^verbatim>\<open>prev_budget\<close>; \<open>None\<close> is a loop that never ends.\<close>

partial_function (option) rt_loop ::
  "(int \<Rightarrow> int res) \<Rightarrow> int \<Rightarrow> int \<Rightarrow> int \<Rightarrow> int res option" where
  "rt_loop F per cur prev =
     (if cur \<le> per \<and> cur \<noteq> prev
      then (case F cur of Inl e \<Rightarrow> Some (Inl e) | Inr c \<Rightarrow> rt_loop F per c cur)
      else Some (Inr cur))"

declare rt_loop.simps [code]

locale monotone_demand =
  fixes f :: "nat \<Rightarrow> nat"
  assumes mono: "x \<le> y \<Longrightarrow> f x \<le> f y"
begin

text \<open>The loop from a value below its own demand and below every window that covers its demand.\<close>

lemma rt_loop_from:
  assumes F: "\<And>x. x \<le> P \<Longrightarrow> F (int x) = Inr (int (f x))"
    and up: "cur \<le> f cur" and low: "\<And>t. f t \<le> t \<Longrightarrow> cur \<le> t"
    and stop: "int cur = prev \<Longrightarrow> f cur = cur"
  shows "\<exists>c. rt_loop F (int P) (int cur) prev = Some (Inr (int c)) \<and>
           (c \<le> P \<longleftrightarrow> (\<exists>t\<le>P. f t \<le> t)) \<and> (c \<le> P \<longrightarrow> f c = c) \<and> (\<forall>t. f t \<le> t \<longrightarrow> c \<le> t)"
  using up low stop
proof (induction "Suc P - cur" arbitrary: cur prev rule: less_induct)
  case less
  show ?case
  proof (cases "cur \<le> P \<and> int cur \<noteq> prev")
    case False
    then have "rt_loop F (int P) (int cur) prev = Some (Inr (int cur))"
      by (subst rt_loop.simps) auto
    moreover have "cur \<le> P \<longleftrightarrow> (\<exists>t\<le>P. f t \<le> t)"
      using False less.prems by (metis order.refl order.trans)
    ultimately show ?thesis using False less.prems(2,3) by blast
  next
    case True
    then have step: "rt_loop F (int P) (int cur) prev = rt_loop F (int P) (int (f cur)) (int cur)"
      by (subst rt_loop.simps) (simp add: F)
    show ?thesis
    proof (cases "f cur = cur")
      case True
      then have "rt_loop F (int P) (int (f cur)) (int cur) = Some (Inr (int cur))"
        by (subst rt_loop.simps) simp
      then show ?thesis
        using step True \<open>cur \<le> P \<and> int cur \<noteq> prev\<close> less.prems(2) by (intro exI [of _ cur]) auto
    next
      case False
      have "Suc P - f cur < Suc P - cur"
        using False less.prems(1) True by linarith
      moreover have "f cur \<le> f (f cur)" using less.prems(1) by (rule mono)
      moreover have "f cur \<le> t" if "f t \<le> t" for t
        using that less.prems(2) mono by (meson order.trans)
      moreover have "f (f cur) = f cur" if "int (f cur) = int cur"
        using that False by simp
      ultimately show ?thesis
        using less.hyps [of "f cur" "int cur"] step by auto
    qed
  qed
qed

text \<open>From the start values of the code: \<^verbatim>\<open>curr_budget = 0\<close> and \<^verbatim>\<open>prev_budget\<close> a value that is 0
  only if an empty window already covers its demand.\<close>

lemma rt_loop_decides:
  assumes "\<And>x. x \<le> P \<Longrightarrow> F (int x) = Inr (int (f x))" and "prev = 0 \<Longrightarrow> f 0 = 0"
  obtains c where "rt_loop F (int P) 0 prev = Some (Inr (int c))"
    "c \<le> P \<longleftrightarrow> (\<exists>t\<le>P. f t \<le> t)" "c \<le> P \<longrightarrow> f c = c" "\<forall>t. f t \<le> t \<longrightarrow> c \<le> t"
  using rt_loop_from [of P F 0 prev] assms by force

end

interpretation dm: monotone_demand "demand hp b" for hp b
  by unfold_locales (rule demand_mono)

section \<open>Scheduling points\<close>

text \<open>The next release of any task of \<open>ps\<close> at or after \<open>t\<close>.\<close>

definition next_release :: "nat list \<Rightarrow> nat \<Rightarrow> nat" where
  "next_release ps t = Min ((\<lambda>p. ceil_div t p * p) ` set ps)"

definition sched_points :: "nat list \<Rightarrow> nat \<Rightarrow> nat set" where
  "sched_points ps lim = {n * p | n p. p \<in> set ps \<and> 1 \<le> n \<and> n * p \<le> lim}"

lemma next_release_props:
  assumes "ps \<noteq> []" "\<And>p. p \<in> set ps \<Longrightarrow> 0 < p" "0 < t"
  shows "t \<le> next_release ps t"
    and "p \<in> set ps \<Longrightarrow> ceil_div (next_release ps t) p = ceil_div t p"
    and "\<exists>p\<in>set ps. \<exists>n\<ge>1. next_release ps t = n * p"
proof -
  let ?R = "(\<lambda>p. ceil_div t p * p) ` set ps"
  have fin: "finite ?R" "?R \<noteq> {}" using assms(1) by simp_all
  have "next_release ps t \<in> ?R" unfolding next_release_def using fin by (rule Min_in)
  then obtain q where q: "q \<in> set ps" "next_release ps t = ceil_div t q * q" by auto
  have "0 < ceil_div t q"
    using le_ceil_div_mult [of q t] q assms by (metis gr0I mult_zero_left not_less)
  then show "\<exists>p\<in>set ps. \<exists>n\<ge>1. next_release ps t = n * p" 
    using q by (metis One_nat_def Suc_leI)
  show ge: "t \<le> next_release ps t" using q assms le_ceil_div_mult by metis
  show "ceil_div (next_release ps t) p = ceil_div t p" if p: "p \<in> set ps"
  proof (rule antisym)
    have "next_release ps t \<le> ceil_div t p * p"
      unfolding next_release_def using fin p by (intro Min_le) auto
    then show "ceil_div (next_release ps t) p \<le> ceil_div t p"
      using p assms by (simp add: ceil_div_le_iff)
    show "ceil_div t p \<le> ceil_div (next_release ps t) p" using ge by (rule ceil_div_mono)
  qed
qed

lemma demand_next_release:
  assumes "\<And>c p. (c, p) \<in> set hp \<Longrightarrow> p \<in> set ps" and "ps \<noteq> []"
    and "\<And>p. p \<in> set ps \<Longrightarrow> 0 < p" and "0 < t"
  shows "demand hp b (next_release ps t) = demand hp b t"
proof -
  have "(\<Sum>(c, p)\<leftarrow>hp. ceil_div (next_release ps t) p * c) = (\<Sum>(c, p)\<leftarrow>hp. ceil_div t p * c)"
    using assms next_release_props(2) [of ps t]
    by (intro arg_cong [where f = sum_list] map_cong) auto
  then show ?thesis by (simp add: demand_def)
qed

text \<open>Trying the scheduling points is enough.\<close>

lemma sched_points_complete:
  assumes hp: "\<And>c q. (c, q) \<in> set hp \<Longrightarrow> q \<in> set ps"
    and ps: "p \<in> set ps" "\<And>q. q \<in> set ps \<Longrightarrow> 0 < q" and t: "0 < t" "t \<le> p"
  obtains u where "u \<in> sched_points ps p" "t \<le> u" "demand hp b u = demand hp b t"
proof
  let ?u = "next_release ps t"
  have ne: "ps \<noteq> []" using ps(1) by auto
  note props = next_release_props [OF ne ps(2) t(1)]
  have "ceil_div t p \<le> 1" using t ps by (simp add: ceil_div_le_iff)
  then have "ceil_div ?u p \<le> 1" using props(2) ps by simp
  then have "?u \<le> p" using ps by (simp add: ceil_div_le_iff)
  with props(3) show "?u \<in> sched_points ps p"
    unfolding sched_points_def by (metis (mono_tags, lifting) mem_Collect_eq)
  show "t \<le> ?u" by (rule props(1))
  show "demand hp b ?u = demand hp b t" using hp ne ps(2) t(1) by (rule demand_next_release)
qed

end
