(* ===== verification/Admission.thy ===== *)
theory Admission
  imports KState Response
begin

text \<open>
  Admission control, from \<^verbatim>\<open>rtes/kernel/reserve.c\<close>: \<^verbatim>\<open>try_bind\<close> with its utilization bound
  test and response time test, the array loops that insert and remove a task, and \<^verbatim>\<open>sortCPU\<close>.
  \<^item> The code section has one definition per loop and per function, on the arrays of the state.
  \<^item> \<open>bin\<close> is the abstract view of a processor as a list of tasks and \<open>bin_ok\<close> its invariant; the
    array loops are shown to be list insertion in order of period and list removal.
  \<^item> \<open>admits\<close> is the specification of an admission decision, stated with \<open>meets_deadline\<close> of the
    theory \<open>Response\<close>; \<open>try_bind_spec\<close> shows that \<^verbatim>\<open>try_bind\<close> always returns and implements it.
\<close>

section \<open>The code\<close>

subsection \<open>Loops over a task array\<close>

definition UTIL_BOUND_MAX :: nat where "UTIL_BOUND_MAX = 20"
definition UTIL_BOUND_INF :: int where "UTIL_BOUND_INF = 6932"

definition util_bound :: "int list" where
  "util_bound = [0, 10000, 8285, 7798, 7569, 7435, 7348, 7287, 7241, 7206, 7178, 7155, 7136, 7120,
     7106, 7095, 7084, 7075, 7067, 7060, 7053]"

text \<open>\<^verbatim>\<open>for (i = len; i > 0; --i) if (tasks[i-1]->period > p) tasks[i] = tasks[i-1]; else break;\<close>\<close>

fun ins_shift :: "(tptr \<Rightarrow> int) \<Rightarrow> int \<Rightarrow> (nat \<Rightarrow> tptr) \<Rightarrow> nat \<Rightarrow> nat \<times> (nat \<Rightarrow> tptr)" where
  "ins_shift per p tasks 0 = (0, tasks)"
| "ins_shift per p tasks (Suc i) =
     (if per (tasks i) > p then ins_shift per p (tasks(Suc i := tasks i)) i else (Suc i, tasks))"

text \<open>\<^verbatim>\<open>for (; pos <= len - 2; ++pos) tasks[pos] = tasks[pos + 1];\<close>\<close>

function shift_down :: "(nat \<Rightarrow> tptr) \<Rightarrow> nat \<Rightarrow> int \<Rightarrow> (nat \<Rightarrow> tptr)" where
  "shift_down tasks pos len =
     (if int pos \<le> len - 2 then shift_down (tasks(pos := tasks (pos + 1))) (pos + 1) len else tasks)"
  by pat_completeness auto
termination
  by (relation "measure (\<lambda>(_, pos, len). nat (len - int pos))") auto

declare shift_down.simps [simp del]

text \<open>\<^verbatim>\<open>for (i = 0; i < len; ++i) if (tasks[i] == t) break;\<close>\<close>

function find_pos :: "(nat \<Rightarrow> tptr) \<Rightarrow> tptr \<Rightarrow> nat \<Rightarrow> int \<Rightarrow> nat" where
  "find_pos tasks t i len =
     (if int i < len then (if tasks i = t then i else find_pos tasks t (i + 1) len) else i)"
  by pat_completeness auto
termination
  by (relation "measure (\<lambda>(_, _, i, len). nat (len - int i))") auto

declare find_pos.simps [simp del]

subsection \<open>The two tests\<close>

definition ub_fail :: "nat \<Rightarrow> int \<Rightarrow> bool" where
  "ub_fail i util \<longleftrightarrow>
     (i \<le> UTIL_BOUND_MAX \<and> util_bound ! i < util) \<or> (i > UTIL_BOUND_MAX \<and> UTIL_BOUND_INF < util)"

text \<open>The utilization bound test drops tasks from the end until the rest passes; going below
  the first task would read \<^verbatim>\<open>tasks[-1]\<close>.\<close>

fun ub_loop :: "(nat \<Rightarrow> int) \<Rightarrow> nat \<Rightarrow> int \<Rightarrow> nat res" where
  "ub_loop u 0 util = (if ub_fail 0 util then Inl OutOfBounds else Inr 0)"
| "ub_loop u (Suc i) util =
     (if ub_fail (Suc i) util then ub_loop u i (s32 (util - u i)) else Inr (Suc i))"

text \<open>The response time test of the \<open>j\<close>-th task, for the budgets \<open>B\<close> and periods \<open>P\<close> of the
  array: the inner \<^verbatim>\<open>for\<close> loop, the \<^verbatim>\<open>while\<close> loop around it, and the loop over the tasks.\<close>

fun rt_interference ::
  "(nat \<Rightarrow> int) \<Rightarrow> (nat \<Rightarrow> int) \<Rightarrow> int \<Rightarrow> nat list \<Rightarrow> int \<Rightarrow> int res" where
  "rt_interference B P prev [] acc = Inr acc"
| "rt_interference B P prev (k # ks) acc =
     bindR (c_div prev (P k)) (\<lambda>q. bindR (c_mod prev (P k)) (\<lambda>r.
       let appearance = s32 (q + (if r \<noteq> 0 then 1 else 0))
       in rt_interference B P prev ks (s32 (acc + s32 (appearance * B k)))))"

definition rt_body :: "(nat \<Rightarrow> int) \<Rightarrow> (nat \<Rightarrow> int) \<Rightarrow> nat \<Rightarrow> int \<Rightarrow> int res" where
  "rt_body B P j prev = rt_interference B P prev [0..<j] (B j)"

definition rt_init :: "(nat \<Rightarrow> int) \<Rightarrow> nat \<Rightarrow> int" where
  "rt_init B j = fold (\<lambda>k prev. s32 (prev + B k)) [0..<Suc j] 0"

definition rt_response :: "(nat \<Rightarrow> int) \<Rightarrow> (nat \<Rightarrow> int) \<Rightarrow> nat \<Rightarrow> int res" where
  "rt_response B P j =
     (case rt_loop (rt_body B P j) (P j) 0 (rt_init B j) of None \<Rightarrow> Inl Diverges | Some r \<Rightarrow> r)"

fun rt_test :: "(nat \<Rightarrow> int) \<Rightarrow> (nat \<Rightarrow> int) \<Rightarrow> nat \<Rightarrow> nat \<Rightarrow> bool res" where
  "rt_test B P j 0 = Inr True"
| "rt_test B P j (Suc m) =
     bindR (rt_response B P j) (\<lambda>cur. if P j < cur then Inr False else rt_test B P (Suc j) m)"

subsection \<open>Binding a task to a processor\<close>

definition set_bin :: "int \<Rightarrow> (nat \<Rightarrow> tptr) \<Rightarrow> int \<Rightarrow> int \<Rightarrow> kst \<Rightarrow> kst" where
  "set_bin c tasks len util s =
     s\<lparr>cpu_tasks := (cpu_tasks s)(c := tasks),
       cpu_tasks_length := (cpu_tasks_length s)(c := len),
       cpu_util := (cpu_util s)(c := util)\<rparr>"

text \<open>The utilization bound test over the whole array and, for the tasks it leaves, the response
  time test.\<close>

definition sched_tests :: "kst \<Rightarrow> (nat \<Rightarrow> tptr) \<Rightarrow> int \<Rightarrow> int \<Rightarrow> bool res" where
  "sched_tests s tasks len util =
     bindR (ub_loop (\<lambda>k. r_util (reserve s (tasks k))) (nat len) util) (\<lambda>i.
       if int i = len then Inr True
       else rt_test (\<lambda>k. r_budget (reserve s (tasks k))) (\<lambda>k. r_period (reserve s (tasks k)))
              i (nat len - i))"

definition try_bind :: "kst \<Rightarrow> tptr \<Rightarrow> int \<Rightarrow> (int \<times> kst) res" where
  "try_bind s t cpuid =
     (if cpuid < 0 \<or> 3 < cpuid then Inl OutOfBounds
      else if cpu_tasks_length s cpuid = TASK_SCHEDULING_LENGTH then Inr (EBUSY, s)
      else if s32 (r_util (reserve s t) + cpu_util s cpuid) > UTIL_MULTIPLE then Inr (EBUSY, s)
      else if cpu_tasks_length s cpuid < 0 \<or> TASK_SCHEDULING_LENGTH < cpu_tasks_length s cpuid
      then Inl OutOfBounds
      else
        let (pos, tasks1) = ins_shift (\<lambda>p. r_period (reserve s p)) (r_period (reserve s t))
                              (cpu_tasks s cpuid) (nat (cpu_tasks_length s cpuid));
            tasks = tasks1(pos := t);
            len = cpu_tasks_length s cpuid + 1;
            s1 = set_bin cpuid tasks len (s32 (cpu_util s cpuid + r_util (reserve s t))) s
        in bindR (sched_tests s tasks len (cpu_util s1 cpuid)) (\<lambda>pass.
             if pass then Inr (0, s1)
             else Inr (EBUSY, set_bin cpuid (shift_down tasks pos len) (len - 1)
                                (s32 (cpu_util s1 cpuid - r_util (reserve s t))) s1)))"

text \<open>Taking a task out of the array of a processor, the sequence that \<^verbatim>\<open>set_reserve\<close>,
  \<^verbatim>\<open>cancel_reserve\<close> and \<^verbatim>\<open>do_exit\<close> each spell out.\<close>

definition unbind :: "kst \<Rightarrow> tptr \<Rightarrow> int \<Rightarrow> kst res" where
  "unbind s t cpuid =
     (if cpuid < 0 \<or> 3 < cpuid then Inl OutOfBounds
      else
        let len = cpu_tasks_length s cpuid;
            i = find_pos (cpu_tasks s cpuid) t 0 len
        in Inr (set_bin cpuid (shift_down (cpu_tasks s cpuid) i len) (len - 1)
                  (s32 (cpu_util s cpuid - r_util (reserve s t))) s))"

subsection \<open>Ordering the processors\<close>

text \<open>The scan for the largest and the smallest utilization; \<^verbatim>\<open>maxID\<close> and \<^verbatim>\<open>minID\<close> start
  uninitialised, which \<open>None\<close> stands for.\<close>

definition sort_scan :: "(int \<Rightarrow> int) \<Rightarrow> int \<Rightarrow> int \<times> int option \<times> int \<times> int option \<Rightarrow>
    int \<times> int option \<times> int \<times> int option" where
  "sort_scan cu i = (\<lambda>(maxUtil, maxID, minUtil, minID).
     let (maxUtil, maxID) = (if cu i > maxUtil then (cu i, Some i) else (maxUtil, maxID));
         (minUtil, minID) = (if cu i < minUtil then (cu i, Some i) else (minUtil, minID))
     in (maxUtil, maxID, minUtil, minID))"

definition sort_rest :: "int \<Rightarrow> int \<Rightarrow> int \<Rightarrow> int \<times> int \<Rightarrow> int \<times> int" where
  "sort_rest maxID minID i = (\<lambda>(a, b).
     if i \<noteq> maxID \<and> i \<noteq> minID then (if a = -1 then (i, b) else (a, i)) else (a, b))"

definition sortCPU :: "(int \<Rightarrow> int) \<Rightarrow> int \<Rightarrow> int list res" where
  "sortCPU cu Asced =
     (let (_, maxID, _, minID) =
            fold (sort_scan cu) [0, 1, 2, 3] (-1, None, UTIL_MULTIPLE + 1, None)
      in case (maxID, minID) of
           (Some maxID, Some minID) \<Rightarrow>
             let (a, b) = fold (sort_rest maxID minID) [0, 1, 2, 3] (-1, -1)
             in if a < 0 \<or> b < 0 then Inl OutOfBounds
                else
                  let (sedMax, sedMin) = (if cu a > cu b then (a, b) else (b, a))
                  in Inr (if Asced = 1 then [minID, sedMin, sedMax, maxID]
                          else [maxID, sedMax, sedMin, minID])
         | _ \<Rightarrow> Inl Uninitialised)"

section \<open>The array loops as list operations\<close>

lemma ins_shift_eq:
  "ins_shift per p a n = (k, a') \<Longrightarrow>
   k \<le> n \<and> a' = (\<lambda>i. if k < i \<and> i \<le> n then a (i - 1) else a i)"
proof (induction n arbitrary: a)
  case (Suc n)
  show ?case
  proof (cases "p < per (a n)")
    case True
    with Suc.prems have "ins_shift per p (a(Suc n := a n)) n = (k, a')" by simp
    from Suc.IH [OF this] have k: "k \<le> n"
      and a': "a' = (\<lambda>i. if k < i \<and> i \<le> n then (a(Suc n := a n)) (i - 1) else (a(Suc n := a n)) i)"
      by simp_all
    have "a' i = (if k < i \<and> i \<le> Suc n then a (i - 1) else a i)" for i
      using k by (cases "i = Suc n") (auto simp: a')
    then show ?thesis using k by (intro conjI ext) auto
  next
    case False
    with Suc.prems show ?thesis by auto
  qed
qed auto

text \<open>Everything from the insertion point on has a longer period, what is before it has not.\<close>

lemma ins_shift_pos:
  "ins_shift per p a n = (k, a') \<Longrightarrow>
   (\<forall>i. k \<le> i \<and> i < n \<longrightarrow> p < per (a i)) \<and> (0 < k \<longrightarrow> per (a (k - 1)) \<le> p)"
proof (induction n arbitrary: a)
  case (Suc n)
  show ?case
  proof (cases "p < per (a n)")
    case True
    let ?a = "a(Suc n := a n)"
    from True Suc.prems have r: "ins_shift per p ?a n = (k, a')" by simp
    have "k \<le> n" using ins_shift_eq [OF r] by simp
    moreover have "\<forall>i. k \<le> i \<and> i < n \<longrightarrow> p < per (?a i)" "0 < k \<longrightarrow> per (?a (k - 1)) \<le> p"
      using Suc.IH [OF r] by blast+
    moreover have "k - 1 \<noteq> Suc n" using \<open>k \<le> n\<close> by simp
    ultimately show ?thesis using True by (auto simp: less_Suc_eq)
  next
    case False
    with Suc.prems show ?thesis by auto
  qed
qed auto

lemma ins_shift_list:
  assumes "ins_shift per p a n = (k, a')"
  shows "arr_list (a'(k := t)) (Suc n) = take k (arr_list a n) @ t # drop k (arr_list a n)"
proof (rule nth_equalityI)
  have k: "k \<le> n" and a': "a' = (\<lambda>i. if k < i \<and> i \<le> n then a (i - 1) else a i)"
    using ins_shift_eq [OF assms] by simp_all
  show "length (arr_list (a'(k := t)) (Suc n)) = length (take k (arr_list a n) @ t # drop k (arr_list a n))"
    using k by simp
  fix i
  assume "i < length (arr_list (a'(k := t)) (Suc n))"
  then have "i \<le> n" by simp
  then show "arr_list (a'(k := t)) (Suc n) ! i = (take k (arr_list a n) @ t # drop k (arr_list a n)) ! i"
    using k by (cases "i < k"; cases "i = k") (simp_all add: nth_append nth_Cons' a' del: arr_list_upd)
qed

lemma shift_down_list:
  "int (length (arr_list a n)) = len \<Longrightarrow> k < n \<Longrightarrow>
   arr_list (shift_down a k len) (n - 1) = take k (arr_list a n) @ drop (Suc k) (arr_list a n)"
proof (induction a k len rule: shift_down.induct)
  case (1 a k len)
  show ?case
  proof (cases "int k \<le> len - 2")
    case True
    let ?a = "a(k := a (k + 1))"
    have "arr_list (shift_down a k len) (n - 1) = arr_list (shift_down ?a (k + 1) len) (n - 1)"
      using True by (subst shift_down.simps) simp
    also have "\<dots> = take (k + 1) (arr_list ?a n) @ drop (Suc (k + 1)) (arr_list ?a n)"
      using "1.prems" True by (intro "1.IH" [OF True]) auto
    also have "\<dots> = take k (arr_list a n) @ drop (Suc k) (arr_list a n)"
    proof -
      have "Suc k < n" using True "1.prems" by simp
      then show ?thesis by (simp add: take_Suc_conv_app_nth Cons_nth_drop_Suc [symmetric])
    qed
    finally show ?thesis .
  next
    case False
    then have "n = Suc k" using "1.prems" by auto
    then show ?thesis using False by (simp add: shift_down.simps [of a k len] arr_list_Suc)
  qed
qed

lemma find_pos_spec:
  assumes "t \<in> set (arr_list a n)" "i \<le> n" "t \<notin> set (take i (arr_list a n))"
  shows "find_pos a t i (int n) < n \<and> a (find_pos a t i (int n)) = t \<and>
         t \<notin> set (take (find_pos a t i (int n)) (arr_list a n))"
  using assms
proof (induction "n - i" arbitrary: i)
  case 0
  then show ?case by simp
next
  case (Suc m)
  then have "i < n" by simp
  show ?case
  proof (cases "a i = t")
    case True
    then show ?thesis using Suc.prems \<open>i < n\<close> by (simp add: find_pos.simps [of a t i])
  next
    case False
    then have "find_pos a t (i + 1) (int n) < n \<and> a (find_pos a t (i + 1) (int n)) = t \<and>
         t \<notin> set (take (find_pos a t (i + 1) (int n)) (arr_list a n))"
      using Suc.prems Suc.hyps \<open>i < n\<close>
      by (intro Suc.hyps) (auto simp: take_Suc_conv_app_nth)
    then show ?thesis using False \<open>i < n\<close> by (simp add: find_pos.simps [of a t i])
  qed
qed

lemma remove1_take_drop:
  assumes "k < length xs" "xs ! k = x" "x \<notin> set (take k xs)"
  shows "remove1 x xs = take k xs @ drop (Suc k) xs"
proof -
  have "xs = take k xs @ x # drop (Suc k) xs"
    using id_take_nth_drop [OF assms(1)] assms(2) by simp
  then have "remove1 x xs = remove1 x (take k xs @ x # drop (Suc k) xs)" by simp
  then show ?thesis using assms(3) by (simp add: remove1_append)
qed

text \<open>The find-and-shift sequence removes the first occurrence.\<close>

lemma find_shift_remove1:
  assumes "t \<in> set (arr_list a n)"
  shows "arr_list (shift_down a (find_pos a t 0 (int n)) (int n)) (n - 1) = remove1 t (arr_list a n)"
proof -
  let ?k = "find_pos a t 0 (int n)"
  have k: "?k < n" "a ?k = t" "t \<notin> set (take ?k (arr_list a n))"
    using find_pos_spec [OF assms, of 0] by simp_all
  then have "remove1 t (arr_list a n) = take ?k (arr_list a n) @ drop (Suc ?k) (arr_list a n)"
    by (intro remove1_take_drop) simp_all
  then show ?thesis using shift_down_list [of a n "int n" ?k] k(1) by simp
qed

section \<open>The tests\<close>

lemma ub_loop_spec:
  assumes "\<And>k. k < n \<Longrightarrow> 0 \<le> u k" "(\<Sum>k<n. u k) \<le> 10000"
  obtains i where "ub_loop u n (\<Sum>k<n. u k) = Inr i" "i \<le> n" "\<not> ub_fail i (\<Sum>k<i. u k)"
    "\<And>k. i < k \<Longrightarrow> k \<le> n \<Longrightarrow> ub_fail k (\<Sum>l<k. u l)"
proof -
  have "\<exists>i. ub_loop u n (\<Sum>k<n. u k) = Inr i \<and> i \<le> n \<and> \<not> ub_fail i (\<Sum>k<i. u k) \<and>
      (\<forall>k. i < k \<and> k \<le> n \<longrightarrow> ub_fail k (\<Sum>l<k. u l))"
    using assms
  proof (induction n)
    case 0
    show ?case by (simp add: ub_fail_def util_bound_def)
  next
    case (Suc n)
    show ?case
    proof (cases "ub_fail (Suc n) (\<Sum>k<Suc n. u k)")
      case False
      then show ?thesis by (intro exI [of _ "Suc n"]) auto
    next
      case True
      have pos: "0 \<le> (\<Sum>k<n. u k)" "0 \<le> u n" by (auto intro!: sum_nonneg Suc.prems(1))
      then have "s32 ((\<Sum>k<Suc n. u k) - u n) = (\<Sum>k<n. u k)"
        using Suc.prems(2) by (simp add: s32_id)
      then have "ub_loop u (Suc n) (\<Sum>k<Suc n. u k) = ub_loop u n (\<Sum>k<n. u k)"
        using True by simp
      moreover have "\<exists>i. ub_loop u n (\<Sum>k<n. u k) = Inr i \<and> i \<le> n \<and> \<not> ub_fail i (\<Sum>k<i. u k) \<and>
          (\<forall>k. i < k \<and> k \<le> n \<longrightarrow> ub_fail k (\<Sum>l<k. u l))"
      proof -
        have "(\<Sum>k<n. u k) \<le> 10000" using Suc.prems(2) pos by simp
        then show ?thesis by (intro Suc.IH Suc.prems(1)) simp_all
      qed
      ultimately show ?thesis using True by (metis le_Suc_eq)
    qed
  qed
  then show thesis using that by blast
qed

lemma rt_interference_append:
  "rt_interference B P prev (ks @ ls) acc =
   bindR (rt_interference B P prev ks acc) (rt_interference B P prev ls)"
  by (induction ks arbitrary: acc) (simp_all add: bindR_assoc Let_def)

text \<open>The numbers of an array whose arithmetic stays inside \<^verbatim>\<open>int\<close>.\<close>

definition MAX_PERIOD :: int where "MAX_PERIOD = 1000000"

definition nums_ok :: "(nat \<Rightarrow> int) \<Rightarrow> (nat \<Rightarrow> int) \<Rightarrow> nat \<Rightarrow> bool" where
  "nums_ok B P n \<longleftrightarrow> n \<le> 1000 \<and> (\<forall>k<n. 0 < P k \<and> P k \<le> MAX_PERIOD \<and> 0 \<le> B k \<and> B k \<le> P k)"

definition params :: "(nat \<Rightarrow> int) \<Rightarrow> (nat \<Rightarrow> int) \<Rightarrow> nat \<Rightarrow> (nat \<times> nat) list" where
  "params B P j = arr_list (\<lambda>k. (nat (B k), nat (P k))) j"

lemma appearance_eq:
  assumes "0 < p" "x < 2147483648"
  shows "c_div (int x) (int p) = Inr (int (x div p))"
    and "c_mod (int x) (int p) = Inr (int (x mod p))"
    and "ceil_div x p = x div p + (if x mod p \<noteq> 0 then 1 else 0)"
  using assms by (simp_all add: c_div_nonneg c_mod_nonneg zdiv_int zmod_int ceil_div_def)

lemma interference_le:
  assumes "0 < p" "c \<le> p" "x \<le> m" "p \<le> m"
  shows "ceil_div x p * c \<le> 2 * m"
proof -
  have "ceil_div x p * c \<le> (x div p + 1) * p"
    using assms(2) by (intro mult_le_mono) (simp_all add: ceil_div_def)
  also have "\<dots> \<le> x + p" by (simp add: add_mult_distrib)
  finally show ?thesis using assms by simp
qed

lemma rt_interference_demand:
  assumes ok: "nums_ok B P n" and "k \<le> j" "j < n" and x: "x \<le> 1000000"
  shows "rt_interference B P (int x) [0..<k] (B j) =
           Inr (int (demand (params B P k) (nat (B j)) x)) \<and>
         demand (params B P k) (nat (B j)) x \<le> 1000000 + 2000000 * k"
  using \<open>k \<le> j\<close>
proof (induction k)
  case 0
  show ?case using ok \<open>j < n\<close> by (auto simp: params_def nums_ok_def MAX_PERIOD_def)
next
  case (Suc k)
  let ?d = "demand (params B P k) (nat (B j)) x"
  have IH: "rt_interference B P (int x) [0..<k] (B j) = Inr (int ?d)" "?d \<le> 1000000 + 2000000 * k"
    using Suc by simp_all
  have k: "0 < P k" "P k \<le> 1000000" "0 \<le> B k" "B k \<le> P k" "k < 1000"
    using ok Suc.prems \<open>j < n\<close> by (auto simp: nums_ok_def MAX_PERIOD_def)
  obtain p c where pc: "P k = int p" "B k = int c"
    using k zero_le_imp_eq_int [of "P k"] zero_le_imp_eq_int [of "B k"] by auto
  with k have b: "0 < p" "c \<le> p" "p \<le> 1000000" by simp_all
  have tm: "ceil_div x p * c \<le> 2000000"
    using interference_le [of p c x 1000000] b x by simp
  have "x * 1 \<le> x * p" using b(1) by (intro mult_le_mono2) simp
  then have cd: "ceil_div x p \<le> 1000000"
    using ceil_div_le_iff [OF b(1), of x x] x by simp
  have "rt_interference B P (int x) [k] (int ?d) =
      Inr (s32 (int ?d + s32 (s32 (int (ceil_div x p)) * int c)))"
    using pc b x by (auto simp: appearance_eq [of p x])
  also have "s32 (int (ceil_div x p)) = int (ceil_div x p)" using cd by (simp add: s32_id)
  also have "s32 (int (ceil_div x p) * int c) = int (ceil_div x p * c)"
    unfolding of_nat_mult [symmetric] using tm by (intro s32_id) linarith+
  also have "s32 (int ?d + int (ceil_div x p * c)) = int (?d + ceil_div x p * c)"
    unfolding of_nat_add [symmetric] using tm IH(2) k(5) by (intro s32_id) linarith+
  finally have "rt_interference B P (int x) [0..<Suc k] (B j) = Inr (int (?d + ceil_div x p * c))"
    using IH(1) by (simp add: rt_interference_append)
  then show ?case
    using IH(2) tm pc by (simp add: params_def arr_list_Suc demand_snoc)
qed

lemma rt_body_demand:
  assumes "nums_ok B P n" "j < n" "x \<le> nat (P j)"
  shows "rt_body B P j (int x) = Inr (int (demand (params B P j) (nat (B j)) x))"
proof -
  have "x \<le> 1000000" using assms by (auto simp: nums_ok_def MAX_PERIOD_def)
  then show ?thesis
    using rt_interference_demand [OF assms(1) order.refl assms(2)] by (simp add: rt_body_def)
qed

lemma rt_init_eq:
  assumes "nums_ok B P n" "j < n"
  shows "rt_init B j = (\<Sum>k\<le>j. B k)"
proof -
  have "k \<le> Suc j \<Longrightarrow> fold (\<lambda>k prev. s32 (prev + B k)) [0..<k] 0 = (\<Sum>i<k. B i) \<and>
      0 \<le> (\<Sum>i<k. B i) \<and> (\<Sum>i<k. B i) \<le> 1000000 * int k" for k
  proof (induction k)
    case (Suc k)
    then have "k < n" using assms(2) by simp
    then have "0 \<le> B k" "B k \<le> 1000000" "k < 1000"
      using assms(1) by (force simp: nums_ok_def MAX_PERIOD_def)+
    then show ?case using Suc by (simp add: s32_id)
  qed simp
  from this [of "Suc j"] show ?thesis by (simp add: rt_init_def lessThan_Suc_atMost)
qed

lemma rt_response_spec:
  assumes ok: "nums_ok B P n" "j < n"
  obtains c where "rt_response B P j = Inr c"
    "c \<le> P j \<longleftrightarrow> meets_deadline (params B P j) (nat (B j)) (nat (P j))"
    "0 \<le> c" "c \<le> P j \<longrightarrow> demand (params B P j) (nat (B j)) (nat c) = nat c"
    "\<forall>t. demand (params B P j) (nat (B j)) t \<le> t \<longrightarrow> c \<le> int t"
proof -
  let ?f = "demand (params B P j) (nat (B j))"
  have P: "int (nat (P j)) = P j" using ok by (auto simp: nums_ok_def)
  have start: "?f 0 = 0" if "rt_init B j = 0"
  proof -
    have "\<And>k. k \<in> {..j} \<Longrightarrow> 0 \<le> B k" using ok by (auto simp: nums_ok_def)
    moreover have "(\<Sum>k\<le>j. B k) = 0" using that rt_init_eq [OF ok] by simp
    ultimately have "\<forall>k\<in>{..j}. B k = 0"
      using sum_nonneg_eq_0_iff [of "{..j}" B] by blast
    then have "B j = 0" by simp
    then show ?thesis by simp
  qed
  from dm.rt_loop_decides [OF rt_body_demand [OF ok] start]
  obtain c where c: "rt_loop (rt_body B P j) (int (nat (P j))) 0 (rt_init B j) = Some (Inr (int c))"
    "c \<le> nat (P j) \<longleftrightarrow> (\<exists>t\<le>nat (P j). ?f t \<le> t)" "c \<le> nat (P j) \<longrightarrow> ?f c = c"
    "\<forall>t. ?f t \<le> t \<longrightarrow> c \<le> t" .
  from c(1) have "rt_response B P j = Inr (int c)"
    unfolding P by (simp add: rt_response_def)
  moreover have "int c \<le> P j \<longleftrightarrow> c \<le> nat (P j)" using P by linarith
  then have "int c \<le> P j \<longleftrightarrow> meets_deadline (params B P j) (nat (B j)) (nat (P j))"
    using c(2) by (simp add: meets_deadline_def)
  ultimately show thesis using c(3,4) \<open>int c \<le> P j \<longleftrightarrow> c \<le> nat (P j)\<close>
    by (intro that [of "int c"]) auto
qed

lemma rt_test_spec:
  assumes "nums_ok B P n" "j + m \<le> n"
  shows "rt_test B P j m =
    Inr (\<forall>k\<in>{j..<j + m}. meets_deadline (params B P k) (nat (B k)) (nat (P k)))"
  using assms(2)
proof (induction m arbitrary: j)
  case (Suc m)
  have "j < n" using Suc.prems by simp
  from rt_response_spec [OF assms(1) this] obtain c where c: "rt_response B P j = Inr c"
    "c \<le> P j \<longleftrightarrow> meets_deadline (params B P j) (nat (B j)) (nat (P j))" by blast
  have "{j..<j + Suc m} = insert j {Suc j..<Suc j + m}" by auto
  then show ?case
    using Suc.IH [of "Suc j"] Suc.prems c by (simp add: not_le [symmetric])
qed simp

section \<open>Bins and admission\<close>

text \<open>The abstract view: a processor is a bin, the list of the tasks bound to it.\<close>

definition bin :: "kst \<Rightarrow> int \<Rightarrow> tptr list" where
  "bin s c = arr_list (cpu_tasks s c) (nat (cpu_tasks_length s c))"

definition task_ok :: "reserve_t \<Rightarrow> bool" where
  "task_ok r \<longleftrightarrow> 0 < r_period r \<and> r_period r \<le> MAX_PERIOD \<and> 0 \<le> r_budget r \<and>
     r_budget r \<le> r_period r \<and> 0 \<le> r_util r \<and> r_util r \<le> UTIL_MULTIPLE"

definition util_sum :: "kst \<Rightarrow> tptr list \<Rightarrow> int" where
  "util_sum s xs = (\<Sum>t\<leftarrow>xs. r_util (reserve s t))"

definition by_period :: "kst \<Rightarrow> tptr list \<Rightarrow> bool" where
  "by_period s xs \<longleftrightarrow> sorted (map (\<lambda>t. r_period (reserve s t)) xs)"

text \<open>What the arrays of one processor promise between calls.\<close>

definition bin_ok :: "kst \<Rightarrow> int \<Rightarrow> bool" where
  "bin_ok s c \<longleftrightarrow>
     0 \<le> cpu_tasks_length s c \<and> cpu_tasks_length s c \<le> TASK_SCHEDULING_LENGTH \<and>
     (\<forall>t\<in>set (bin s c). task_ok (reserve s t)) \<and> distinct (bin s c) \<and> by_period s (bin s c) \<and>
     cpu_util s c = util_sum s (bin s c) \<and> cpu_util s c \<le> UTIL_MULTIPLE"

definition insert_by_period :: "kst \<Rightarrow> tptr \<Rightarrow> tptr list \<Rightarrow> tptr list" where
  "insert_by_period s t xs =
     (let P = \<lambda>u. r_period (reserve s u) \<le> r_period (reserve s t)
      in takeWhile P xs @ t # dropWhile P xs)"

definition task_params :: "kst \<Rightarrow> tptr list \<Rightarrow> (nat \<times> nat) list" where
  "task_params s xs = map (\<lambda>u. (nat (r_budget (reserve s u)), nat (r_period (reserve s u)))) xs"

text \<open>The admission criterion: a prefix of the bin is below the utilization bound of its size, and
  every task after the prefix meets its deadline by the response-time criterion.\<close>

definition admissible :: "kst \<Rightarrow> tptr list \<Rightarrow> bool" where
  "admissible s xs \<longleftrightarrow>
     (\<exists>i\<le>length xs. \<not> ub_fail i (util_sum s (take i xs)) \<and>
        (\<forall>j\<in>{i..<length xs}. meets_deadline (task_params s (take j xs))
           (nat (r_budget (reserve s (xs ! j)))) (nat (r_period (reserve s (xs ! j))))))"

definition admits :: "kst \<Rightarrow> tptr \<Rightarrow> int \<Rightarrow> bool" where
  "admits s t c \<longleftrightarrow>
     length (bin s c) < 1000 \<and> util_sum s (bin s c) + r_util (reserve s t) \<le> UTIL_MULTIPLE \<and>
     admissible s (insert_by_period s t (bin s c))"

lemma set_bin_simps [simp]:
  "cpu_tasks (set_bin c a n u s) = (cpu_tasks s)(c := a)"
  "cpu_tasks_length (set_bin c a n u s) = (cpu_tasks_length s)(c := n)"
  "cpu_util (set_bin c a n u s) = (cpu_util s)(c := u)"
  "reserve (set_bin c a n u s) t = reserve s t"
  "task (set_bin c a n u s) = task s" "threads (set_bin c a n u s) = threads s"
  "cpu_open (set_bin c a n u s) = cpu_open s" "cpu_online (set_bin c a n u s) = cpu_online s"
  "set_bin c a' n' u' (set_bin c a n u s) = set_bin c a' n' u' s"
  by (simp_all add: set_bin_def reserve_def)

lemma bin_set_bin [simp]:
  "bin (set_bin c a n u s) d = (if d = c then arr_list a (nat n) else bin s d)"
  by (simp add: bin_def)

lemma set_insert_by_period [simp]: "set (insert_by_period s t xs) = insert t (set xs)"
proof -
  have "set xs = set (takeWhile P xs) \<union> set (dropWhile P xs)" for P
    by (metis set_append takeWhile_dropWhile_id)
  then show ?thesis by (auto simp: insert_by_period_def Let_def)
qed

lemma mset_insert_by_period: "mset (insert_by_period s t xs) = add_mset t (mset xs)"
  by (simp add: insert_by_period_def Let_def)
    (metis mset_append takeWhile_dropWhile_id)

lemma length_insert_by_period [simp]: "length (insert_by_period s t xs) = Suc (length xs)"
  using mset_insert_by_period [of s t xs] by (metis size_add_mset size_mset)

lemma util_sum_mset: "util_sum s xs = (\<Sum>t\<in>#mset xs. r_util (reserve s t))"
  by (simp add: util_sum_def sum_mset_sum_list [symmetric])

lemma util_sum_insert [simp]:
  "util_sum s (insert_by_period s t xs) = r_util (reserve s t) + util_sum s xs"
  by (simp add: util_sum_mset mset_insert_by_period)

lemma distinct_insert_by_period [simp]:
  "distinct (insert_by_period s t xs) \<longleftrightarrow> t \<notin> set xs \<and> distinct xs"
  by (metis mset_insert_by_period mset_eq_imp_distinct_iff distinct.simps(2) mset.simps(2)
      set_mset_mset)

lemma by_period_insert:
  assumes "by_period s xs"
  shows "by_period s (insert_by_period s t xs)"
proof -
  define f where "f = (\<lambda>u. r_period (reserve s u))"
  define xs1 xs2 where "xs1 = takeWhile (\<lambda>u. f u \<le> f t) xs" and "xs2 = dropWhile (\<lambda>u. f u \<le> f t) xs"
  have xs: "xs = xs1 @ xs2" by (simp add: xs1_def xs2_def)
  have s: "sorted (map f (xs1 @ xs2))" using assms by (simp add: by_period_def f_def xs [symmetric])
  have lo: "\<forall>u\<in>set xs1. f u \<le> f t" by (auto simp: xs1_def dest: set_takeWhileD)
  have hi: "\<forall>u\<in>set xs2. f t \<le> f u"
  proof (cases xs2)
    case (Cons y ys)
    then have "\<not> f y \<le> f t" by (metis hd_dropWhile list.distinct(1) list.sel(1) xs2_def)
    then show ?thesis using s Cons by (auto simp: sorted_append)
  qed simp
  have "sorted (map f (xs1 @ t # xs2))"
    using s lo hi by (auto simp: sorted_append)
  then show ?thesis
    by (simp add: by_period_def insert_by_period_def Let_def f_def xs1_def xs2_def)
qed

lemma ins_shift_insert_by_period:
  assumes "by_period s (arr_list a n)"
    and "ins_shift (\<lambda>u. r_period (reserve s u)) (r_period (reserve s t)) a n = (k, a')"
  shows "arr_list (a'(k := t)) (Suc n) = insert_by_period s t (arr_list a n)"
proof -
  define f where "f = (\<lambda>u. r_period (reserve s u))"
  have sh: "ins_shift f (f t) a n = (k, a')" using assms(2) by (simp add: f_def)
  have k: "k \<le> n" using ins_shift_eq [OF sh] by simp
  have pos: "\<forall>i. k \<le> i \<and> i < n \<longrightarrow> f t < f (a i)" "0 < k \<longrightarrow> f (a (k - 1)) \<le> f t"
    using ins_shift_pos [OF sh] by blast+
  have lo: "f (a i) \<le> f t" if "i < k" for i
  proof -
    have "sorted (map f (arr_list a n))" using assms(1) by (simp add: by_period_def f_def)
    then have "map f (arr_list a n) ! i \<le> map f (arr_list a n) ! (k - 1)"
      using that k by (intro sorted_nth_mono) simp_all
    then show ?thesis using that k pos(2) by simp
  qed
  have "takeWhile (\<lambda>u. f u \<le> f t) (arr_list a n) = take k (arr_list a n)"
    using lo pos(1) by (intro takeWhile_eq_take_P_nth) (auto simp: not_le)
  moreover from this have "dropWhile (\<lambda>u. f u \<le> f t) (arr_list a n) = drop k (arr_list a n)"
    using k by (simp add: dropWhile_eq_drop)
  ultimately show ?thesis
    using ins_shift_list [OF sh] by (simp add: insert_by_period_def Let_def f_def)
qed

subsection \<open>The tests decide admissibility\<close>

lemma admissible_by_tests:
  assumes ok: "nums_ok (\<lambda>k. r_budget (reserve s (a k))) (\<lambda>k. r_period (reserve s (a k))) n"
    and ub: "i \<le> n" "\<not> ub_fail i (\<Sum>k<i. r_util (reserve s (a k)))"
      "\<And>k. i < k \<Longrightarrow> k \<le> n \<Longrightarrow> ub_fail k (\<Sum>l<k. r_util (reserve s (a l)))"
  shows "rt_test (\<lambda>k. r_budget (reserve s (a k))) (\<lambda>k. r_period (reserve s (a k))) i (n - i) =
           Inr (admissible s (arr_list a n))"
proof -
  let ?B = "\<lambda>k. r_budget (reserve s (a k))" and ?P = "\<lambda>k. r_period (reserve s (a k))"
  let ?D = "\<lambda>j. meets_deadline (params ?B ?P j) (nat (?B j)) (nat (?P j))"
  have us: "util_sum s (take k (arr_list a n)) = (\<Sum>l<k. r_util (reserve s (a l)))" if "k \<le> n" for k
    using that by (simp add: util_sum_def take_arr_list map_arr_list sum_list_arr)
  have md: "meets_deadline (task_params s (take j (arr_list a n)))
      (nat (r_budget (reserve s (arr_list a n ! j)))) (nat (r_period (reserve s (arr_list a n ! j))))
      = ?D j" if "j < n" for j
    using that by (simp add: task_params_def params_def take_arr_list map_arr_list)
  have "admissible s (arr_list a n) \<longleftrightarrow> (\<forall>j\<in>{i..<n}. ?D j)"
  proof
    assume "admissible s (arr_list a n)"
    then obtain i' where i': "i' \<le> n" "\<not> ub_fail i' (\<Sum>l<i'. r_util (reserve s (a l)))"
      "\<forall>j\<in>{i'..<n}. ?D j"
      unfolding admissible_def using us md by auto
    then have "i' \<le> i" using ub(3) not_le by blast
    then show "\<forall>j\<in>{i..<n}. ?D j" using i'(3) by auto
  next
    assume "\<forall>j\<in>{i..<n}. ?D j"
    then show "admissible s (arr_list a n)"
      unfolding admissible_def using ub us md by (intro exI [of _ i]) auto
  qed
  then show ?thesis
    using rt_test_spec [OF ok, of i "n - i"] ub(1) by simp
qed

lemma bin_nums_ok:
  assumes "\<forall>t\<in>set (arr_list a n). task_ok (reserve s t)" "n \<le> 1000"
  shows "nums_ok (\<lambda>k. r_budget (reserve s (a k))) (\<lambda>k. r_period (reserve s (a k))) n"
  using assms by (auto simp: nums_ok_def task_ok_def set_arr_list)

text \<open>Everything after the insertion, for the array \<open>a\<close> that holds the new list.\<close>

lemma sched_tests_spec:
  assumes ok: "\<forall>t\<in>set (arr_list a n). task_ok (reserve s t)" "n \<le> 1000"
    and sum: "util_sum s (arr_list a n) \<le> 10000"
  shows "sched_tests s a (int n) (util_sum s (arr_list a n)) = Inr (admissible s (arr_list a n))"
proof -
  let ?u = "\<lambda>k. r_util (reserve s (a k))"
  have us: "util_sum s (arr_list a n) = (\<Sum>k<n. ?u k)"
    by (simp add: util_sum_def map_arr_list sum_list_arr)
  have "\<And>k. k < n \<Longrightarrow> 0 \<le> ?u k" using ok by (auto simp: task_ok_def set_arr_list)
  from ub_loop_spec [OF this sum [unfolded us]] obtain i where
    i: "ub_loop ?u n (\<Sum>k<n. ?u k) = Inr i" "i \<le> n" "\<not> ub_fail i (\<Sum>k<i. ?u k)"
      "\<And>k. i < k \<Longrightarrow> k \<le> n \<Longrightarrow> ub_fail k (\<Sum>l<k. ?u l)" by blast
  note rt = admissible_by_tests [OF bin_nums_ok [OF ok] i(2,3,4)]
  show ?thesis
    using i(1) rt by (cases "i = n") (simp_all add: sched_tests_def us)
qed

subsection \<open>Binding and unbinding\<close>

definition bin_frame :: "int \<Rightarrow> kst \<Rightarrow> kst \<Rightarrow> bool" where
  "bin_frame c s s' \<longleftrightarrow> (\<exists>a n u. s' = set_bin c a n u s)"

lemma bin_frame_refl [simp]: "bin_frame c s s"
proof -
  have "s = set_bin c (cpu_tasks s c) (cpu_tasks_length s c) (cpu_util s c) s"
    by (simp add: set_bin_def)
  then show ?thesis unfolding bin_frame_def by blast
qed

lemma bin_frame_other:
  "bin_frame c s s' \<Longrightarrow> d \<noteq> c \<Longrightarrow>
     bin s' d = bin s d \<and> cpu_util s' d = cpu_util s d \<and> cpu_tasks_length s' d = cpu_tasks_length s d"
  "bin_frame c s s' \<Longrightarrow> reserve s' t = reserve s t"
  "bin_frame c s s' \<Longrightarrow> task s' = task s \<and> threads s' = threads s \<and> cpu_open s' = cpu_open s \<and>
     cpu_online s' = cpu_online s"
  by (auto simp: bin_frame_def)

lemma bin_frame_trans: "bin_frame c s s' \<Longrightarrow> bin_frame c s' s'' \<Longrightarrow> bin_frame c s s''"
  unfolding bin_frame_def by (metis set_bin_simps(9))

text \<open>The contract of \<^verbatim>\<open>try_bind\<close>: with sane numbers it always returns, 0 exactly when the bin with
  the task added is admissible; the task is then in the bin, in order of period; otherwise the bin
  is as before.\<close>

definition bound :: "kst \<Rightarrow> tptr \<Rightarrow> int \<Rightarrow> kst \<Rightarrow> bool" where
  "bound s t c s' \<longleftrightarrow> bin_frame c s s' \<and> bin s' c = insert_by_period s t (bin s c) \<and>
     cpu_util s' c = cpu_util s c + r_util (reserve s t) \<and>
     cpu_tasks_length s' c = cpu_tasks_length s c + 1"

definition untouched :: "kst \<Rightarrow> int \<Rightarrow> kst \<Rightarrow> bool" where
  "untouched s c s' \<longleftrightarrow> bin_frame c s s' \<and> bin s' c = bin s c \<and> cpu_util s' c = cpu_util s c \<and>
     cpu_tasks_length s' c = cpu_tasks_length s c"

lemma try_bind_spec:
  assumes c: "0 \<le> c" "c \<le> 3" and ok: "bin_ok s c" and t: "task_ok (reserve s t)"
  shows "\<exists>s'. try_bind s t c = Inr (if admits s t c then 0 else EBUSY, s') \<and>
    (if admits s t c then bound s t c s' else untouched s c s')"
proof -
  define n where "n = nat (cpu_tasks_length s c)"
  define a where "a = cpu_tasks s c"
  define u where "u = r_util (reserve s t)"
  have len: "cpu_tasks_length s c = int n" "n \<le> 1000"
    using ok by (auto simp: bin_ok_def n_def reserve_consts)
  have bin: "bin s c = arr_list a n" by (simp add: bin_def n_def a_def)
  have cu: "cpu_util s c = util_sum s (arr_list a n)" "cpu_util s c \<le> 10000"
    using ok by (auto simp: bin_ok_def bin reserve_consts)
  have tasks: "\<forall>x\<in>set (arr_list a n). task_ok (reserve s x)" and "by_period s (arr_list a n)"
    using ok by (auto simp: bin_ok_def bin)
  have u: "0 \<le> u" "u \<le> 10000" using t by (auto simp: u_def task_ok_def reserve_consts)
  have cu0: "0 \<le> cpu_util s c"
    unfolding cu(1) util_sum_def using tasks by (intro sum_list_nonneg) (auto simp: task_ok_def)
  have wrap: "s32 (u + cpu_util s c) = u + cpu_util s c" "s32 (cpu_util s c + u) = cpu_util s c + u"
    "s32 (cpu_util s c + u - u) = cpu_util s c"
    using u cu(2) cu0 by (simp_all add: s32_id)
  show ?thesis
  proof (cases "n < 1000 \<and> u + cpu_util s c \<le> 10000")
    case False
    then have "\<not> admits s t c" using cu(1) len by (auto simp: admits_def bin u_def reserve_consts)
    moreover have "try_bind s t c = Inr (EBUSY, s)"
      using False c len u wrap(1) by (auto simp: try_bind_def reserve_consts u_def)
    ultimately show ?thesis by (auto simp: untouched_def)
  next
    case True
    obtain k a1 where sh: "ins_shift (\<lambda>p. r_period (reserve s p)) (r_period (reserve s t)) a n = (k, a1)"
      by fastforce
    define b where "b = a1(k := t)"
    have k: "k \<le> n" using ins_shift_eq [OF sh] by simp
    have ins: "arr_list b (Suc n) = insert_by_period s t (arr_list a n)"
      unfolding b_def using \<open>by_period s (arr_list a n)\<close> sh by (rule ins_shift_insert_by_period)
    have undo: "arr_list (shift_down b k (int (Suc n))) n = arr_list a n"
      using shift_down_list [of b "Suc n" "int (Suc n)" k] k ins_shift_list [OF sh, of t]
      by (simp add: b_def del: arr_list_upd)
    have us: "util_sum s (arr_list b (Suc n)) = cpu_util s c + u"
      by (simp add: ins u_def cu(1))
    have tests: "sched_tests s b (int n + 1) (cpu_util s c + u) =
        Inr (admissible s (arr_list b (Suc n)))"
      using sched_tests_spec [of b "Suc n" s] True t tasks us by (simp add: ins add.commute)
    have adm: "admits s t c \<longleftrightarrow> admissible s (arr_list b (Suc n))"
      using True by (simp add: admits_def bin ins u_def cu(1) [symmetric] reserve_consts algebra_simps)
    let ?s1 = "set_bin c b (int n + 1) (cpu_util s c + u) s"
    let ?s2 = "set_bin c (shift_down b k (int n + 1)) (int n) (cpu_util s c) ?s1"
    have "try_bind s t c = bindR (sched_tests s b (int n + 1) (cpu_util s c + u))
       (\<lambda>pass. if pass then Inr (0, ?s1) else Inr (EBUSY, ?s2))"
      using True c len(1) wrap sh
      by (simp add: try_bind_def reserve_consts u_def [symmetric] a_def [symmetric] b_def [symmetric]
          Let_def cong: if_cong)
    then have "try_bind s t c = Inr (if admits s t c then (0, ?s1) else (EBUSY, ?s2))"
      unfolding tests adm by simp
    moreover have "bound s t c ?s1"
      by (auto simp: bound_def bin_frame_def ins bin u_def len(1) nat_add_distrib)
    moreover have "untouched s c ?s2"
      using undo by (auto simp: untouched_def bin_frame_def bin len(1) add.commute)
    ultimately show ?thesis by auto
  qed
qed

text \<open>Both outcomes keep every promise of the bins.\<close>

lemma bin_ok_cong:
  assumes "bin s' c = bin s c" "cpu_util s' c = cpu_util s c" "cpu_tasks_length s' c = cpu_tasks_length s c"
    "\<And>t. t \<in> set (bin s c) \<Longrightarrow> reserve s' t = reserve s t"
  shows "bin_ok s' c \<longleftrightarrow> bin_ok s c"
proof -
  have "util_sum s' (bin s c) = util_sum s (bin s c)"
    using assms(4) by (simp add: util_sum_def cong: map_cong)
  moreover have "by_period s' (bin s c) \<longleftrightarrow> by_period s (bin s c)"
    using assms(4) by (simp add: by_period_def cong: map_cong)
  ultimately show ?thesis using assms by (simp add: bin_ok_def)
qed

lemma bound_bin_ok:
  assumes "bound s t c s'" "bin_ok s c" "task_ok (reserve s t)" "t \<notin> set (bin s c)" "admits s t c"
  shows "bin_ok s' c"
proof -
  have r: "reserve s' x = reserve s x" for x
    using assms(1) bin_frame_other(2) by (auto simp: bound_def)
  have "util_sum s' xs = util_sum s xs" "by_period s' xs = by_period s xs" for xs
    by (simp_all add: util_sum_def by_period_def r)
  moreover have "length (bin s c) = nat (cpu_tasks_length s c)" by (simp add: bin_def)
  ultimately show ?thesis
    using assms by (auto simp: bin_ok_def bound_def r by_period_insert admits_def reserve_consts)
qed

lemma unbind_spec:
  assumes c: "0 \<le> c" "c \<le> 3" and ok: "bin_ok s c" and t: "t \<in> set (bin s c)"
  shows "\<exists>s'. unbind s t c = Inr s' \<and> bin_frame c s s' \<and> bin s' c = remove1 t (bin s c) \<and>
    cpu_util s' c = cpu_util s c - r_util (reserve s t) \<and>
    cpu_tasks_length s' c = cpu_tasks_length s c - 1 \<and> bin_ok s' c"
proof -
  define n where "n = nat (cpu_tasks_length s c)"
  define a where "a = cpu_tasks s c"
  have len: "cpu_tasks_length s c = int n" "n \<le> 1000"
    using ok by (auto simp: bin_ok_def n_def reserve_consts)
  have bin: "bin s c = arr_list a n" by (simp add: bin_def n_def a_def)
  have "n \<noteq> 0" using t unfolding bin by (metis arr_list_0 empty_iff list.set(1))
  have rem: "arr_list (shift_down a (find_pos a t 0 (int n)) (int n)) (n - 1) = remove1 t (arr_list a n)"
    using t by (intro find_shift_remove1) (simp add: bin)
  have us: "util_sum s (bin s c) = r_util (reserve s t) + util_sum s (remove1 t (bin s c))"
    unfolding util_sum_def using t by (rule sum_list_map_remove1)
  have tok: "task_ok (reserve s x)" if "x \<in> set (bin s c)" for x
    using that ok by (simp add: bin_ok_def)
  have nn: "0 \<le> util_sum s (remove1 t (bin s c))" "0 \<le> r_util (reserve s t)"
    unfolding util_sum_def using tok t set_remove1_subset [of t "bin s c"]
    by (auto intro!: sum_list_nonneg simp: task_ok_def subset_iff)
  have cu: "cpu_util s c = r_util (reserve s t) + util_sum s (remove1 t (bin s c))" "cpu_util s c \<le> 10000"
    using ok us by (simp_all add: bin_ok_def reserve_consts)
  define s' where "s' = set_bin c (shift_down a (find_pos a t 0 (int n)) (int n)) (int n - 1)
    (cpu_util s c - r_util (reserve s t)) s"
  have "unbind s t c = Inr s'"
    using c len cu nn by (simp add: unbind_def a_def [symmetric] s'_def s32_id Let_def)
  moreover have b': "bin s' c = remove1 t (bin s c)"
    using rem by (simp add: s'_def bin nat_diff_distrib')
  moreover have "bin_ok s' c"
  proof -
    have "util_sum s' xs = util_sum s xs" "by_period s' xs = by_period s xs" for xs
      by (simp_all add: util_sum_def by_period_def s'_def)
    moreover have "by_period s (remove1 t (bin s c))"
      using ok unfolding bin_ok_def by_period_def by (metis sorted_map_remove1)
    moreover have "cpu_tasks_length s' c = int n - 1" "cpu_util s' c = cpu_util s c - r_util (reserve s t)"
      "\<And>x. reserve s' x = reserve s x" by (simp_all add: s'_def)
    ultimately show ?thesis
      using ok len cu nn \<open>n \<noteq> 0\<close> b' set_remove1_subset [of t "bin s c"]
      by (auto simp: bin_ok_def reserve_consts)
  qed
  moreover have "bin_frame c s s'" by (auto simp: bin_frame_def s'_def)
  ultimately show ?thesis using len(1) by (auto simp: s'_def)
qed

section \<open>Ordering the processors\<close>

lemma sort_scan_fold:
  assumes "ys \<noteq> []" "\<And>i. i \<in> set ys \<Longrightarrow> 0 \<le> cu i \<and> cu i \<le> UTIL_MULTIPLE"
  shows "\<exists>mx mn. fold (sort_scan cu) ys (-1, None, UTIL_MULTIPLE + 1, None) =
      (cu mx, Some mx, cu mn, Some mn) \<and> mx \<in> set ys \<and> mn \<in> set ys \<and>
      (\<forall>i\<in>set ys. cu i \<le> cu mx \<and> cu mn \<le> cu i)"
  using assms
proof (induction ys rule: rev_nonempty_induct)
  case (single y)
  then show ?case by (auto simp: sort_scan_def intro!: exI [of _ y])
next
  case (snoc y ys)
  then obtain mx mn where IH: "fold (sort_scan cu) ys (-1, None, UTIL_MULTIPLE + 1, None) =
      (cu mx, Some mx, cu mn, Some mn)" "mx \<in> set ys" "mn \<in> set ys"
      "\<forall>i\<in>set ys. cu i \<le> cu mx \<and> cu mn \<le> cu i"
    by auto
  show ?case
    by (rule exI [of _ "if cu mx < cu y then y else mx"], rule exI [of _ "if cu y < cu mn then y else mn"])
      (use IH in \<open>auto simp: sort_scan_def [of cu y] not_less\<close>)
qed

text \<open>With two different processors at the ends, the second loop finds the two others.\<close>

lemma sort_rest_distinct:
  assumes "mx \<in> {0, 1, 2, 3}" "mn \<in> {0, 1, 2, 3}" "mx \<noteq> mn"
  shows "\<exists>a b. fold (sort_rest mx mn) [0, 1, 2, 3] (-1, -1) = (a, b) \<and> 0 \<le> a \<and> 0 \<le> b \<and>
    {#mn, a, b, mx#} = {#0, 1, 2, 3#}"
  using assms by (auto simp: sort_rest_def add_mset_commute)

lemma sortCPU_distinct:
  assumes b: "\<And>i. i \<in> {0, 1, 2, 3} \<Longrightarrow> 0 \<le> cu i \<and> cu i \<le> UTIL_MULTIPLE"
    and ne: "\<not> (cu 0 = cu 1 \<and> cu 1 = cu 2 \<and> cu 2 = cu 3)"
  shows "\<exists>xs. sortCPU cu Asced = Inr xs \<and> mset xs = {#0, 1, 2, 3#} \<and>
    sorted (map cu (if Asced = 1 then xs else rev xs))"
proof -
  obtain mx mn where scan: "fold (sort_scan cu) [0, 1, 2, 3] (-1, None, UTIL_MULTIPLE + 1, None) =
      (cu mx, Some mx, cu mn, Some mn)" and ids: "mx \<in> {0, 1, 2, 3}" "mn \<in> {0, 1, 2, 3}"
      and ext: "\<forall>i\<in>{0, 1, 2, 3}. cu i \<le> cu mx \<and> cu mn \<le> cu i"
    using sort_scan_fold [of "[0, 1, 2, 3]" cu] b by auto
  have "cu mx \<noteq> cu mn" using ext ne by force
  then have "mx \<noteq> mn" by blast
  from sort_rest_distinct [OF ids this] obtain a c where rest:
    "fold (sort_rest mx mn) [0, 1, 2, 3] (-1, -1) = (a, c)" "0 \<le> a" "0 \<le> c"
    "{#mn, a, c, mx#} = {#0, 1, 2, 3#}" by blast
  have "set_mset {#mn, a, c, mx#} = {0, 1, 2, 3}" unfolding rest(4) by simp
  then have ac: "a \<in> {0, 1, 2, 3}" "c \<in> {0, 1, 2, 3}" by auto
  have perm: "{#mn, c, a, mx#} = {#0, 1, 2, 3#}" "{#mx, a, c, mn#} = {#0, 1, 2, 3#}"
    "{#mx, c, a, mn#} = {#0, 1, 2, 3#}"
    using rest(4) by (simp_all add: add_mset_commute)
  have "cu a \<le> cu mx" "cu c \<le> cu mx" "cu mn \<le> cu a" "cu mn \<le> cu c" "cu mn \<le> cu mx"
    using ext ac ids by auto
  then show ?thesis
    using scan rest perm by (cases "cu a > cu c") (auto simp: sortCPU_def)
qed

lemma sortCPU_same:
  assumes "0 \<le> u" "u \<le> UTIL_MULTIPLE" "cu 0 = u" "cu 1 = u" "cu 2 = u" "cu 3 = u"
  shows "sortCPU cu Asced = Inr (if Asced = 1 then [0, 1, 3, 0] else [0, 3, 1, 0])"
  using assms by (simp add: sortCPU_def sort_scan_def sort_rest_def)

section \<open>Properties\<close>

lemma remove1_insert_by_period:
  assumes "t \<notin> set xs"
  shows "remove1 t (insert_by_period s t xs) = xs"
proof -
  have "t \<notin> set (takeWhile P xs)" for P using assms by (auto dest: set_takeWhileD)
  then show ?thesis by (simp add: insert_by_period_def Let_def remove1_append)
qed

text \<open>C3. \<^verbatim>\<open>try_bind\<close> on a processor whose arrays are in order always returns, with 0 exactly when
  the admission criterion holds and \<^verbatim>\<open>EBUSY\<close> otherwise; it leaves the task in the array in order of
  period or the array as it was, keeps the arrays in order, and changes no other processor and no
  reservation.\<close>

theorem try_bind_decides:
  assumes "0 \<le> c" "c \<le> 3" "bin_ok s c" "task_ok (reserve s t)" "t \<notin> set (bin s c)"
  shows "\<exists>r s'. try_bind s t c = Inr (r, s') \<and> (r = 0 \<or> r = EBUSY) \<and> (r = 0 \<longleftrightarrow> admits s t c) \<and>
    bin s' c = (if r = 0 then insert_by_period s t (bin s c) else bin s c) \<and> bin_ok s' c \<and>
    (\<forall>d. d \<noteq> c \<longrightarrow> bin s' d = bin s d \<and> cpu_util s' d = cpu_util s d) \<and>
    (\<forall>u. reserve s' u = reserve s u)"
proof -
  from try_bind_spec [OF assms(1-4)] obtain s' where
    s': "try_bind s t c = Inr (if admits s t c then 0 else EBUSY, s')"
    "if admits s t c then bound s t c s' else untouched s c s'" by blast
  have fr: "bin_frame c s s'" using s'(2) by (auto simp: bound_def untouched_def split: if_splits)
  have "bin_ok s' c"
  proof (cases "admits s t c")
    case True
    then show ?thesis using s'(2) assms by (auto intro: bound_bin_ok)
  next
    case False
    then show ?thesis
      using s'(2) assms(3) bin_frame_other(2) [OF fr] by (subst bin_ok_cong [of s' c s]) (auto simp: untouched_def)
  qed
  then show ?thesis
    using s' bin_frame_other [OF fr] by (intro exI [of _ "if admits s t c then 0 else EBUSY"] exI [of _ s'])
      (auto simp: errno_defs bound_def untouched_def)
qed

definition one_task_state :: kst where
  "one_task_state = set_params 7 20 100 2000 (boot_state [7])"

theorem try_bind_decides_witness:
  "bin_ok one_task_state 1 \<and> task_ok (reserve one_task_state 7) \<and> 7 \<notin> set (bin one_task_state 1) \<and>
   (\<exists>r s'. try_bind one_task_state 7 1 = Inr (r, s') \<and> bin_ok s' 1 \<and>
      bin s' 1 = (if r = 0 then insert_by_period one_task_state 7 (bin one_task_state 1)
                  else bin one_task_state 1))"
proof -
  have "bin_ok one_task_state 1" "task_ok (reserve one_task_state 7)" "7 \<notin> set (bin one_task_state 1)"
    by code_simp+
  then show ?thesis using try_bind_decides [of 1 one_task_state 7] by auto
qed

text \<open>C5. The response time loop ends for every task of an array with sane numbers. If its result is
  at most the period it is the worst-case response time: the least window that is equal to the demand
  of the task and of all tasks before it; and it is at most the period exactly when some window up to
  the period covers its demand.\<close>

theorem rt_response_exact:
  assumes "nums_ok B P n" "j < n"
  shows "\<exists>R. rt_response B P j = Inr (int R) \<and>
    (int R \<le> P j \<longleftrightarrow> meets_deadline (params B P j) (nat (B j)) (nat (P j))) \<and>
    (int R \<le> P j \<longrightarrow> demand (params B P j) (nat (B j)) R = R) \<and>
    (\<forall>t. demand (params B P j) (nat (B j)) t \<le> t \<longrightarrow> R \<le> t)"
proof -
  from rt_response_spec [OF assms] obtain c where c: "rt_response B P j = Inr c"
    "c \<le> P j \<longleftrightarrow> meets_deadline (params B P j) (nat (B j)) (nat (P j))" "0 \<le> c"
    "c \<le> P j \<longrightarrow> demand (params B P j) (nat (B j)) (nat c) = nat c"
    "\<forall>t. demand (params B P j) (nat (B j)) t \<le> t \<longrightarrow> c \<le> int t" by blast
  then show ?thesis by (intro exI [of _ "nat c"]) auto
qed

theorem rt_response_exact_witness:
  "nums_ok (\<lambda>i. int i + 1) (\<lambda>i. 3 + 2 * int i) 2 \<and>
   (\<exists>R. rt_response (\<lambda>i. int i + 1) (\<lambda>i. 3 + 2 * int i) 1 = Inr (int R) \<and>
      (int R \<le> 5 \<longrightarrow> demand [(1, 3)] 2 R = R))"
proof -
  have ok: "nums_ok (\<lambda>i. int i + 1) (\<lambda>i. 3 + 2 * int i) 2"
    by (auto simp: nums_ok_def MAX_PERIOD_def)
  moreover have "params (\<lambda>i. int i + 1) (\<lambda>i. 3 + 2 * int i) 1 = [(1, 3)]" by (simp add: params_def arr_list_def)
  ultimately show ?thesis using rt_response_exact [OF ok, of 1] by auto
qed

text \<open>C7. Unbinding a task that \<^verbatim>\<open>try_bind\<close> has just admitted gives back the array, the length and
  the utilization the processor had before.\<close>

theorem unbind_inverts_bind:
  assumes "0 \<le> c" "c \<le> 3" "bin_ok s c" "task_ok (reserve s t)" "t \<notin> set (bin s c)" "admits s t c"
  shows "\<exists>s1 s2. try_bind s t c = Inr (0, s1) \<and> unbind s1 t c = Inr s2 \<and> bin s2 c = bin s c \<and>
    cpu_util s2 c = cpu_util s c \<and> cpu_tasks_length s2 c = cpu_tasks_length s c \<and> bin_ok s2 c"
proof -
  from try_bind_spec [OF assms(1-4)] assms(6) obtain s1 where
    s1: "try_bind s t c = Inr (0, s1)" "bound s t c s1" by auto
  have "bin_ok s1 c" "t \<in> set (bin s1 c)"
    using bound_bin_ok [OF s1(2)] assms s1(2) by (auto simp: bound_def)
  from unbind_spec [OF assms(1,2) this] obtain s2 where s2: "unbind s1 t c = Inr s2"
    "bin s2 c = remove1 t (bin s1 c)" "cpu_util s2 c = cpu_util s1 c - r_util (reserve s1 t)"
    "cpu_tasks_length s2 c = cpu_tasks_length s1 c - 1" "bin_ok s2 c" by blast
  have "reserve s1 t = reserve s t" using s1(2) bin_frame_other(2) by (auto simp: bound_def)
  with s1 s2 assms(5) show ?thesis by (auto simp: bound_def remove1_insert_by_period)
qed

theorem unbind_inverts_bind_witness:
  "admits one_task_state 7 1 \<and> (\<exists>s1 s2. try_bind one_task_state 7 1 = Inr (0, s1) \<and>
     unbind s1 7 1 = Inr s2 \<and> bin s2 1 = [])"
proof -
  have h: "bin_ok one_task_state 1" "task_ok (reserve one_task_state 7)" "7 \<notin> set (bin one_task_state 1)"
    and e: "bin one_task_state 1 = []" "r_util (reserve one_task_state 7) = 2000" by code_simp+
  have "admissible one_task_state [7]" unfolding admissible_def
    by (rule exI [of _ 1]) (simp add: ub_fail_def UTIL_BOUND_MAX_def UTIL_BOUND_INF_def util_bound_def
        util_sum_def e)
  then have "admits one_task_state 7 1"
    by (simp add: admits_def e insert_by_period_def util_sum_def reserve_consts)
  with h e show ?thesis using unbind_inverts_bind [of 1 one_task_state 7] by auto
qed

text \<open>C16. When the four utilizations are within bounds and not all equal, \<^verbatim>\<open>sortCPU\<close> returns each
  processor once, in ascending or descending order of utilization.\<close>

theorem sortCPU_sorts:
  assumes "\<forall>i\<in>{0, 1, 2, 3}. 0 \<le> cu i \<and> cu i \<le> UTIL_MULTIPLE"
    and "\<not> (cu 0 = cu 1 \<and> cu 1 = cu 2 \<and> cu 2 = cu 3)"
  shows "\<exists>xs. sortCPU cu Asced = Inr xs \<and> mset xs = {#0, 1, 2, 3#} \<and>
    sorted (map cu (if Asced = 1 then xs else rev xs))"
  using assms by (intro sortCPU_distinct) auto

theorem sortCPU_sorts_witness:
  "\<exists>xs. sortCPU (\<lambda>c. 100 * ((c + 2) mod 4)) 1 = Inr xs \<and> mset xs = {#0, 1, 2, 3#} \<and>
     sorted (map (\<lambda>c. 100 * ((c + 2) mod 4)) xs)"
  using sortCPU_sorts [of "\<lambda>c. 100 * ((c + 2) mod 4)" 1] by (simp add: UTIL_MULTIPLE_def)

text \<open>When the four utilizations are equal, as they are before the first reservation,
  \<^verbatim>\<open>sortCPU\<close> returns processor 0 twice and never processor 2.\<close>

lemma sortCPU_ties:
  assumes "0 \<le> u" "u \<le> UTIL_MULTIPLE" "\<forall>i\<in>{0, 1, 2, 3}. cu i = u"
  shows "sortCPU cu Asced = Inr (if Asced = 1 then [0, 1, 3, 0] else [0, 3, 1, 0])"
  using assms by (intro sortCPU_same [of u]) auto

definition ub_pair_state :: kst where
  "ub_pair_state = (set_params 1 4142 10000 4142 (set_params 2 5859 14142 4142 (boot_state [1, 2])))
     \<lparr>cpu_tasks := (\<lambda>_ _. 1), cpu_tasks_length := (\<lambda>_. 1), cpu_util := (\<lambda>_. 4142)\<rparr>"

text \<open>C17. The table of utilization bounds is rounded up and utilizations are rounded down, so the
  test of two tasks admits a pair that misses a deadline: budgets of 4142 and 5859 ms in periods of
  10000 and 14142 ms.\<close>

theorem ub_test_admits_miss:
  "bin_ok ub_pair_state 0 \<and> task_ok (reserve ub_pair_state 2) \<and>
   (5859 * UTIL_MULTIPLE) div 14142 = r_util (reserve ub_pair_state 2) \<and>
   (\<exists>s'. try_bind ub_pair_state 2 0 = Inr (0, s') \<and> bin s' 0 = [1, 2] \<and>
      \<not> meets_deadline (task_params s' [1]) (nat (r_budget (reserve s' 2))) (nat (r_period (reserve s' 2))))"
proof -
  have h: "bin_ok ub_pair_state 0" "task_ok (reserve ub_pair_state 2)"
    "(5859 * UTIL_MULTIPLE) div 14142 = r_util (reserve ub_pair_state 2)" by code_simp+
  have "case try_bind ub_pair_state 2 0 of
      Inr (r, s') \<Rightarrow> r = 0 \<and> bin s' 0 = [1, 2] \<and>
        map (\<lambda>t. (r_budget (reserve s' t), r_period (reserve s' t))) [1, 2] = [(4142, 10000), (5859, 14142)]
    | Inl _ \<Rightarrow> False" by code_simp
  then obtain s' where s': "try_bind ub_pair_state 2 0 = Inr (0, s')" "bin s' 0 = [1, 2]"
    "map (\<lambda>t. (r_budget (reserve s' t), r_period (reserve s' t))) [1, 2] = [(4142, 10000), (5859, 14142)]"
    by (auto split: sum.splits)
  have "t < demand [(4142, 10000)] 5859 t" if "t \<le> 14142" for t
  proof (cases "t < 10000")
    case False
    with that have "t div 10000 = 1" "t mod 10000 = t - 10000"
      by (auto intro: div_nat_eqI simp: mod_if)
    with that False show ?thesis by (auto simp: demand_def ceil_div_def)
  qed (auto simp: demand_def ceil_div_def)
  then have "\<not> meets_deadline [(4142, 10000)] 5859 14142" by (fastforce simp: meets_deadline_def)
  with h s' show ?thesis by (auto simp: task_params_def)
qed

end
