(* ===== verification/Partition.thy ===== *)
theory Partition
  imports Admission
begin

text \<open>
  Choosing a processor for a reservation made without one (\<^verbatim>\<open>cpuid == -1\<close>), the two identical
  chains of loops of \<^verbatim>\<open>set_reserve\<close> in \<^verbatim>\<open>rtes/kernel/reserve.c\<close>: first fit (\<^verbatim>\<open>F\<close>), next fit
  (\<^verbatim>\<open>N\<close>), best fit (\<^verbatim>\<open>B\<close>), worst fit (\<^verbatim>\<open>W\<close>) and least utilization first (\<^verbatim>\<open>L\<close>).
  \<^item> The loops take the admission routine and the test for an open bin as arguments.
  \<^item> The locale \<open>admission_test\<close> states what a loop may rely on: a refused task leaves the bins as
    they were, an admitted one is in its bin. Inside it each loop is shown to be the choice function
    \<open>pick\<close>. It is interpreted on \<^verbatim>\<open>try_bind\<close>.
\<close>

section \<open>The code\<close>

text \<open>The loop of the policies \<^verbatim>\<open>F\<close>, \<^verbatim>\<open>B\<close> and \<^verbatim>\<open>W\<close>: bins are tried in order if they are open, the
  first closed one is remembered and tried after the last; the result is the pair \<^verbatim>\<open>retval\<close> and
  \<^verbatim>\<open>cpuid\<close>.\<close>

fun place_loop :: "('s \<Rightarrow> int \<Rightarrow> (int \<times> 's) res) \<Rightarrow> ('s \<Rightarrow> int \<Rightarrow> bool) \<Rightarrow> int list \<Rightarrow>
    int \<Rightarrow> int \<Rightarrow> int \<Rightarrow> 's \<Rightarrow> (int \<times> int \<times> 's) res" where
  "place_loop bind opened [] closed_bin retval cpuid s =
     (if closed_bin \<noteq> -1 then bindR (bind s closed_bin) (\<lambda>(r, s1). Inr (r, closed_bin, s1))
      else Inr (retval, cpuid, s))"
| "place_loop bind opened (c # cs) closed_bin retval cpuid s =
     (if opened s c then
        bindR (bind s c) (\<lambda>(r, s1).
          if r = 0 then Inr (0, c, s1) else place_loop bind opened cs closed_bin r cpuid s1)
      else place_loop bind opened cs (if closed_bin = -1 then c else closed_bin) retval cpuid s)"

text \<open>The loop of the policy \<^verbatim>\<open>N\<close>, which goes round from the static variable \<^verbatim>\<open>lastCpuID\<close>; the
  number counts the rounds left of \<^verbatim>\<open>for (j = 0; j < 4; j++)\<close>.\<close>

definition next_cpu :: "int \<Rightarrow> int" where
  "next_cpu lastCpuID = (if lastCpuID + 1 = 4 then 0 else lastCpuID + 1)"

fun nfd_loop :: "('s \<Rightarrow> int \<Rightarrow> (int \<times> 's) res) \<Rightarrow> ('s \<Rightarrow> int \<Rightarrow> bool) \<Rightarrow> nat \<Rightarrow> int \<Rightarrow>
    int \<Rightarrow> int \<Rightarrow> int \<Rightarrow> 's \<Rightarrow> (int \<times> int \<times> int \<times> 's) res" where
  "nfd_loop bind opened 0 lastCpuID closed_bin retval cpuid s =
     (if closed_bin \<noteq> -1
      then bindR (bind s closed_bin) (\<lambda>(r, s1). Inr (r, closed_bin, closed_bin, s1))
      else Inr (retval, cpuid, lastCpuID, s))"
| "nfd_loop bind opened (Suc k) lastCpuID closed_bin retval cpuid s =
     (if opened s lastCpuID then
        bindR (bind s lastCpuID) (\<lambda>(r, s1).
          if r = 0 then Inr (0, lastCpuID, lastCpuID, s1)
          else nfd_loop bind opened k (next_cpu lastCpuID) closed_bin r cpuid s1)
      else nfd_loop bind opened k (next_cpu lastCpuID)
             (if closed_bin = -1 then lastCpuID else closed_bin) retval cpuid s)"

text \<open>The loop of the policy \<^verbatim>\<open>L\<close>, which does not look at open bins.\<close>

fun lst_loop :: "('s \<Rightarrow> int \<Rightarrow> (int \<times> 's) res) \<Rightarrow> int list \<Rightarrow> int \<Rightarrow> int \<Rightarrow> 's \<Rightarrow>
    (int \<times> int \<times> 's) res" where
  "lst_loop bind [] retval cpuid s = Inr (retval, cpuid, s)"
| "lst_loop bind (c # cs) retval cpuid s =
     bindR (bind s c) (\<lambda>(r, s1). if r = 0 then Inr (0, c, s1) else lst_loop bind cs r cpuid s1)"

definition is_open :: "kst \<Rightarrow> int \<Rightarrow> bool" where
  "is_open s c \<longleftrightarrow> cpu_open s c \<noteq> 0"

definition try_bind_t :: "tptr \<Rightarrow> kst \<Rightarrow> int \<Rightarrow> (int \<times> kst) res" where
  "try_bind_t t s c = try_bind s t c"

definition policy_char :: "kst \<Rightarrow> char" where
  "policy_char s = hd (partition_policy s @ [CHR 0x00])"

text \<open>The chain of cases on \<^verbatim>\<open>partition_policy[0]\<close>, with \<^verbatim>\<open>retval\<close> 0 and \<^verbatim>\<open>cpuid\<close> -1 before it;
  the result is \<^verbatim>\<open>retval\<close>, \<^verbatim>\<open>cpuid\<close> and the new value of \<^verbatim>\<open>lastCpuID\<close>.\<close>

definition partition_bind :: "kst \<Rightarrow> tptr \<Rightarrow> int \<Rightarrow> (int \<times> int \<times> int \<times> kst) res" where
  "partition_bind s t lastCpuID =
     (let p = policy_char s; keep = (\<lambda>(r, c, s1). Inr (r, c, lastCpuID, s1)) in
      if p = CHR ''F'' then
        bindR (place_loop (try_bind_t t) is_open [0, 1, 2, 3] (-1) 0 (-1) s) keep
      else if p = CHR ''N'' then nfd_loop (try_bind_t t) is_open 4 lastCpuID (-1) 0 (-1) s
      else if p = CHR ''B'' then
        bindR (sortCPU (cpu_util s) 0) (\<lambda>ids.
          bindR (place_loop (try_bind_t t) is_open ids (-1) 0 (-1) s) keep)
      else if p = CHR ''W'' then
        bindR (sortCPU (cpu_util s) 1) (\<lambda>ids.
          bindR (place_loop (try_bind_t t) is_open ids (-1) 0 (-1) s) keep)
      else if p = CHR ''L'' then
        bindR (sortCPU (cpu_util s) 1) (\<lambda>ids.
          bindR (lst_loop (try_bind_t t) ids 0 (-1) s) keep)
      else Inr (0, -1, lastCpuID, s))"

section \<open>The choice the loops make\<close>

definition pick_from :: "(int \<Rightarrow> bool) \<Rightarrow> (int \<Rightarrow> bool) \<Rightarrow> int \<Rightarrow> int list \<Rightarrow> int option" where
  "pick_from opened adm closed_bin cs =
     (case List.find (\<lambda>c. opened c \<and> adm c) cs of
        Some c \<Rightarrow> Some c
      | None \<Rightarrow>
         (case (if closed_bin \<noteq> -1 then Some closed_bin else List.find (\<lambda>c. \<not> opened c) cs) of
            Some c \<Rightarrow> (if adm c then Some c else None)
          | None \<Rightarrow> None))"

definition pick :: "(int \<Rightarrow> bool) \<Rightarrow> (int \<Rightarrow> bool) \<Rightarrow> int list \<Rightarrow> int option" where
  "pick opened adm cs = pick_from opened adm (-1) cs"

lemma find_SomeD: "List.find P xs = Some x \<Longrightarrow> x \<in> set xs \<and> P x"
  by (induction xs) (auto split: if_splits)

lemma pick_from_Cons:
  "c \<noteq> -1 \<Longrightarrow> pick_from opened adm k (c # cs) =
     (if opened c then (if adm c then Some c else pick_from opened adm k cs)
      else pick_from opened adm (if k = -1 then c else k) cs)"
  by (auto simp: pick_from_def split: option.split)

text \<open>If every closed bin admits whenever one of them does, no bin that admits is missed.\<close>

lemma pick_complete:
  assumes "c \<in> set cs" "adm c"
    and "\<And>d e. d \<in> set cs \<Longrightarrow> e \<in> set cs \<Longrightarrow> \<not> opened d \<Longrightarrow> \<not> opened e \<Longrightarrow> adm d \<Longrightarrow> adm e"
  shows "\<exists>d. pick opened adm cs = Some d"
proof (cases "List.find (\<lambda>c. opened c \<and> adm c) cs")
  case None
  then have "\<not> opened c" using assms by (auto simp: find_None_iff)
  then obtain d where d: "List.find (\<lambda>c. \<not> opened c) cs = Some d"
    using assms(1) by (cases "List.find (\<lambda>c. \<not> opened c) cs") (auto simp: find_None_iff)
  then have "d \<in> set cs" "\<not> opened d" by (auto dest: find_SomeD)
  with assms \<open>\<not> opened c\<close> have "adm d" by blast
  with None d show ?thesis by (simp add: pick_def pick_from_def)
qed (simp add: pick_def pick_from_def)

lemma pick_sound: "pick opened adm cs = Some c \<Longrightarrow> c \<in> set cs \<and> adm c"
  by (auto simp: pick_def pick_from_def dest!: find_SomeD split: option.splits if_splits)

text \<open>In a list sorted by a key, the open bin chosen has the least key of those that admit.\<close>

lemma find_sorted_least:
  assumes "sorted (map f xs)" "List.find P xs = Some c" "d \<in> set xs" "P d"
  shows "f c \<le> f d"
  using assms by (induction xs) (auto split: if_splits)

lemma pick_least:
  assumes "sorted (map f cs)" "pick opened adm cs = Some c" "opened c" "d \<in> set cs" "opened d" "adm d"
  shows "f c \<le> f d"
proof (cases "List.find (\<lambda>c. opened c \<and> adm c) cs")
  case None
  then show ?thesis using assms by (auto simp: find_None_iff)
next
  case (Some e)
  with assms have "e = c" by (simp add: pick_def pick_from_def)
  with Some assms show ?thesis by (intro find_sorted_least [of f cs "\<lambda>c. opened c \<and> adm c"]) auto
qed

section \<open>The interface of the admission routine\<close>

locale admission_test =
  fixes bind :: "'s \<Rightarrow> int \<Rightarrow> (int \<times> 's) res"
    and opened :: "'s \<Rightarrow> int \<Rightarrow> bool"
    and adm :: "'s \<Rightarrow> int \<Rightarrow> bool"
    and good :: "'s \<Rightarrow> bool"
    and same :: "'s \<Rightarrow> 's \<Rightarrow> bool"
    and placed :: "'s \<Rightarrow> int \<Rightarrow> 's \<Rightarrow> bool"
    and cpus :: "int set"
  assumes bind_adm: "good s \<Longrightarrow> c \<in> cpus \<Longrightarrow> adm s c \<Longrightarrow> \<exists>s'. bind s c = Inr (0, s') \<and> placed s c s'"
    and bind_refuse: "good s \<Longrightarrow> c \<in> cpus \<Longrightarrow> \<not> adm s c \<Longrightarrow> \<exists>s'. bind s c = Inr (EBUSY, s') \<and> same s s'"
    and same_refl: "same s s"
    and same_trans: "same s s' \<Longrightarrow> same s' s'' \<Longrightarrow> same s s''"
    and same_good: "same s s' \<Longrightarrow> good s \<Longrightarrow> good s'"
    and same_adm: "same s s' \<Longrightarrow> c \<in> cpus \<Longrightarrow> adm s' c = adm s c"
    and same_opened: "same s s' \<Longrightarrow> opened s' c = opened s c"
    and same_placed: "same s s' \<Longrightarrow> placed s' c s'' \<Longrightarrow> placed s c s''"
    and cpus_id: "-1 \<notin> cpus"
begin

definition outcome :: "'s \<Rightarrow> int option \<Rightarrow> (int \<times> int \<times> 's) res \<Rightarrow> bool" where
  "outcome s ch r \<longleftrightarrow>
     (case ch of Some c \<Rightarrow> \<exists>s'. r = Inr (0, c, s') \<and> placed s c s'
      | None \<Rightarrow> \<exists>k s'. r = Inr (EBUSY, k, s') \<and> same s s')"

lemma outcome_same: "same s s1 \<Longrightarrow> outcome s1 ch r \<Longrightarrow> outcome s ch r"
  by (auto simp: outcome_def split: option.splits intro: same_trans same_placed)

lemma pick_from_same:
  assumes "same s s1" "set cs \<subseteq> cpus" "k = -1 \<or> k \<in> cpus"
  shows "pick_from (opened s1) (adm s1) k cs = pick_from (opened s) (adm s) k cs"
proof -
  have "List.find (\<lambda>c. opened s1 c \<and> adm s1 c) cs = List.find (\<lambda>c. opened s c \<and> adm s c) cs"
    using assms by (intro find_cong) (auto simp: same_opened same_adm)
  moreover have "List.find (\<lambda>c. \<not> opened s1 c) cs = List.find (\<lambda>c. \<not> opened s c) cs"
    using assms by (intro find_cong) (auto simp: same_opened)
  ultimately show ?thesis
    using assms(2,3) same_adm [OF assms(1)]
    by (auto simp: pick_from_def split: option.split dest!: find_SomeD)
qed

lemma place_loop_from:
  assumes "good s" "set cs \<subseteq> cpus" "k = -1 \<or> k \<in> cpus" "retval = EBUSY \<or> k \<noteq> -1 \<or> cs \<noteq> []"
  shows "outcome s (pick_from (opened s) (adm s) k cs) (place_loop bind opened cs k retval cpuid s)"
  using assms
proof (induction cs arbitrary: s k retval)
  case Nil
  then show ?case
    using bind_adm [of s k] bind_refuse [of s k] same_refl
    by (auto simp: outcome_def pick_from_def)
next
  case (Cons c cs)
  then have c: "c \<in> cpus" "c \<noteq> -1" using cpus_id by auto
  show ?case
  proof (cases "opened s c")
    case False
    with Cons.IH [of s "if k = -1 then c else k" retval] Cons.prems c show ?thesis
      by (auto simp: pick_from_Cons split: if_splits)
  next
    case op: True
    show ?thesis
    proof (cases "adm s c")
      case True
      then show ?thesis
        using op c bind_adm [of s c] Cons.prems by (auto simp: outcome_def pick_from_Cons)
    next
      case False
      then obtain s1 where s1: "bind s c = Inr (EBUSY, s1)" "same s s1"
        using bind_refuse Cons.prems c by blast
      then have "outcome s1 (pick_from (opened s1) (adm s1) k cs) (place_loop bind opened cs k EBUSY cpuid s1)"
        using Cons.prems same_good by (intro Cons.IH) auto
      then show ?thesis
        using s1 op False c Cons.prems pick_from_same [OF s1(2), of cs k] outcome_same [OF s1(2)]
        by (simp add: pick_from_Cons errno_defs)
    qed
  qed
qed

lemma place_loop_pick:
  assumes "good s" "set cs \<subseteq> cpus" "cs \<noteq> []"
  shows "outcome s (pick (opened s) (adm s) cs) (place_loop bind opened cs (-1) retval cpuid s)"
  unfolding pick_def using assms by (intro place_loop_from) auto

text \<open>The policy \<^verbatim>\<open>L\<close> is the same loop for which every bin counts as open.\<close>

lemma lst_loop_place_loop:
  "lst_loop bind cs retval cpuid s = place_loop bind (\<lambda>_ _. True) cs (-1) retval cpuid s"
  by (induction cs arbitrary: s retval)
    (simp_all cong: if_cong)

lemma all_open: "admission_test bind (\<lambda>_ _. True) adm good same placed cpus"
  using bind_adm bind_refuse same_refl same_trans same_good same_adm same_placed cpus_id
  by unfold_locales blast+

lemma lst_loop_pick:
  assumes "good s" "set cs \<subseteq> cpus" "cs \<noteq> []"
  shows "outcome s (pick (\<lambda>_. True) (adm s) cs) (lst_loop bind cs retval cpuid s)"
  unfolding lst_loop_place_loop by (rule admission_test.place_loop_pick [OF all_open assms])

end

text \<open>Next fit is first fit on the processors in the order it goes round.\<close>

fun round_from :: "nat \<Rightarrow> int \<Rightarrow> int list" where
  "round_from 0 l = []"
| "round_from (Suc k) l = l # round_from k (next_cpu l)"

lemma nfd_loop_place_loop:
  "bindR (nfd_loop bind opened k l closed_bin retval cpuid s) (\<lambda>(r, c, l', s'). Inr (r, c, s')) =
   place_loop bind opened (round_from k l) closed_bin retval cpuid s"
  by (induction k arbitrary: l closed_bin retval s)
    (auto simp: bindR_def split: sum.split prod.split)

lemma nfd_loop_last:
  assumes "nfd_loop bind opened k l closed_bin retval cpuid s = Inr (r, c, l', s')"
    and "0 \<le> l" "l \<le> 3" "closed_bin = -1 \<or> 0 \<le> closed_bin \<and> closed_bin \<le> 3"
    and "retval \<noteq> 0 \<or> k \<noteq> 0 \<or> closed_bin \<noteq> -1"
  shows "0 \<le> l' \<and> l' \<le> 3 \<and> (r = 0 \<longrightarrow> l' = c)"
  using assms
proof (induction k arbitrary: l closed_bin retval s)
  case (Suc k)
  have nx: "0 \<le> next_cpu l" "next_cpu l \<le> 3" using Suc.prems by (auto simp: next_cpu_def)
  show ?case
  proof (cases "opened s l")
    case False
    with Suc.prems have *: "nfd_loop bind opened k (next_cpu l)
        (if closed_bin = -1 then l else closed_bin) retval cpuid s = Inr (r, c, l', s')"
      by simp
    show ?thesis by (rule Suc.IH [OF * nx]) (use Suc.prems in auto)
  next
    case True
    with Suc.prems(1) obtain r1 s1 where b: "bind s l = Inr (r1, s1)"
      "(if r1 = 0 then Inr (0, l, l, s1)
        else nfd_loop bind opened k (next_cpu l) closed_bin r1 cpuid s1) = Inr (r, c, l', s')"
      by (auto elim: bindR_InrE)
    show ?thesis
    proof (cases "r1 = 0")
      case False
      then have *: "nfd_loop bind opened k (next_cpu l) closed_bin r1 cpuid s1 = Inr (r, c, l', s')"
        using b by simp
      show ?thesis by (rule Suc.IH [OF * nx]) (use Suc.prems False in auto)
    qed (use b Suc.prems in auto)
  qed
qed (auto split: if_splits elim: bindR_InrE)

lemma set_round_from:
  assumes "0 \<le> l" "l \<le> 3"
  shows "set (round_from 4 l) = {0..3}"
proof -
  have "round_from 4 l = [l, next_cpu l, next_cpu (next_cpu l), next_cpu (next_cpu (next_cpu l))]"
    by (simp add: numeral_eq_Suc)
  moreover have "{0..3} = {0, 1, 2, 3 :: int}" by auto
  moreover have "l = 0 \<or> l = 1 \<or> l = 2 \<or> l = 3" using assms by auto
  then have "{l, next_cpu l, next_cpu (next_cpu l), next_cpu (next_cpu (next_cpu l))} = {0, 1, 2, 3}"
    by (elim disjE) (simp_all add: next_cpu_def insert_commute)
  ultimately show ?thesis by simp
qed

section \<open>The admission routine of the code\<close>

definition all_bins_ok :: "kst \<Rightarrow> bool" where
  "all_bins_ok s \<longleftrightarrow> (\<forall>c\<in>{0..3}. bin_ok s c)"

lemma all_bins_ok_code [code]:
  "all_bins_ok s \<longleftrightarrow> bin_ok s 0 \<and> bin_ok s 1 \<and> bin_ok s 2 \<and> bin_ok s 3"
  by (simp add: all_bins_ok_def ball_four)

definition same_bins :: "kst \<Rightarrow> kst \<Rightarrow> bool" where
  "same_bins s s' \<longleftrightarrow> (\<exists>a. s' = s\<lparr>cpu_tasks := a\<rparr>) \<and> (\<forall>c\<in>{0..3}. bin s' c = bin s c)"

definition placed_in :: "tptr \<Rightarrow> kst \<Rightarrow> int \<Rightarrow> kst \<Rightarrow> bool" where
  "placed_in t s c s' \<longleftrightarrow> (\<exists>s1. same_bins s s1 \<and> bound s1 t c s')"

lemma reserve_cpu_tasks [simp]: "reserve (s\<lparr>cpu_tasks := a\<rparr>) = reserve s"
  by (rule ext) (simp add: reserve_def)

lemma same_bins_refl: "same_bins s s"
proof -
  have "s = s\<lparr>cpu_tasks := cpu_tasks s\<rparr>" by simp
  then show ?thesis unfolding same_bins_def by blast
qed

lemma same_bins_trans:
  assumes "same_bins s s'" "same_bins s' s''"
  shows "same_bins s s''"
proof -
  obtain a b where ab: "s' = s\<lparr>cpu_tasks := a\<rparr>" "s'' = s'\<lparr>cpu_tasks := b\<rparr>"
    using assms by (auto simp: same_bins_def)
  have "s'' = s\<lparr>cpu_tasks := b\<rparr>" unfolding ab by simp
  then show ?thesis using assms by (auto simp: same_bins_def)
qed

lemma same_bins_frame:
  assumes "same_bins s s'"
  shows "reserve s' = reserve s" "cpu_util s' = cpu_util s" "cpu_tasks_length s' = cpu_tasks_length s"
    "cpu_open s' = cpu_open s" "threads s' = threads s" "task s' = task s" "cpu_online s' = cpu_online s"
    "c \<in> {0..3} \<Longrightarrow> bin s' c = bin s c"
  using assms by (auto simp: same_bins_def)

lemma admits_cong:
  assumes "reserve s' = reserve s" "bin s' c = bin s c"
  shows "admits s' t c = admits s t c"
  using assms by (simp add: admits_def util_sum_def admissible_def insert_by_period_def task_params_def)

lemma untouched_same_bins:
  assumes "untouched s c s'"
  shows "same_bins s s'"
proof -
  obtain a n u where s': "s' = set_bin c a n u s" using assms by (auto simp: untouched_def bin_frame_def)
  with assms have "n = cpu_tasks_length s c" "u = cpu_util s c" by (simp_all add: untouched_def)
  with s' have "s' = s\<lparr>cpu_tasks := (cpu_tasks s)(c := a)\<rparr>" by (simp add: set_bin_def)
  moreover have "bin s' d = bin s d" for d
    using assms bin_frame_other(1) [of c s s' d] by (cases "d = c") (auto simp: untouched_def)
  ultimately show ?thesis by (auto simp: same_bins_def)
qed

lemma same_bins_bin_ok: "same_bins s s' \<Longrightarrow> c \<in> {0..3} \<Longrightarrow> bin_ok s' c = bin_ok s c"
  by (intro bin_ok_cong) (simp_all add: same_bins_frame [of s s'])

lemma same_bins_ok: "same_bins s s' \<Longrightarrow> all_bins_ok s' = all_bins_ok s"
  unfolding all_bins_ok_def by (intro ball_cong refl same_bins_bin_ok)

interpretation tb: admission_test "try_bind_t t" is_open "\<lambda>s. admits s t"
  "\<lambda>s. all_bins_ok s \<and> task_ok (reserve s t)" same_bins "placed_in t" "{0..3}" for t
proof (unfold_locales, goal_cases)
  case (1 s c)
  then have "0 \<le> c" "c \<le> 3" "bin_ok s c" by (simp_all add: all_bins_ok_def)
  from try_bind_spec [OF this, of t] obtain s' where "try_bind s t c = Inr (0, s')" "bound s t c s'"
    using 1 by (simp split: if_splits) blast
  then show ?case unfolding try_bind_t_def placed_in_def using same_bins_refl by blast
next
  case (2 s c)
  then have "0 \<le> c" "c \<le> 3" "bin_ok s c" by (simp_all add: all_bins_ok_def)
  from try_bind_spec [OF this, of t] obtain s' where "try_bind s t c = Inr (EBUSY, s')" "untouched s c s'"
    using 2 by (simp split: if_splits) blast
  then show ?case unfolding try_bind_t_def using untouched_same_bins by blast
next
  case (4 s s' s'')
  then show ?case by (rule same_bins_trans)
next
  case (6 s s' c)
  then show ?case by (intro admits_cong same_bins_frame)
next
  case (8 s s' c s'')
  then show ?case unfolding placed_in_def by (blast intro: same_bins_trans)
next
  case (5 s s')
  then show ?case by (simp add: same_bins_ok same_bins_frame(1) [of s s'])
next
  case (7 s s' c)
  then show ?case by (simp add: is_open_def same_bins_frame(4) [of s s'])
qed (simp_all add: same_bins_refl)

lemma placed_in_frame:
  assumes "placed_in t s c s'" "c \<in> {0..3}"
  shows "bin s' c = insert_by_period s t (bin s c)" "d \<in> {0..3} \<Longrightarrow> d \<noteq> c \<Longrightarrow> bin s' d = bin s d"
    "cpu_util s' = (cpu_util s)(c := cpu_util s c + r_util (reserve s t))"
    "cpu_tasks_length s' = (cpu_tasks_length s)(c := cpu_tasks_length s c + 1)"
    "\<exists>a n u. s' = s\<lparr>cpu_tasks := a, cpu_tasks_length := n, cpu_util := u\<rparr>"
proof -
  obtain s1 where s1: "same_bins s s1" "bound s1 t c s'" using assms by (auto simp: placed_in_def)
  then obtain a where a: "s1 = s\<lparr>cpu_tasks := a\<rparr>" by (auto simp: same_bins_def)
  obtain b n u where b: "s' = set_bin c b n u s1" using s1 by (auto simp: bound_def bin_frame_def)
  show "bin s' c = insert_by_period s t (bin s c)"
    using s1 same_bins_frame(1,8) [OF s1(1)] assms(2) by (simp add: bound_def insert_by_period_def)
  show "bin s' d = bin s d" if "d \<in> {0..3}" "d \<noteq> c"
    using that b same_bins_frame(8) [OF s1(1)] by simp
  show "cpu_util s' = (cpu_util s)(c := cpu_util s c + r_util (reserve s t))"
    "cpu_tasks_length s' = (cpu_tasks_length s)(c := cpu_tasks_length s c + 1)"
    using s1(2) unfolding bound_def a b by (simp_all add: set_bin_def)
  show "\<exists>a n u. s' = s\<lparr>cpu_tasks := a, cpu_tasks_length := n, cpu_util := u\<rparr>"
    unfolding a b set_bin_def by auto
qed

lemma placed_in_ok:
  assumes "placed_in t s c s'" "c \<in> {0..3}" "all_bins_ok s" "task_ok (reserve s t)" "t \<notin> set (bin s c)"
    "admits s t c"
  shows "all_bins_ok s'"
  unfolding all_bins_ok_def
proof
  fix d :: int assume d: "d \<in> {0..3}"
  obtain s1 where s1: "same_bins s s1" "bound s1 t c s'" using assms by (auto simp: placed_in_def)
  have ok1: "bin_ok s1 d" "bin_ok s1 c" using d assms s1 by (auto simp: all_bins_ok_def same_bins_bin_ok)
  show "bin_ok s' d"
  proof (cases "d = c")
    case True
    show ?thesis unfolding True
      using assms same_bins_frame(1,8) [OF s1(1)] ok1(2) admits_cong [of s1 s c t]
      by (intro bound_bin_ok [OF s1(2)]) simp_all
  next
    case False
    have fr: "bin_frame c s1 s'" using s1 by (simp add: bound_def)
    have "bin_ok s' d \<longleftrightarrow> bin_ok s1 d"
      using bin_frame_other [OF fr] False by (intro bin_ok_cong) auto
    with ok1 show ?thesis by simp
  qed
qed

text \<open>The four utilizations stay in the range \<^verbatim>\<open>sortCPU\<close> expects.\<close>

lemma cpu_util_range:
  assumes "all_bins_ok s" "c \<in> {0..3}"
  shows "0 \<le> cpu_util s c \<and> cpu_util s c \<le> UTIL_MULTIPLE"
proof -
  have "bin_ok s c" using assms by (simp add: all_bins_ok_def)
  moreover from this have "0 \<le> util_sum s (bin s c)"
    unfolding util_sum_def by (intro sum_list_nonneg) (auto simp: bin_ok_def task_ok_def)
  ultimately show ?thesis by (simp add: bin_ok_def)
qed

lemma sortCPU_total:
  assumes "all_bins_ok s"
  shows "\<exists>ids. sortCPU (cpu_util s) Asced = Inr ids \<and> set ids \<subseteq> {0..3} \<and> ids \<noteq> []"
proof (cases "cpu_util s 0 = cpu_util s 1 \<and> cpu_util s 1 = cpu_util s 2 \<and> cpu_util s 2 = cpu_util s 3")
  case True
  with cpu_util_range [OF assms, of 0] show ?thesis
    by (subst sortCPU_same [of "cpu_util s 0"]) auto
next
  case False
  then obtain ids where ids: "sortCPU (cpu_util s) Asced = Inr ids" "mset ids = {#0, 1, 2, 3#}"
    using sortCPU_distinct [of "cpu_util s" Asced] cpu_util_range [OF assms] by fastforce
  have "set ids = {0, 1, 2, 3}" using arg_cong [OF ids(2), of set_mset] by simp
  with ids show ?thesis by (auto intro!: exI [of _ ids])
qed

section \<open>The policies\<close>

text \<open>The order in which a policy looks at the processors, and the processor it takes.\<close>

definition policy_order :: "kst \<Rightarrow> int \<Rightarrow> int list" where
  "policy_order s lastCpuID =
     (let p = policy_char s; ids = (\<lambda>r. case r of Inr ids \<Rightarrow> ids | Inl _ \<Rightarrow> []) in
      if p = CHR ''F'' then [0, 1, 2, 3]
      else if p = CHR ''N'' then round_from 4 lastCpuID
      else if p = CHR ''B'' then ids (sortCPU (cpu_util s) 0)
      else ids (sortCPU (cpu_util s) 1))"

definition policy_choice :: "kst \<Rightarrow> tptr \<Rightarrow> int \<Rightarrow> int option" where
  "policy_choice s t lastCpuID =
     pick (if policy_char s = CHR ''L'' then (\<lambda>_. True) else is_open s) (admits s t)
       (policy_order s lastCpuID)"

definition known_policy :: "kst \<Rightarrow> bool" where
  "known_policy s \<longleftrightarrow> policy_char s \<in> {CHR ''F'', CHR ''N'', CHR ''B'', CHR ''W'', CHR ''L''}"

definition partition_outcome :: "kst \<Rightarrow> tptr \<Rightarrow> int option \<Rightarrow> (int \<times> int \<times> int \<times> kst) res \<Rightarrow> bool" where
  "partition_outcome s t ch r \<longleftrightarrow>
     (case ch of
        Some c \<Rightarrow> \<exists>l s'. r = Inr (0, c, l, s') \<and> placed_in t s c s' \<and> 0 \<le> l \<and> l \<le> 3
      | None \<Rightarrow> \<exists>k l s'. r = Inr (EBUSY, k, l, s') \<and> same_bins s s' \<and> 0 \<le> l \<and> l \<le> 3)"

lemma policy_order_set:
  assumes "all_bins_ok s" "0 \<le> l" "l \<le> 3"
  shows "set (policy_order s l) \<subseteq> {0..3} \<and> policy_order s l \<noteq> []"
proof -
  obtain i0 i1 where "sortCPU (cpu_util s) 0 = Inr i0" "set i0 \<subseteq> {0..3}" "i0 \<noteq> []"
    "sortCPU (cpu_util s) 1 = Inr i1" "set i1 \<subseteq> {0..3}" "i1 \<noteq> []"
    using sortCPU_total [OF assms(1)] by metis
  moreover have "set (round_from 4 l) \<subseteq> {0..3} \<and> round_from 4 l \<noteq> []"
    using set_round_from [OF assms(2,3)] by auto
  ultimately show ?thesis by (simp add: policy_order_def Let_def)
qed

lemma outcome_keep:
  assumes "tb.outcome t s ch r" "0 \<le> l" "l \<le> 3"
  shows "partition_outcome s t ch (bindR r (\<lambda>(r, c, s1). Inr (r, c, l, s1)))"
  using assms by (auto simp: partition_outcome_def tb.outcome_def split: option.splits)

lemma nfd_outcome:
  assumes ok: "all_bins_ok s" "task_ok (reserve s t)" and l: "0 \<le> l" "l \<le> 3"
  shows "partition_outcome s t (pick (is_open s) (admits s t) (round_from 4 l))
    (nfd_loop (try_bind_t t) is_open 4 l (-1) 0 (-1) s)" (is "partition_outcome s t ?ch ?r")
proof -
  have "set (round_from 4 l) \<subseteq> {0..3}" "round_from 4 l \<noteq> []"
    using set_round_from [OF l] by auto
  with ok have "tb.outcome t s ?ch (place_loop (try_bind_t t) is_open (round_from 4 l) (-1) 0 (-1) s)"
    by (intro tb.place_loop_pick) auto
  then have out: "tb.outcome t s ?ch (bindR ?r (\<lambda>(r, c, l', s'). Inr (r, c, s')))"
    unfolding nfd_loop_place_loop .
  then obtain r c l' s' where r: "?r = Inr (r, c, l', s')"
    by (cases ?r) (auto simp: tb.outcome_def split: option.splits)
  have "0 \<le> l' \<and> l' \<le> 3" using nfd_loop_last [OF r l] by simp
  with out r show ?thesis
    by (auto simp: partition_outcome_def tb.outcome_def split: option.splits)
qed

lemma partition_bind_spec:
  assumes ok: "all_bins_ok s" "task_ok (reserve s t)" and pol: "known_policy s"
    and l: "0 \<le> l" "l \<le> 3"
  shows "partition_outcome s t (policy_choice s t l) (partition_bind s t l)"
proof -
  obtain i0 i1 where i0: "sortCPU (cpu_util s) 0 = Inr i0" "set i0 \<subseteq> {0..3}" "i0 \<noteq> []"
    and i1: "sortCPU (cpu_util s) 1 = Inr i1" "set i1 \<subseteq> {0..3}" "i1 \<noteq> []"
    using sortCPU_total [OF ok(1)] by metis
  have pl: "partition_outcome s t (pick (is_open s) (admits s t) ids)
      (bindR (place_loop (try_bind_t t) is_open ids (-1) 0 (-1) s) (\<lambda>(r, c, s1). Inr (r, c, l, s1)))"
    if "set ids \<subseteq> {0..3}" "ids \<noteq> []" for ids
    using that ok l by (intro outcome_keep tb.place_loop_pick) auto
  have ll: "partition_outcome s t (pick (\<lambda>_. True) (admits s t) i1)
      (bindR (lst_loop (try_bind_t t) i1 0 (-1) s) (\<lambda>(r, c, s1). Inr (r, c, l, s1)))"
    using i1 ok l by (intro outcome_keep tb.lst_loop_pick) auto
  have f: "set [0, 1, 2, 3] \<subseteq> {0..3 :: int}" by simp
  consider "policy_char s = CHR ''F''" | "policy_char s = CHR ''N''" | "policy_char s = CHR ''B''"
    | "policy_char s = CHR ''W''" | "policy_char s = CHR ''L''"
    using pol unfolding known_policy_def by blast
  then show ?thesis
  proof cases
    case 1
    with pl [OF f] show ?thesis
      by (simp add: partition_bind_def policy_choice_def policy_order_def Let_def del: place_loop.simps)
  next
    case 2
    with nfd_outcome [OF ok l] show ?thesis
      by (simp add: partition_bind_def policy_choice_def policy_order_def Let_def)
  next
    case 3
    with pl [OF i0(2,3)] i0(1) show ?thesis
      by (simp add: partition_bind_def policy_choice_def policy_order_def Let_def)
  next
    case 4
    with pl [OF i1(2,3)] i1(1) show ?thesis
      by (simp add: partition_bind_def policy_choice_def policy_order_def Let_def)
  next
    case 5
    with ll i1(1) show ?thesis
      by (simp add: partition_bind_def policy_choice_def policy_order_def Let_def)
  qed
qed
section \<open>Properties\<close>

text \<open>C4. With any of the five policies and arrays in order, choosing a processor always returns. If
  the policy has a choice, the task is in the array of exactly that processor, in order of period, and
  all arrays are still in order; otherwise \<^verbatim>\<open>EBUSY\<close> is returned and the arrays hold the same tasks.\<close>

theorem partition_bind_places:
  assumes "all_bins_ok s" "task_ok (reserve s t)" "known_policy s" "0 \<le> l" "l \<le> 3"
    and "\<forall>c\<in>{0..3}. t \<notin> set (bin s c)"
  shows "case policy_choice s t l of
      Some c \<Rightarrow> c \<in> {0..3} \<and> admits s t c \<and> (\<exists>l' s'. partition_bind s t l = Inr (0, c, l', s') \<and>
        (\<forall>d\<in>{0..3}. bin s' d = (if d = c then insert_by_period s t (bin s c) else bin s d)) \<and> all_bins_ok s')
    | None \<Rightarrow> (\<exists>k l' s'. partition_bind s t l = Inr (EBUSY, k, l', s') \<and>
        (\<forall>d\<in>{0..3}. bin s' d = bin s d) \<and> all_bins_ok s')"
proof (cases "policy_choice s t l")
  case None
  with partition_bind_spec [OF assms(1-5)] show ?thesis
    using assms(1) by (fastforce simp: partition_outcome_def same_bins_ok dest: same_bins_frame(8))
next
  case (Some c)
  then have "c \<in> set (policy_order s l) \<and> admits s t c"
    unfolding policy_choice_def by (rule pick_sound)
  then have c: "c \<in> {0..3}" "admits s t c" using policy_order_set [OF assms(1,4,5)] by blast+
  from partition_bind_spec [OF assms(1-5)] Some obtain l' s' where
    s': "partition_bind s t l = Inr (0, c, l', s')" "placed_in t s c s'"
    by (auto simp: partition_outcome_def)
  have "all_bins_ok s'" using s' c assms by (intro placed_in_ok [OF s'(2)]) auto
  with Some s' c placed_in_frame(1,2) [OF s'(2) c(1)] show ?thesis by auto
qed

theorem partition_bind_places_witness:
  "all_bins_ok one_task_state \<and> task_ok (reserve one_task_state 7) \<and> known_policy one_task_state \<and>
   (\<exists>l' s'. partition_bind one_task_state 7 0 = Inr (0, 0, l', s') \<and> all_bins_ok s' \<and>
      bin s' 0 = insert_by_period one_task_state 7 [])"
proof -
  have h: "all_bins_ok one_task_state" "task_ok (reserve one_task_state 7)" "known_policy one_task_state"
    and e: "bin one_task_state 0 = []" "bin one_task_state 1 = []" "bin one_task_state 2 = []"
      "bin one_task_state 3 = []"
    and r: "case partition_bind one_task_state 7 0 of Inr (r, c, _) \<Rightarrow> r = 0 \<and> c = 0 | Inl _ \<Rightarrow> False"
    by code_simp+
  have "\<forall>c\<in>{0..3}. 7 \<notin> set (bin one_task_state c)" unfolding ball_four e by simp
  from partition_bind_places [OF h _ _ this, of 0] r h e show ?thesis
    by (auto simp: ball_four errno_defs split: option.splits)
qed




definition two_open_state :: kst where
  "two_open_state = (set_params 1 50 100 5000 (set_params 2 20 100 2000 (set_params 5 15 150 1000
     (boot_state [1, 2, 5]))))
     \<lparr>cpu_tasks := (\<lambda>c _. if c = 0 then 1 else 2), cpu_tasks_length := (\<lambda>c. if c < 2 then 1 else 0),
      cpu_util := (\<lambda>c. if c = 0 then 5000 else if c = 1 then 2000 else 0),
      cpu_open := (\<lambda>c. if c < 2 then 1 else 0), partition_policy := ''BFD''\<rparr>"


definition tie_state :: kst where
  "tie_state = (set_params 1 50 100 5000 (set_params 2 50 100 5000 (set_params 3 75 150 5000
     (set_params 4 50 100 5000 (set_params 5 75 150 5000 (boot_state [1, 2, 3, 4, 5]))))))
     \<lparr>cpu_tasks := (\<lambda>c _. if c = 0 then 1 else if c = 1 then 2 else if c = 2 then 3 else 4),
      cpu_tasks_length := (\<lambda>_. 1), cpu_util := (\<lambda>_. 5000), cpu_open := (\<lambda>_. 1),
      partition_policy := ''WFD''\<rparr>"

text \<open>With equal utilizations worst fit refuses a task that processor 2 would admit.\<close>

lemma worst_fit_misses_cpu2:
  "all_bins_ok tie_state \<and> task_ok (reserve tie_state 5) \<and>
   (\<exists>k l s'. partition_bind tie_state 5 0 = Inr (EBUSY, k, l, s')) \<and>
   (\<exists>s'. try_bind tie_state 5 2 = Inr (0, s') \<and> bin s' 2 = [3, 5])"
proof -
  have "all_bins_ok tie_state" "task_ok (reserve tie_state 5)"
    "case partition_bind tie_state 5 0 of Inr (r, _) \<Rightarrow> r = EBUSY | Inl _ \<Rightarrow> False"
    "case try_bind tie_state 5 2 of Inr (r, s') \<Rightarrow> r = 0 \<and> bin s' 2 = [3, 5] | Inl _ \<Rightarrow> False"
    by code_simp+
  then show ?thesis by (auto split: sum.splits)
qed

end
