(* ===== verification/Sysclock.thy ===== *)
theory Sysclock
  imports Partition
begin

text \<open>
  The system clock of \<^verbatim>\<open>rtes/kernel/sysclock.c\<close>, which lowers the common frequency of the
  processors as far as the reservations allow, and its cpufreq governor
  \<^verbatim>\<open>drivers/cpufreq/cpufreq_sysclock.c\<close>.
  \<^item> The code section has one definition per loop; the loop over the multiples of a period is a
    \<^verbatim>\<open>partial_function\<close>, since its product can wrap.
  \<^item> The exchange sort is shown to sort, the loops to compute the least scale over all scheduling
    points, and the result to be the least frequency up to rounding.
\<close>

section \<open>The code\<close>

definition MAX_TASK :: nat where "MAX_TASK = 100"
definition SCALE_FACTOR :: int where "SCALE_FACTOR = 100000"
definition SYSCLOCK_MAX_FREQ :: int where "SYSCLOCK_MAX_FREQ = 1200"
definition SYSCLOCK_FREQ_FACTOR :: int where "SYSCLOCK_FREQ_FACTOR = 1000"

lemmas sysclock_consts = SCALE_FACTOR_def SYSCLOCK_MAX_FREQ_def SYSCLOCK_FREQ_FACTOR_def

record sysclock_entry =
  se_C :: int
  se_T :: int

definition ts_millis :: "timespec \<Rightarrow> int" where
  "ts_millis ts = u32 (s32 (tv_nsec ts sdiv NS_PER_MILLI_S + s32 (tv_sec ts * MILLI_S_PER_S)))"

text \<open>The reserved thread group leaders of a processor; the array has room for 100.\<close>

fun collect :: "kst \<Rightarrow> int \<Rightarrow> tptr list \<Rightarrow> sysclock_entry list \<Rightarrow> sysclock_entry list res" where
  "collect s cpu [] t_list = Inr t_list"
| "collect s cpu (t # ts) t_list =
     (if r_flag (reserve s t) \<noteq> 0 \<and> r_cpu (reserve s t) = cpu then
        (if MAX_TASK \<le> length t_list then Inl OutOfBounds
         else collect s cpu ts
           (t_list @ [\<lparr>se_C = ts_millis (r_C (reserve s t)), se_T = ts_millis (r_T (reserve s t))\<rparr>]))
      else collect s cpu ts t_list)"

definition swap_if :: "nat \<Rightarrow> nat \<Rightarrow> sysclock_entry list \<Rightarrow> sysclock_entry list" where
  "swap_if i j l = (if se_T (l ! i) > se_T (l ! j) then l[i := l ! j, j := l ! i] else l)"

definition sort_T :: "sysclock_entry list \<Rightarrow> sysclock_entry list" where
  "sort_T l = fold (\<lambda>i. fold (swap_if i) [Suc i..<length l]) [0..<length l] l"

text \<open>The demand at the time \<^verbatim>\<open>t_sum\<close>, in \<^verbatim>\<open>unsigned long\<close>.\<close>

fun c_sum_loop :: "int \<Rightarrow> sysclock_entry list \<Rightarrow> int \<Rightarrow> int res" where
  "c_sum_loop t_sum [] c_sum = Inr c_sum"
| "c_sum_loop t_sum (e # es) c_sum =
     (if se_T e = 0 then Inl DivByZero
      else c_sum_loop t_sum es (u32 (c_sum +
             u32 (u32 (t_sum div se_T e + (if t_sum mod se_T e \<noteq> 0 then 1 else 0)) * se_C e))))"

definition new_scale :: "sysclock_entry list \<Rightarrow> int \<Rightarrow> int res" where
  "new_scale es t_sum = bindR (c_sum_loop t_sum es 0) (\<lambda>c_sum.
     if t_sum = 0 then Inl DivByZero else Inr (u32 (SCALE_FACTOR * c_sum) div t_sum))"

text \<open>\<^verbatim>\<open>for (n = 1; n*t_list[j].T <= t_list[i].T; n++)\<close>.\<close>

partial_function (option) point_loop ::
  "sysclock_entry list \<Rightarrow> int \<Rightarrow> int \<Rightarrow> int \<Rightarrow> int \<Rightarrow> int res option" where
  "point_loop es Tj Ti n tmp_scale =
     (if u32 (n * Tj) \<le> Ti then
        (case new_scale es (u32 (n * Tj)) of
           Inl e \<Rightarrow> Some (Inl e)
         | Inr q \<Rightarrow> point_loop es Tj Ti (s32 (n + 1)) (if q < tmp_scale then q else tmp_scale))
      else Some (Inr tmp_scale))"

declare point_loop.simps [code]

definition the_loop :: "'a res option \<Rightarrow> 'a res" where
  "the_loop r = (case r of None \<Rightarrow> Inl Diverges | Some x \<Rightarrow> x)"

fun j_loop :: "sysclock_entry list \<Rightarrow> nat \<Rightarrow> nat list \<Rightarrow> int \<Rightarrow> int res" where
  "j_loop l i [] tmp_scale = Inr tmp_scale"
| "j_loop l i (j # js) tmp_scale =
     bindR (the_loop (point_loop (take (i + 1) l) (se_T (l ! j)) (se_T (l ! i)) 1 tmp_scale))
       (\<lambda>tmp_scale. j_loop l i js tmp_scale)"

fun i_loop :: "sysclock_entry list \<Rightarrow> nat list \<Rightarrow> int \<Rightarrow> int res" where
  "i_loop l [] max_scale = Inr max_scale"
| "i_loop l (i # is) max_scale =
     bindR (j_loop l i [0..<i + 1] SCALE_FACTOR) (\<lambda>tmp_scale.
       i_loop l is (if tmp_scale > max_scale then tmp_scale else max_scale))"

fun cpu_loop :: "kst \<Rightarrow> int list \<Rightarrow> int \<Rightarrow> int res" where
  "cpu_loop s [] max_scale = Inr max_scale"
| "cpu_loop s (cpu # cpus) max_scale =
     bindR (collect s cpu (for_each_process s) []) (\<lambda>t_list.
       let l = sort_T t_list
       in bindR (i_loop l [0..<length l] max_scale) (\<lambda>max_scale. cpu_loop s cpus max_scale))"

definition sysclock_compute :: "kst \<Rightarrow> int res" where
  "sysclock_compute s = bindR (cpu_loop s [0, 1, 2, 3] 0) (\<lambda>max_scale.
     let max_scale = (if max_scale = 0 \<or> max_scale > SCALE_FACTOR then SCALE_FACTOR else max_scale)
     in Inr (u32 (u32 (max_scale * SYSCLOCK_MAX_FREQ) div SCALE_FACTOR * SYSCLOCK_FREQ_FACTOR)))"

subsection \<open>The governor\<close>

datatype gov_event = CPUFREQ_GOV_START | CPUFREQ_GOV_STOP | CPUFREQ_GOV_LIMITS

text \<open>The request goes to the driver; the requested value is recorded even if the driver fails.\<close>

definition cpufreq_set :: "kenv \<Rightarrow> int \<Rightarrow> int \<Rightarrow> kst \<Rightarrow> int \<times> kst" where
  "cpufreq_set e policy_cpu freq s =
     (e_driver_target e policy_cpu freq, s\<lparr>cpu_cur_freq := (cpu_cur_freq s)(policy_cpu := freq)\<rparr>)"

fun set_frequency_loop :: "kenv \<Rightarrow> int list \<Rightarrow> int \<Rightarrow> kst \<Rightarrow> (int \<times> kst) res" where
  "set_frequency_loop e [] ret s = Inr (ret, s)"
| "set_frequency_loop e (cpu # cpus) ret s =
     (if \<not> cpu_online s cpu then set_frequency_loop e cpus ret s
      else (case e_cpufreq_policy e cpu of
          None \<Rightarrow> set_frequency_loop e cpus ret s
        | Some (policy_cpu, governor) \<Rightarrow>
           (if governor = ''sysclock''
            then bindR (sysclock_compute s) (\<lambda>freq.
                   let (ret, s1) = cpufreq_set e policy_cpu freq s
                   in set_frequency_loop e cpus ret s1)
            else set_frequency_loop e cpus ret s)))"

definition sysclock_set_frequency :: "kenv \<Rightarrow> kst \<Rightarrow> (int \<times> kst) res" where
  "sysclock_set_frequency e s = set_frequency_loop e [0, 1, 2, 3] 0 s"

definition num_online_cpus :: "kst \<Rightarrow> int" where
  "num_online_cpus s = int (length (filter (cpu_online s) [0, 1, 2, 3]))"

definition cpufreq_governor_sysclock ::
    "kenv \<Rightarrow> int \<Rightarrow> int \<Rightarrow> gov_event \<Rightarrow> kst \<Rightarrow> (int \<times> kst) res" where
  "cpufreq_governor_sysclock e cpu cur event s =
     (case event of
        CPUFREQ_GOV_START \<Rightarrow>
          (if \<not> cpu_online s cpu then Inr (- EINVAL, s)
           else
             let s1 = s\<lparr>cpus_using_sysclock_governor := s32 (cpus_using_sysclock_governor s + 1),
                        cpu_cur_freq := (cpu_cur_freq s)(cpu := cur)\<rparr>
             in if cpus_using_sysclock_governor s1 = num_online_cpus s1
                then bindR (sysclock_set_frequency e s1) (\<lambda>(_, s2). Inr (0, s2))
                else Inr (0, s1))
      | CPUFREQ_GOV_STOP \<Rightarrow>
          Inr (0, s\<lparr>cpus_using_sysclock_governor := s32 (cpus_using_sysclock_governor s - 1)\<rparr>)
      | CPUFREQ_GOV_LIMITS \<Rightarrow> Inr (0, s))"

section \<open>The exchange sort\<close>

definition range_from :: "nat \<Rightarrow> sysclock_entry list \<Rightarrow> sysclock_entry list \<Rightarrow> bool" where
  "range_from i l l' \<longleftrightarrow> mset l' = mset l \<and> (\<forall>b<i. l' ! b = l ! b) \<and>
     (\<forall>b. i \<le> b \<and> b < length l \<longrightarrow> (\<exists>c\<ge>i. c < length l \<and> l' ! b = l ! c))"

lemma range_from_length: "range_from i l l' \<Longrightarrow> length l' = length l"
  unfolding range_from_def by (metis size_mset)

lemma range_from_nth:
  "range_from i l l' \<Longrightarrow> i \<le> b \<Longrightarrow> b < length l \<Longrightarrow> \<exists>c\<ge>i. c < length l \<and> l' ! b = l ! c"
  by (simp add: range_from_def)

lemma range_from_refl: "range_from i l l"
  by (auto simp: range_from_def)

lemma range_from_trans:
  assumes "range_from i l l'" "range_from i l' l''"
  shows "range_from i l l''"
proof -
  have len: "length l' = length l" using assms(1) by (rule range_from_length)
  have "\<exists>c\<ge>i. c < length l \<and> l'' ! b = l ! c" if b: "i \<le> b" "b < length l" for b
  proof -
    obtain c where c: "c \<ge> i" "c < length l" "l'' ! b = l' ! c"
      using range_from_nth [OF assms(2), of b] b len by auto
    with range_from_nth [OF assms(1), of c] show ?thesis by simp
  qed
  with assms show ?thesis by (auto simp: range_from_def)
qed

lemma range_from_swap:
  assumes "i < j" "j < length l"
  shows "range_from i l (swap_if i j l)"
proof -
  have "mset (l[i := l ! j, j := l ! i]) = mset l" using assms by (intro mset_swap) auto
  moreover have "\<exists>c\<ge>i. c < length l \<and> l[i := l ! j, j := l ! i] ! b = l ! c" if "i \<le> b" "b < length l" for b
    using that assms
    by (intro exI [of _ "if b = j then i else if b = i then j else b"]) (auto simp: nth_list_update)
  ultimately show ?thesis using assms by (auto simp: range_from_def swap_if_def)
qed

lemma sort_pass:
  assumes "i < m" "m \<le> length l"
  shows "range_from i l (fold (swap_if i) [Suc i..<m] l) \<and>
    (\<forall>k. i < k \<and> k < m \<longrightarrow> se_T (fold (swap_if i) [Suc i..<m] l ! i) \<le> se_T (fold (swap_if i) [Suc i..<m] l ! k))"
  using assms
proof (induction m)
  case (Suc m)
  show ?case
  proof (cases "i = m")
    case True
    then show ?thesis by (auto simp: range_from_refl)
  next
    case False
    let ?l = "fold (swap_if i) [Suc i..<m] l"
    have IH: "range_from i l ?l" "\<forall>k. i < k \<and> k < m \<longrightarrow> se_T (?l ! i) \<le> se_T (?l ! k)"
      using Suc False by auto
    have len: "length ?l = length l" using IH(1) by (rule range_from_length)
    have "range_from i ?l (swap_if i m ?l)"
      using False Suc.prems by (intro range_from_swap) (auto simp: len)
    then have "range_from i l (swap_if i m ?l)" using IH(1) range_from_trans by blast
    moreover have "se_T (swap_if i m ?l ! i) \<le> se_T (swap_if i m ?l ! k)" if "i < k" "k < Suc m" for k
      using that IH(2) Suc.prems len by (cases "k = m") (fastforce simp: swap_if_def nth_list_update)+
    moreover have "[Suc i..<Suc m] = [Suc i..<m] @ [m]" using False Suc.prems by simp
    ultimately show ?thesis by simp
  qed
qed simp

lemma sort_T_prefix:
  assumes "k \<le> length l"
  defines "r \<equiv> fold (\<lambda>i. fold (swap_if i) [Suc i..<length l]) [0..<k] l"
  shows "mset r = mset l \<and> (\<forall>a b. a < k \<and> a < b \<and> b < length l \<longrightarrow> se_T (r ! a) \<le> se_T (r ! b))"
  using assms(1) unfolding r_def
proof (induction k)
  case (Suc k)
  let ?r = "fold (\<lambda>i. fold (swap_if i) [Suc i..<length l]) [0..<k] l"
  let ?r' = "fold (swap_if k) [Suc k..<length l] ?r"
  have IH: "mset ?r = mset l" "\<And>a b. a < k \<Longrightarrow> a < b \<Longrightarrow> b < length l \<Longrightarrow> se_T (?r ! a) \<le> se_T (?r ! b)"
    using Suc by auto
  have len: "length ?r = length l" using IH(1) by (metis size_mset)
  have pass: "range_from k ?r ?r'" "\<And>b. k < b \<Longrightarrow> b < length l \<Longrightarrow> se_T (?r' ! k) \<le> se_T (?r' ! b)"
    using sort_pass [of k "length l" ?r] Suc.prems len by auto
  have "se_T (?r' ! a) \<le> se_T (?r' ! b)" if ab: "a < Suc k" "a < b" "b < length l" for a b
  proof (cases "a = k")
    case False
    then have a: "a < k" "?r' ! a = ?r ! a" using ab pass(1) by (auto simp: range_from_def)
    show ?thesis
    proof (cases "b < k")
      case True
      then show ?thesis using a ab IH(2) pass(1) by (auto simp: range_from_def)
    next
      case False
      then obtain c where "k \<le> c" "c < length l" "?r' ! b = ?r ! c"
        using range_from_nth [OF pass(1), of b] ab len by auto
      with a IH(2) [of a c] show ?thesis by simp
    qed
  qed (use pass ab in auto)
  moreover have "mset ?r' = mset l" using pass(1) IH(1) by (simp add: range_from_def)
  ultimately show ?case by simp
qed simp

lemma sort_T_sorts: "mset (sort_T l) = mset l" "sorted (map se_T (sort_T l))"
proof -
  show m: "mset (sort_T l) = mset l" using sort_T_prefix [of "length l" l] by (simp add: sort_T_def)
  then have "length (sort_T l) = length l" by (metis size_mset)
  with sort_T_prefix [of "length l" l] show "sorted (map se_T (sort_T l))"
    by (auto simp: sort_T_def sorted_iff_nth_mono_less)
qed

section \<open>The scale of a task\<close>

definition pairs :: "sysclock_entry list \<Rightarrow> (nat \<times> nat) list" where
  "pairs es = map (\<lambda>e. (nat (se_C e), nat (se_T e))) es"

definition edemand :: "sysclock_entry list \<Rightarrow> nat \<Rightarrow> nat" where
  "edemand es t = demand (pairs es) 0 t"

definition entry_ok :: "sysclock_entry \<Rightarrow> bool" where
  "entry_ok e \<longleftrightarrow> 0 < se_T e \<and> se_T e \<le> MAX_PERIOD \<and> 0 \<le> se_C e"

text \<open>The demand up to which \<^verbatim>\<open>SCALE_FACTOR*c_sum\<close> does not wrap.\<close>

definition MAX_DEMAND :: int where "MAX_DEMAND = 42949"

lemma edemand_Nil [simp]: "edemand [] t = 0"
  by (simp add: edemand_def pairs_def demand_def)

lemma edemand_Cons: "edemand (e # es) t = ceil_div t (nat (se_T e)) * nat (se_C e) + edemand es t"
  by (simp add: edemand_def pairs_def demand_def)

lemma edemand_mono: "x \<le> y \<Longrightarrow> edemand es x \<le> edemand es y"
  unfolding edemand_def by (rule demand_mono)

lemma ceil_div_le_self: "ceil_div t p \<le> t"
proof (cases "p = 0 \<or> t = 0")
  case False
  then have "ceil_div t p \<le> t \<longleftrightarrow> t \<le> t * p" by (simp add: ceil_div_le_iff)
  with False show ?thesis by simp
qed (auto simp: ceil_div_def)

lemma int_ceil_div:
  "0 < T \<Longrightarrow> int t div T + (if int t mod T \<noteq> 0 then 1 else 0) = int (ceil_div t (nat T))"
  by (simp add: ceil_div_def zdiv_int zmod_int flip: of_nat_eq_0_iff [of "t mod nat T", where 'a = int])

lemma c_sum_loop_eq:
  assumes "\<forall>e\<in>set es. entry_ok e" "int t \<le> MAX_PERIOD" "int (acc + edemand es t) \<le> MAX_DEMAND"
  shows "c_sum_loop (int t) es (int acc) = Inr (int (acc + edemand es t))"
  using assms
proof (induction es arbitrary: acc)
  case (Cons e es)
  let ?k = "ceil_div t (nat (se_T e))"
  have T: "0 < se_T e" "0 \<le> se_C e" using Cons.prems by (auto simp: entry_ok_def)
  have d: "?k * nat (se_C e) + edemand es t + acc \<le> 42949"
    using Cons.prems(3) by (simp add: edemand_Cons MAX_DEMAND_def flip: of_nat_mult)
  have k: "int ?k \<le> 1000000" using ceil_div_le_self [of t "nat (se_T e)"] Cons.prems(2)
    by (simp add: MAX_PERIOD_def)
  have p: "int ?k * se_C e = int (?k * nat (se_C e))" using T by simp
  have "int (?k * nat (se_C e)) \<le> 42949" "int (acc + ?k * nat (se_C e)) \<le> 42949"
    using d by linarith+
  then have "u32 (int acc + u32 (u32 (int ?k) * se_C e)) = int (acc + ?k * nat (se_C e))"
    using k unfolding u32_id [of "int ?k", OF of_nat_0_le_iff le_less_trans [OF k]] p
    by (simp only: u32_id [of "int ?k"]) (simp add: u32_id p)
  then have "c_sum_loop (int t) (e # es) (int acc) = c_sum_loop (int t) es (int (acc + ?k * nat (se_C e)))"
    using T by (simp add: int_ceil_div)
  also have "\<dots> = Inr (int (acc + ?k * nat (se_C e) + edemand es t))"
    using Cons.prems(1,2) d by (intro Cons.IH) (auto simp: MAX_DEMAND_def simp del: of_nat_add of_nat_mult)
  finally show ?case by (simp add: edemand_Cons add.assoc)
qed simp

definition scale_at :: "sysclock_entry list \<Rightarrow> nat \<Rightarrow> nat" where
  "scale_at es t = 100000 * edemand es t div t"

lemma new_scale_eq:
  assumes "\<forall>e\<in>set es. entry_ok e" "0 < t" "int t \<le> MAX_PERIOD" "int (edemand es t) \<le> MAX_DEMAND"
  shows "new_scale es (int t) = Inr (int (scale_at es t))"
proof -
  have "c_sum_loop (int t) es 0 = Inr (int (edemand es t))"
    using c_sum_loop_eq [of es t 0] assms by simp
  moreover have "u32 (100000 * int (edemand es t)) = int (100000 * edemand es t)"
    using assms(4) by (simp add: u32_id MAX_DEMAND_def)
  ultimately show ?thesis
    using assms(2) by (simp add: new_scale_def sysclock_consts scale_at_def zdiv_int)
qed

text \<open>The least value of a function over a set, capped.\<close>

definition least_over :: "nat set \<Rightarrow> (nat \<Rightarrow> nat) \<Rightarrow> int \<Rightarrow> int \<Rightarrow> bool" where
  "least_over A f cap r \<longleftrightarrow>
     r \<le> cap \<and> (\<forall>u\<in>A. r \<le> int (f u)) \<and> (r = cap \<or> (\<exists>u\<in>A. r = int (f u)))"

lemma least_over_empty: "least_over {} f cap cap"
  by (simp add: least_over_def)

lemma least_over_Un: "least_over A f cap r \<Longrightarrow> least_over B f r r' \<Longrightarrow> least_over (A \<union> B) f cap r'"
  unfolding least_over_def by force

lemma least_over_insert: "least_over B f (min (int (f u)) cap) r \<Longrightarrow> least_over (insert u B) f cap r"
  unfolding least_over_def by (auto simp: min_def split: if_splits)

definition multiples :: "nat \<Rightarrow> nat \<Rightarrow> nat \<Rightarrow> nat set" where
  "multiples n p lim = {m * p | m. n \<le> m \<and> m * p \<le> lim}"

lemma multiples_step:
  "n * p \<le> lim \<Longrightarrow> multiples n p lim = insert (n * p) (multiples (Suc n) p lim)"
  unfolding multiples_def by (auto simp: le_eq_less_or_eq [of n] Suc_le_eq)

lemma multiples_none: "lim < n * p \<Longrightarrow> multiples n p lim = {}"
  unfolding multiples_def using mult_le_mono1 [of n _ p] by (fastforce simp: not_le)

lemma point_loop_spec:
  assumes es: "\<forall>e\<in>set es. entry_ok e" and Ti: "int Ti \<le> MAX_PERIOD" "int (edemand es Ti) \<le> MAX_DEMAND"
    and Tj: "0 < Tj" "Tj \<le> Ti" and n: "1 \<le> n" "(n - 1) * Tj \<le> Ti"
  shows "\<exists>r. point_loop es (int Tj) (int Ti) (int n) tmp = Some (Inr r) \<and>
    least_over (multiples n Tj Ti) (scale_at es) tmp r"
  using n
proof (induction "Suc Ti - n * Tj" arbitrary: n tmp rule: less_induct)
  case less
  have "n - 1 \<le> (n - 1) * Tj" using Tj(1) by simp
  then have "n - 1 \<le> Ti" using less.prems(2) by (rule order.trans)
  then have n: "int n \<le> 1000001" using less.prems(1) Ti(1) by (simp add: MAX_PERIOD_def)
  have "n * Tj = (n - 1) * Tj + Tj" using less.prems(1) by (simp add: algebra_simps)
  then have nT: "n * Tj \<le> 2000000" using less.prems(2) Tj(2) Ti(1) by (simp add: MAX_PERIOD_def)
  then have u: "u32 (int n * int Tj) = int (n * Tj)" by (simp add: u32_id flip: of_nat_mult)
  show ?case
  proof (cases "n * Tj \<le> Ti")
    case False
    then have "point_loop es (int Tj) (int Ti) (int n) tmp = Some (Inr tmp)"
      by (subst point_loop.simps) (simp add: u del: of_nat_mult)
    with False show ?thesis by (simp add: multiples_none least_over_empty)
  next
    case True
    have "int (edemand es (n * Tj)) \<le> MAX_DEMAND" using edemand_mono [OF True, of es] Ti(2) by linarith
    then have ns: "new_scale es (int (n * Tj)) = Inr (int (scale_at es (n * Tj)))"
      using True Ti(1) less.prems(1) Tj(1) es by (intro new_scale_eq) (auto simp del: of_nat_mult)
    let ?tmp = "min (int (scale_at es (n * Tj))) tmp"
    have step: "point_loop es (int Tj) (int Ti) (int n) tmp = point_loop es (int Tj) (int Ti) (int (Suc n)) ?tmp"
      using True n by (subst point_loop.simps) (simp add: u ns s32_id min_def add.commute del: of_nat_mult)
    have "Suc Ti - Suc n * Tj < Suc Ti - n * Tj" using True Tj(1) by simp
    from less.hyps [OF this, of ?tmp] True obtain r where r:
      "point_loop es (int Tj) (int Ti) (int (Suc n)) ?tmp = Some (Inr r)"
      "least_over (multiples (Suc n) Tj Ti) (scale_at es) ?tmp r" by auto
    with step True show ?thesis by (auto simp: multiples_step intro: least_over_insert)
  qed
qed

definition periods :: "sysclock_entry list \<Rightarrow> nat list" where
  "periods es = map (\<lambda>e. nat (se_T e)) es"

text \<open>The points the loops visit for the \<open>i\<close>-th task, and the scale it needs.\<close>

definition points_of :: "sysclock_entry list \<Rightarrow> nat \<Rightarrow> nat set \<Rightarrow> nat set" where
  "points_of l i js = (\<Union>j\<in>js. multiples 1 (nat (se_T (l ! j))) (nat (se_T (l ! i))))"

definition scale_of :: "sysclock_entry list \<Rightarrow> nat \<Rightarrow> int \<Rightarrow> bool" where
  "scale_of l i r \<longleftrightarrow> 0 \<le> r \<and> least_over (points_of l i {..i}) (scale_at (take (Suc i) l)) 100000 r"

definition entries_ok :: "sysclock_entry list \<Rightarrow> bool" where
  "entries_ok l \<longleftrightarrow> (\<forall>e\<in>set l. entry_ok e) \<and> sorted (map se_T l) \<and>
     (\<forall>i\<in>set [0..<length l]. int (edemand (take (Suc i) l) (nat (se_T (l ! i)))) \<le> MAX_DEMAND)"

lemma entries_ok_demand:
  "entries_ok l \<Longrightarrow> i < length l \<Longrightarrow> int (edemand (take (Suc i) l) (nat (se_T (l ! i)))) \<le> MAX_DEMAND"
  by (simp add: entries_ok_def)

lemma j_loop_spec:
  assumes l: "entries_ok l" and i: "i < length l" and js: "set js \<subseteq> {..i}" and tmp: "0 \<le> tmp"
  shows "\<exists>r. j_loop l i js tmp = Inr r \<and> 0 \<le> r \<and>
    least_over (points_of l i (set js)) (scale_at (take (Suc i) l)) tmp r"
  using js tmp
proof (induction js arbitrary: tmp)
  case (Cons j js)
  let ?es = "take (Suc i) l"
  have ji: "j \<le> i" "j < length l" using Cons.prems i by auto
  have e: "entry_ok (l ! j)" "entry_ok (l ! i)" using l ji i by (auto simp: entries_ok_def)
  obtain Tj Ti where T: "se_T (l ! j) = int Tj" "se_T (l ! i) = int Ti"
    using e unfolding entry_ok_def by (meson less_imp_le nonneg_int_cases)
  have le: "Tj \<le> Ti"
    using l ji i sorted_nth_mono [of "map se_T l" j i] T by (auto simp: entries_ok_def)
  have "\<forall>e\<in>set ?es. entry_ok e" using l by (auto simp: entries_ok_def dest: in_set_takeD)
  moreover have "int Ti \<le> MAX_PERIOD" "0 < Tj" using e T by (simp_all add: entry_ok_def)
  moreover have "int (edemand ?es Ti) \<le> MAX_DEMAND" using entries_ok_demand [OF l i] T by simp
  ultimately obtain r where r: "point_loop ?es (int Tj) (int Ti) 1 tmp = Some (Inr r)"
    "least_over (multiples 1 Tj Ti) (scale_at ?es) tmp r"
    using point_loop_spec [of ?es Ti Tj 1 tmp] le by auto
  have "0 \<le> r" using r(2) Cons.prems(2) by (auto simp: least_over_def)
  with Cons.IH [of r] Cons.prems obtain r' where r': "j_loop l i js r = Inr r'" "0 \<le> r'"
    "least_over (points_of l i (set js)) (scale_at ?es) r r'" by auto
  have "points_of l i (set (j # js)) = multiples 1 Tj Ti \<union> points_of l i (set js)"
    using T by (simp add: points_of_def)
  then show ?case using r r' T least_over_Un [OF r(2) r'(3)] by (simp add: the_loop_def)
qed (simp add: points_of_def least_over_empty)

lemma scale_of_exists:
  assumes "entries_ok l" "i < length l"
  shows "\<exists>r. j_loop l i [0..<Suc i] 100000 = Inr r \<and> scale_of l i r"
proof -
  have "set [0..<Suc i] = {..i}" by auto
  with j_loop_spec [OF assms, of "[0..<Suc i]" 100000] show ?thesis unfolding scale_of_def by auto
qed

lemma i_loop_spec:
  assumes "entries_ok l" "set is \<subseteq> {..<length l}"
  shows "\<exists>M. i_loop l is mx = Inr M \<and> mx \<le> M \<and> (\<forall>i\<in>set is. \<exists>r\<le>M. scale_of l i r) \<and>
    (M = mx \<or> (\<exists>i\<in>set is. scale_of l i M))"
  using assms(2)
proof (induction "is" arbitrary: mx)
  case (Cons i "is")
  obtain r where r: "j_loop l i [0..<Suc i] 100000 = Inr r" "scale_of l i r"
    using scale_of_exists assms(1) Cons.prems by fastforce
  let ?mx = "if r > mx then r else mx"
  obtain M where M: "i_loop l is ?mx = Inr M" "?mx \<le> M" "\<forall>i\<in>set is. \<exists>r\<le>M. scale_of l i r"
    "M = ?mx \<or> (\<exists>i\<in>set is. scale_of l i M)"
    using Cons.IH [of ?mx] Cons.prems by (auto simp del: if_split)
  have "i_loop l (i # is) mx = Inr M" using r(1) M(1) by (simp add: sysclock_consts del: upt_Suc)
  moreover have "r \<le> M" "mx \<le> M" using M(2) by (auto split: if_splits)
  moreover from this have "\<exists>r\<le>M. scale_of l i r" using r(2) by blast
  ultimately show ?case using M(3,4) r(2) by (intro exI [of _ M]) (auto split: if_splits)
qed simp

section \<open>The frequency\<close>

definition cpu_entries :: "kst \<Rightarrow> int \<Rightarrow> sysclock_entry list" where
  "cpu_entries s cpu =
     map (\<lambda>t. \<lparr>se_C = ts_millis (r_C (reserve s t)), se_T = ts_millis (r_T (reserve s t))\<rparr>)
       (filter (\<lambda>t. r_flag (reserve s t) \<noteq> 0 \<and> r_cpu (reserve s t) = cpu) (for_each_process s))"

lemma collect_eq:
  assumes "length acc + length (filter (\<lambda>t. r_flag (reserve s t) \<noteq> 0 \<and> r_cpu (reserve s t) = cpu) ts) \<le> MAX_TASK"
  shows "collect s cpu ts acc = Inr (acc @
     map (\<lambda>t. \<lparr>se_C = ts_millis (r_C (reserve s t)), se_T = ts_millis (r_T (reserve s t))\<rparr>)
       (filter (\<lambda>t. r_flag (reserve s t) \<noteq> 0 \<and> r_cpu (reserve s t) = cpu) ts))"
  using assms by (induction ts arbitrary: acc) auto

text \<open>What the reservations of a processor must satisfy: at most 100, and numbers for which the
  arithmetic does not wrap.\<close>

definition clock_ok :: "kst \<Rightarrow> int \<Rightarrow> bool" where
  "clock_ok s cpu \<longleftrightarrow> length (cpu_entries s cpu) \<le> MAX_TASK \<and> entries_ok (sort_T (cpu_entries s cpu))"

lemma cpu_loop_spec:
  assumes "\<forall>c\<in>set cs. clock_ok s c"
  shows "\<exists>M. cpu_loop s cs mx = Inr M \<and> mx \<le> M \<and>
    (\<forall>c\<in>set cs. \<forall>i<length (cpu_entries s c). \<exists>r\<le>M. scale_of (sort_T (cpu_entries s c)) i r) \<and>
    (M = mx \<or> (\<exists>c\<in>set cs. \<exists>i<length (cpu_entries s c). scale_of (sort_T (cpu_entries s c)) i M))"
  using assms
proof (induction cs arbitrary: mx)
  case (Cons c cs)
  let ?l = "sort_T (cpu_entries s c)"
  have len: "length ?l = length (cpu_entries s c)" using sort_T_sorts(1) by (metis size_mset)
  have col: "collect s c (for_each_process s) [] = Inr (cpu_entries s c)"
    using collect_eq [of "[]" s c "for_each_process s"] Cons.prems by (simp add: clock_ok_def cpu_entries_def)
  obtain M1 where M1: "i_loop ?l [0..<length ?l] mx = Inr M1" "mx \<le> M1"
    "\<forall>i\<in>{..<length ?l}. \<exists>r\<le>M1. scale_of ?l i r" "M1 = mx \<or> (\<exists>i\<in>{..<length ?l}. scale_of ?l i M1)"
    using i_loop_spec [of ?l "[0..<length ?l]" mx] Cons.prems
    by (auto simp: clock_ok_def atLeast0LessThan)
  obtain M where M: "cpu_loop s cs M1 = Inr M" "M1 \<le> M"
    "\<forall>c\<in>set cs. \<forall>i<length (cpu_entries s c). \<exists>r\<le>M. scale_of (sort_T (cpu_entries s c)) i r"
    "M = M1 \<or> (\<exists>c\<in>set cs. \<exists>i<length (cpu_entries s c). scale_of (sort_T (cpu_entries s c)) i M)"
    using Cons.IH [of M1] Cons.prems by auto
  have "\<exists>r\<le>M. scale_of ?l i r" if i: "i < length (cpu_entries s c)" for i
  proof -
    obtain r where "r \<le> M1" "scale_of ?l i r" using M1(3) i len by auto
    with M(2) show ?thesis by (auto intro: exI [of _ r])
  qed
  with col M1 M show ?case by (intro exI [of _ M]) (auto simp: Let_def len)
qed auto

lemma scale_of_bound: "scale_of l i r \<Longrightarrow> 0 \<le> r \<and> r \<le> 100000"
  by (simp add: scale_of_def least_over_def)

text \<open>A scale below the maximum is reached at a point where the demand, at the speed of the next
  higher scale, fits.\<close>

lemma scale_of_fits:
  assumes "scale_of l i r" "r \<le> M" "M < 100000" "i < length l" "entries_ok l"
  shows "\<exists>t. 0 < t \<and> t \<le> nat (se_T (l ! i)) \<and> 100000 * int (edemand (take (Suc i) l) t) < (M + 1) * int t"
proof -
  let ?d = "edemand (take (Suc i) l)"
  from assms(1-3) obtain u where u: "u \<in> points_of l i {..i}" "r = int (scale_at (take (Suc i) l) u)"
    by (auto simp: scale_of_def least_over_def)
  then obtain j m where jm: "j \<le> i" "u = m * nat (se_T (l ! j))" "1 \<le> m" "u \<le> nat (se_T (l ! i))"
    by (auto simp: points_of_def multiples_def)
  have "0 < nat (se_T (l ! j))" using assms(4,5) jm(1) by (auto simp: entries_ok_def entry_ok_def)
  with jm have "0 < u" by simp
  then have "100000 * ?d u < (scale_at (take (Suc i) l) u + 1) * u"
    unfolding scale_at_def using dividend_less_div_times [of u "100000 * ?d u"] by simp
  then have "int (100000 * ?d u) < int ((scale_at (take (Suc i) l) u + 1) * u)" by (simp only: of_nat_less_iff)
  then have "100000 * int (?d u) < (r + 1) * int u" unfolding u(2) by (simp add: algebra_simps)
  also have "\<dots> \<le> (M + 1) * int u" using assms(2) by (simp add: mult_right_mono)
  finally show ?thesis using \<open>0 < u\<close> jm(4) by blast
qed

text \<open>No smaller speed fits at any time up to the deadline, not only at the points visited.\<close>

lemma scale_of_least:
  assumes "scale_of l i r" "i < length l" "entries_ok l" "0 < t" "t \<le> nat (se_T (l ! i))"
  shows "r * int t \<le> 100000 * int (edemand (take (Suc i) l) t)"
proof -
  let ?es = "take (Suc i) l"
  have pos: "0 < p" if "p \<in> set (periods ?es)" for p
    using that assms(3) by (auto simp: periods_def entries_ok_def entry_ok_def dest: in_set_takeD)
  have "nat (se_T (l ! i)) \<in> set (periods ?es)"
    using assms(2) by (auto simp: periods_def take_Suc_conv_app_nth)
  moreover have "\<And>c q. (c, q) \<in> set (pairs ?es) \<Longrightarrow> q \<in> set (periods ?es)"
    by (auto simp: pairs_def periods_def)
  ultimately obtain u where u: "u \<in> sched_points (periods ?es) (nat (se_T (l ! i)))" "t \<le> u"
    "edemand ?es u = edemand ?es t"
    using sched_points_complete [of "pairs ?es" "periods ?es" "nat (se_T (l ! i))" t 0] pos assms(4,5)
    unfolding edemand_def by metis
  obtain n p where np: "u = n * p" "p \<in> set (periods ?es)" "1 \<le> n" "n * p \<le> nat (se_T (l ! i))"
    using u(1) by (auto simp: sched_points_def)
  obtain j where "j < length ?es" "p = nat (se_T (?es ! j))"
    using np(2) unfolding periods_def set_map by (metis image_iff in_set_conv_nth)
  then have "j \<le> i" "p = nat (se_T (l ! j))" by auto
  with np have "u \<in> points_of l i {..i}" by (auto simp: points_of_def multiples_def)
  then have "r \<le> int (100000 * edemand ?es u div u)"
    using assms(1) by (auto simp: scale_of_def least_over_def scale_at_def)
  moreover have "r * int t \<le> r * int u" using u(2) scale_of_bound [OF assms(1)] by (simp add: mult_left_mono)
  moreover have "100000 * edemand ?es u div u * u \<le> 100000 * edemand ?es u"
    by (rule div_times_less_eq_dividend)
  then have "int (100000 * edemand ?es u div u) * int u \<le> 100000 * int (edemand ?es u)"
    by (metis of_nat_mult of_nat_le_iff of_nat_numeral)
  ultimately show ?thesis
    unfolding u(3) by (meson mult_right_mono of_nat_0_le_iff order.trans)
qed

section \<open>The clock always answers\<close>

text \<open>Whatever the budgets, and however the arithmetic wraps, the loops end.\<close>

definition entry_T_ok :: "sysclock_entry \<Rightarrow> bool" where
  "entry_T_ok e \<longleftrightarrow> 0 < se_T e \<and> se_T e \<le> MAX_PERIOD"

lemma c_sum_loop_total: "\<forall>e\<in>set es. entry_T_ok e \<Longrightarrow> \<exists>c. c_sum_loop t_sum es acc = Inr c"
  by (induction es arbitrary: acc) (auto simp: entry_T_ok_def)

lemma new_scale_total:
  assumes "\<forall>e\<in>set es. entry_T_ok e" "t_sum \<noteq> 0"
  shows "\<exists>q. new_scale es t_sum = Inr q"
proof -
  obtain c where "c_sum_loop t_sum es 0 = Inr c" using c_sum_loop_total [OF assms(1)] by blast
  with assms(2) show ?thesis by (simp add: new_scale_def)
qed

lemma point_loop_total:
  assumes es: "\<forall>e\<in>set es. entry_T_ok e" and Ti: "int Ti \<le> MAX_PERIOD"
    and Tj: "0 < Tj" "Tj \<le> Ti" and n: "1 \<le> n" "(n - 1) * Tj \<le> Ti"
  shows "\<exists>r. point_loop es (int Tj) (int Ti) (int n) tmp = Some (Inr r)"
  using n
proof (induction "Suc Ti - n * Tj" arbitrary: n tmp rule: less_induct)
  case less
  have "n - 1 \<le> (n - 1) * Tj" using Tj(1) by simp
  then have "n - 1 \<le> Ti" using less.prems(2) by (rule order.trans)
  then have n: "int n \<le> 1000001" using less.prems(1) Ti by (simp add: MAX_PERIOD_def)
  have "n * Tj = (n - 1) * Tj + Tj" using less.prems(1) by (simp add: algebra_simps)
  then have "n * Tj \<le> 2000000" using less.prems(2) Tj(2) Ti by (simp add: MAX_PERIOD_def)
  then have u: "u32 (int n * int Tj) = int (n * Tj)" by (simp add: u32_id flip: of_nat_mult)
  show ?case
  proof (cases "n * Tj \<le> Ti")
    case False
    then show ?thesis by (subst point_loop.simps) (simp add: u del: of_nat_mult)
  next
    case True
    have "int (n * Tj) \<noteq> 0" using less.prems(1) Tj(1) by simp
    from new_scale_total [OF es this] obtain q where q: "new_scale es (int (n * Tj)) = Inr q" by blast
    have "Suc Ti - Suc n * Tj < Suc Ti - n * Tj" using True Tj(1) by simp
    from less.hyps [OF this, of "if q < tmp then q else tmp"] True n show ?thesis
      by (subst point_loop.simps) (simp add: u q s32_id add.commute del: of_nat_mult)
  qed
qed

lemma j_loop_total:
  assumes l: "\<forall>e\<in>set l. entry_T_ok e" "sorted (map se_T l)" and i: "i < length l" and js: "set js \<subseteq> {..i}"
  shows "\<exists>r. j_loop l i js tmp = Inr r"
  using js
proof (induction js arbitrary: tmp)
  case (Cons j js)
  have ji: "j \<le> i" "j < length l" using Cons.prems i by auto
  have e: "entry_T_ok (l ! j)" "entry_T_ok (l ! i)" using l ji i by auto
  obtain Tj Ti where T: "se_T (l ! j) = int Tj" "se_T (l ! i) = int Ti"
    using e unfolding entry_T_ok_def by (meson less_imp_le nonneg_int_cases)
  have "Tj \<le> Ti" using l(2) ji i sorted_nth_mono [of "map se_T l" j i] T by auto
  moreover have "\<forall>e\<in>set (take (Suc i) l). entry_T_ok e" using l(1) by (auto dest: in_set_takeD)
  moreover have "int Ti \<le> MAX_PERIOD" "0 < Tj" using e T by (simp_all add: entry_T_ok_def)
  ultimately obtain r where "point_loop (take (Suc i) l) (int Tj) (int Ti) 1 tmp = Some (Inr r)"
    using point_loop_total [of "take (Suc i) l" Ti Tj 1 tmp] by auto
  with T Cons show ?case by (simp add: the_loop_def)
qed simp

lemma i_loop_total:
  assumes l: "\<forall>e\<in>set l. entry_T_ok e" "sorted (map se_T l)" and "is": "set is \<subseteq> {..<length l}"
  shows "\<exists>M. i_loop l is mx = Inr M"
  using "is"
proof (induction "is" arbitrary: mx)
  case (Cons i "is")
  have "set [0..<Suc i] \<subseteq> {..i}" by auto
  with l Cons.prems obtain r where "j_loop l i [0..<Suc i] SCALE_FACTOR = Inr r"
    using j_loop_total [of l i "[0..<Suc i]" SCALE_FACTOR] by auto
  with Cons show ?case by (simp del: upt_Suc)
qed simp

definition clock_room :: "kst \<Rightarrow> int \<Rightarrow> bool" where
  "clock_room s c \<longleftrightarrow> length (cpu_entries s c) \<le> MAX_TASK \<and> (\<forall>e\<in>set (cpu_entries s c). entry_T_ok e)"

lemma cpu_loop_total: "\<forall>c\<in>set cs. clock_room s c \<Longrightarrow> \<exists>M. cpu_loop s cs mx = Inr M"
proof (induction cs arbitrary: mx)
  case (Cons c cs)
  let ?l = "sort_T (cpu_entries s c)"
  have col: "collect s c (for_each_process s) [] = Inr (cpu_entries s c)"
    using collect_eq [of "[]" s c "for_each_process s"] Cons.prems by (simp add: clock_room_def cpu_entries_def)
  have "set ?l = set (cpu_entries s c)" using sort_T_sorts(1) by (metis set_mset_mset)
  then have "\<forall>e\<in>set ?l. entry_T_ok e" using Cons.prems by (simp add: clock_room_def)
  then obtain M where "i_loop ?l [0..<length ?l] mx = Inr M"
    using i_loop_total [of ?l "[0..<length ?l]" mx] sort_T_sorts(2) by (auto simp: atLeast0LessThan)
  with col Cons show ?case by (simp add: Let_def)
qed simp

lemma sysclock_compute_total:
  assumes "\<forall>c\<in>{0..3}. clock_room s c"
  shows "\<exists>freq. sysclock_compute s = Inr freq"
proof -
  obtain M where "cpu_loop s [0, 1, 2, 3] 0 = Inr M"
    using cpu_loop_total [of "[0, 1, 2, 3]" s 0] assms unfolding four_cpus by auto
  then show ?thesis unfolding sysclock_compute_def Let_def by simp
qed

section \<open>The result of the computation\<close>

lemma sysclock_compute_spec:
  assumes "\<forall>c\<in>{0..3}. clock_ok s c"
  shows "\<exists>M. sysclock_compute s = Inr (M * 1200 div 100000 * 1000) \<and> 0 < M \<and> M \<le> 100000 \<and>
    (M = 100000 \<or> (\<forall>c\<in>{0..3}. \<forall>i<length (cpu_entries s c). let l = sort_T (cpu_entries s c) in
       \<exists>t. 0 < t \<and> t \<le> nat (se_T (l ! i)) \<and> 100000 * int (edemand (take (Suc i) l) t) < (M + 1) * int t)) \<and>
    (M = 100000 \<or> (\<exists>c\<in>{0..3}. \<exists>i<length (cpu_entries s c). let l = sort_T (cpu_entries s c) in
       \<forall>t. 0 < t \<and> t \<le> nat (se_T (l ! i)) \<longrightarrow> M * int t \<le> 100000 * int (edemand (take (Suc i) l) t)))"
proof -
  have cs: "set [0, 1, 2, 3 :: int] = {0..3}" by (simp add: four_cpus)
  have len: "length (sort_T l) = length l" for l using sort_T_sorts(1) by (metis size_mset)
  from cpu_loop_spec [of "[0, 1, 2, 3]" s 0] assms obtain M where M: "cpu_loop s [0, 1, 2, 3] 0 = Inr M"
    "0 \<le> M" "\<forall>c\<in>{0..3}. \<forall>i<length (cpu_entries s c). \<exists>r\<le>M. scale_of (sort_T (cpu_entries s c)) i r"
    "M = 0 \<or> (\<exists>c\<in>{0..3}. \<exists>i<length (cpu_entries s c). scale_of (sort_T (cpu_entries s c)) i M)"
    unfolding cs by blast
  have "M \<le> 100000" using M(4) scale_of_bound by fastforce
  define M' where "M' = (if M = 0 then 100000 else M)"
  have M': "0 < M'" "M' \<le> 100000" using M(2) \<open>M \<le> 100000\<close> by (auto simp: M'_def)
  have b: "0 \<le> M' * 1200 div 100000" "M' * 1200 div 100000 \<le> 1200" using M' by linarith+
  have "u32 (M' * 1200) = M' * 1200" using M' by (intro u32_id) auto
  moreover have "u32 (M' * 1200 div 100000 * 1000) = M' * 1200 div 100000 * 1000"
    using b by (intro u32_id) auto
  moreover have "(if M = 0 \<or> M > SCALE_FACTOR then SCALE_FACTOR else M) = M'"
    using \<open>M \<le> 100000\<close> by (simp add: M'_def sysclock_consts)
  ultimately have comp: "sysclock_compute s = Inr (M' * 1200 div 100000 * 1000)"
    unfolding sysclock_compute_def M(1) bindR_Inr Let_def by (simp only: sysclock_consts)
  have fits: "\<exists>t. 0 < t \<and> t \<le> nat (se_T (sort_T (cpu_entries s c) ! i)) \<and>
      100000 * int (edemand (take (Suc i) (sort_T (cpu_entries s c))) t) < (M' + 1) * int t"
    if "M' \<noteq> 100000" and ci: "c \<in> {0..3}" "i < length (cpu_entries s c)" for c i
  proof -
    have "M' = M" "M' < 100000" using that(1) M'(2) by (auto simp: M'_def split: if_splits)
    moreover obtain r where "r \<le> M" "scale_of (sort_T (cpu_entries s c)) i r" using M(3) ci by blast
    moreover have "entries_ok (sort_T (cpu_entries s c))" using assms ci by (simp add: clock_ok_def)
    ultimately show ?thesis using ci by (intro scale_of_fits) (simp_all add: len)
  qed
  have least: "M' = 100000 \<or> (\<exists>c\<in>{0..3}. \<exists>i<length (cpu_entries s c). \<forall>t. 0 < t \<and>
      t \<le> nat (se_T (sort_T (cpu_entries s c) ! i)) \<longrightarrow>
      M' * int t \<le> 100000 * int (edemand (take (Suc i) (sort_T (cpu_entries s c))) t))"
  proof (cases "M = 0")
    case False
    then obtain c i where ci: "c \<in> {0..3}" "i < length (cpu_entries s c)"
      "scale_of (sort_T (cpu_entries s c)) i M" using M(4) by blast
    have "entries_ok (sort_T (cpu_entries s c))" using assms ci by (simp add: clock_ok_def)
    then have "\<forall>t. 0 < t \<and> t \<le> nat (se_T (sort_T (cpu_entries s c) ! i)) \<longrightarrow>
        M * int t \<le> 100000 * int (edemand (take (Suc i) (sort_T (cpu_entries s c))) t)"
      using ci scale_of_least [of "sort_T (cpu_entries s c)" i M] by (simp add: len)
    with ci False show ?thesis unfolding M'_def by auto
  qed (simp add: M'_def)
  show ?thesis unfolding Let_def using comp M' fits least by blast
qed

lemma sysclock_computes: "\<forall>c\<in>{0..3}. clock_ok s c \<Longrightarrow> \<exists>freq. sysclock_compute s = Inr freq"
  using sysclock_compute_spec by blast

section \<open>Properties\<close>


text \<open>The state after a reservation of the given budget and period on a processor.\<close>

definition reserved_state :: "(tptr \<times> int \<times> timespec \<times> timespec) list \<Rightarrow> kst" where
  "reserved_state rs = fold (\<lambda>(t, cpu, C, T). upd_reserve t (\<lambda>r. r\<lparr>r_flag := 1, r_cpu := cpu, r_C := C, r_T := T\<rparr>))
     rs (boot_state (map fst rs))"

definition millis :: "int \<Rightarrow> timespec" where
  "millis m = \<lparr>tv_sec = m div 1000, tv_nsec = m mod 1000 * 1000000\<rparr>"


text \<open>Rounding goes down twice: for one task of 1 ms every 3 ms the clock is set to 399 MHz, at
  which the task needs more than its period.\<close>

lemma sysclock_rounds_down:
  "sysclock_compute (reserved_state [(1, 0, millis 1, millis 3)]) = Inr 399000 \<and> 399000 * 3 < (1200000 :: int) * 1"
proof -
  have "sysclock_compute (reserved_state [(1, 0, millis 1, millis 3)]) = Inr 399000" by code_simp
  then show ?thesis by simp
qed

text \<open>The product \<^verbatim>\<open>SCALE_FACTOR*c_sum\<close> wraps at 43 seconds: for a task of 43 s every 60 s the
  frequency is set to 0.\<close>

lemma sysclock_wraps:
  "sysclock_compute (reserved_state [(1, 0, millis 43000, millis 60000)]) = Inr 0"
  by code_simp

text \<open>The frequency policies that \<^verbatim>\<open>sysclock_set_frequency\<close> writes.\<close>

definition clock_target :: "kenv \<Rightarrow> kst \<Rightarrow> int \<Rightarrow> int option" where
  "clock_target e s c =
     (if cpu_online s c
      then (case e_cpufreq_policy e c of
              Some (p, g) \<Rightarrow> (if g = ''sysclock'' then Some p else None) | None \<Rightarrow> None)
      else None)"

lemma sysclock_compute_cur_freq [simp]: "sysclock_compute (s\<lparr>cpu_cur_freq := f\<rparr>) = sysclock_compute s"
proof -
  have r: "reserve (s\<lparr>cpu_cur_freq := f\<rparr>) = reserve s" by (rule ext) (simp add: reserve_def)
  have p: "for_each_process (s\<lparr>cpu_cur_freq := f\<rparr>) = for_each_process s" by (simp add: for_each_process_def)
  have c: "collect (s\<lparr>cpu_cur_freq := f\<rparr>) cpu ts acc = collect s cpu ts acc" for cpu ts acc
    by (induction ts arbitrary: acc) (simp_all add: r)
  have "cpu_loop (s\<lparr>cpu_cur_freq := f\<rparr>) cs = cpu_loop s cs" for cs
    by (induction cs) (rule ext, simp add: c p)+
  then show ?thesis by (simp add: sysclock_compute_def)
qed

lemma set_frequency_loop_spec:
  assumes "sysclock_compute s = Inr freq"
  shows "\<exists>ret' f. set_frequency_loop e cs ret s = Inr (ret', s\<lparr>cpu_cur_freq := f\<rparr>) \<and>
    (\<forall>p. f p = (if \<exists>c\<in>set cs. clock_target e s c = Some p then freq else cpu_cur_freq s p))"
  using assms
proof (induction cs arbitrary: s ret)
  case Nil
  have "s = s\<lparr>cpu_cur_freq := cpu_cur_freq s\<rparr>" by simp
  then show ?case by (intro exI [of _ ret] exI [of _ "cpu_cur_freq s"]) simp
next
  case (Cons c cs)
  show ?case
  proof (cases "clock_target e s c")
    case None
    then have "set_frequency_loop e (c # cs) ret s = set_frequency_loop e cs ret s"
      by (auto simp: clock_target_def split: option.splits if_splits prod.splits)
    with Cons.IH [OF Cons.prems, of ret] None show ?thesis by auto
  next
    case (Some p)
    let ?s1 = "s\<lparr>cpu_cur_freq := (cpu_cur_freq s)(p := freq)\<rparr>"
    have step: "set_frequency_loop e (c # cs) ret s = set_frequency_loop e cs (e_driver_target e p freq) ?s1"
      using Some Cons.prems
      by (auto simp: clock_target_def cpufreq_set_def Let_def split: option.splits if_splits prod.splits)
    have "clock_target e ?s1 d = clock_target e s d" for d by (simp add: clock_target_def)
    with Cons.IH [of ?s1 "e_driver_target e p freq"] Cons.prems obtain ret' f where F:
      "set_frequency_loop e cs (e_driver_target e p freq) ?s1 = Inr (ret', ?s1\<lparr>cpu_cur_freq := f\<rparr>)"
      "\<forall>q. f q = (if \<exists>c\<in>set cs. clock_target e s c = Some q then freq else cpu_cur_freq ?s1 q)" by auto
    have "set_frequency_loop e (c # cs) ret s = Inr (ret', s\<lparr>cpu_cur_freq := f\<rparr>)"
      unfolding step F(1) by simp
    moreover have "\<forall>q. f q = (if \<exists>d\<in>set (c # cs). clock_target e s d = Some q then freq else cpu_cur_freq s q)"
      using F(2) Some by simp
    ultimately show ?thesis by blast
  qed
qed

lemma sysclock_set_frequency_spec:
  assumes "\<forall>c\<in>{0..3}. clock_ok s c"
  shows "\<exists>ret f. sysclock_set_frequency e s = Inr (ret, s\<lparr>cpu_cur_freq := f\<rparr>)"
proof -
  from sysclock_computes [OF assms] obtain freq where "sysclock_compute s = Inr freq" by blast
  from set_frequency_loop_spec [OF this] show ?thesis unfolding sysclock_set_frequency_def by blast
qed

lemma sysclock_set_frequency_total:
  assumes "\<forall>c\<in>{0..3}. clock_room s c"
  shows "\<exists>ret f. sysclock_set_frequency e s = Inr (ret, s\<lparr>cpu_cur_freq := f\<rparr>)"
proof -
  from sysclock_compute_total [OF assms] obtain freq where "sysclock_compute s = Inr freq" by blast
  from set_frequency_loop_spec [OF this] show ?thesis unfolding sysclock_set_frequency_def by blast
qed

text \<open>C11. The clock computation returns a frequency whenever every processor has at most 100 reserved
  processes with periods between 1 ms and 1000 s, whatever their budgets: all its loops end.\<close>

theorem sysclock_compute_returns:
  assumes "\<forall>c\<in>{0..3}. clock_room s c"
  shows "\<exists>freq. sysclock_compute s = Inr freq"
  using assms by (rule sysclock_compute_total)

theorem sysclock_compute_returns_witness:
  "\<exists>freq. sysclock_compute (reserved_state [(1, 0, millis 43000, millis 60000), (2, 0, millis 1, millis 3)]) = Inr freq"
proof -
  let ?s = "reserved_state [(1, 0, millis 43000, millis 60000), (2, 0, millis 1, millis 3)]"
  have "clock_room ?s 0" "clock_room ?s 1" "clock_room ?s 2" "clock_room ?s 3" by code_simp+
  then show ?thesis by (intro sysclock_compute_returns) (simp add: ball_four)
qed

lemma collect_overflow:
  assumes "MAX_TASK < length acc + length (filter (\<lambda>t. r_flag (reserve s t) \<noteq> 0 \<and> r_cpu (reserve s t) = cpu) ts)"
    "length acc \<le> MAX_TASK"
  shows "collect s cpu ts acc = Inl OutOfBounds"
  using assms by (induction ts arbitrary: acc) auto


definition crowded_state :: kst where
  "crowded_state = (boot_state [1..<102])\<lparr>task := (\<lambda>p. (init_task p)\<lparr>t_reserve :=
     init_reserve\<lparr>r_flag := 1, r_cpu := 0, r_C := millis 1, r_T := millis 200\<rparr>\<rparr>)\<rparr>"


text \<open>C12. \<^verbatim>\<open>sysclock_set_frequency\<close> applies the computed frequency to the policy of every processor
  that is online and run by the \<^verbatim>\<open>sysclock\<close> governor, and changes nothing else.\<close>

theorem sysclock_set_frequency_applies:
  assumes "sysclock_compute s = Inr freq"
  shows "\<exists>ret f. sysclock_set_frequency e s = Inr (ret, s\<lparr>cpu_cur_freq := f\<rparr>) \<and>
    (\<forall>p. f p = (if \<exists>c\<in>{0..3}. clock_target e s c = Some p then freq else cpu_cur_freq s p))"
  using set_frequency_loop_spec [OF assms, of e "[0, 1, 2, 3]" 0]
  unfolding sysclock_set_frequency_def by (simp add: four_cpus)

definition one_cpu_env :: kenv where
  "one_cpu_env = \<lparr>e_now = 0, e_resolution = 1, e_kmalloc = (\<lambda>_. True), e_kobject_create = (\<lambda>_. True),
     e_sysfs_create = (\<lambda>_. 0), e_setaffinity = (\<lambda>_ _. 0), e_cpu_up = (\<lambda>_. True), e_cpu_down = (\<lambda>_. True),
     e_cpufreq_get = (\<lambda>_. 1000000), e_cpufreq_policy = (\<lambda>_. Some (0, ''sysclock'')),
     e_driver_target = (\<lambda>_ _. 0)\<rparr>"

theorem sysclock_set_frequency_applies_witness:
  "\<exists>ret f. sysclock_set_frequency one_cpu_env (reserved_state [(1, 0, millis 1, millis 3)]) =
     Inr (ret, (reserved_state [(1, 0, millis 1, millis 3)])\<lparr>cpu_cur_freq := f\<rparr>) \<and> f 0 = 399000"
proof -
  have "sysclock_compute (reserved_state [(1, 0, millis 1, millis 3)]) = Inr 399000"
    "clock_target one_cpu_env (reserved_state [(1, 0, millis 1, millis 3)]) 0 = Some 0" by code_simp+
  with sysclock_set_frequency_applies [of "reserved_state [(1, 0, millis 1, millis 3)]" 399000 one_cpu_env]
  show ?thesis by (force simp: four_cpus)
qed

text \<open>C13. The governor counts the processors it runs: starting on an online processor records its
  frequency and adds one, stopping takes it back, and the frequency is set when all online processors
  use it.\<close>

theorem governor_start_stop:
  assumes "cpu_online s cpu" "0 \<le> cpus_using_sysclock_governor s" "cpus_using_sysclock_governor s < 4"
    and "\<forall>c\<in>{0..3}. clock_ok s c"
  shows "let c = cpus_using_sysclock_governor s;
      s' = s\<lparr>cpus_using_sysclock_governor := c + 1, cpu_cur_freq := (cpu_cur_freq s)(cpu := cur)\<rparr> in
    \<exists>s1. cpufreq_governor_sysclock e cpu cur CPUFREQ_GOV_START s = Inr (0, s1) \<and>
      (if c + 1 = num_online_cpus s then \<exists>ret. sysclock_set_frequency e s' = Inr (ret, s1) else s1 = s') \<and>
      cpus_using_sysclock_governor s1 = c + 1 \<and>
      cpufreq_governor_sysclock e cpu cur CPUFREQ_GOV_STOP s1 =
        Inr (0, s1\<lparr>cpus_using_sysclock_governor := c\<rparr>)"
proof -
  define c where "c = cpus_using_sysclock_governor s"
  define s' where "s' = s\<lparr>cpus_using_sysclock_governor := c + 1, cpu_cur_freq := (cpu_cur_freq s)(cpu := cur)\<rparr>"
  have s32: "s32 (cpus_using_sysclock_governor s + 1) = c + 1" "s32 (c + 1 - 1) = c"
    using assms by (simp_all add: s32_id c_def)
  have c: "cpus_using_sysclock_governor s' = c + 1" "num_online_cpus s' = num_online_cpus s"
    by (simp_all add: s'_def num_online_cpus_def)
  have "reserve s' = reserve s" by (rule ext) (simp add: reserve_def s'_def)
  then have "\<forall>c\<in>{0..3}. clock_ok s' c"
    using assms(4) by (simp add: clock_ok_def cpu_entries_def for_each_process_def s'_def)
  from sysclock_set_frequency_spec [OF this] obtain ret f where
    f: "sysclock_set_frequency e s' = Inr (ret, s'\<lparr>cpu_cur_freq := f\<rparr>)" by blast
  have start: "cpufreq_governor_sysclock e cpu cur CPUFREQ_GOV_START s =
      (if c + 1 = num_online_cpus s then Inr (0, s'\<lparr>cpu_cur_freq := f\<rparr>) else Inr (0, s'))"
    using assms(1) unfolding cpufreq_governor_sysclock_def s32(1) s'_def [symmetric] Let_def c
    by (simp add: f)
  have stop: "cpufreq_governor_sysclock e cpu cur CPUFREQ_GOV_STOP s1 = Inr (0, s1\<lparr>cpus_using_sysclock_governor := c\<rparr>)"
    if "cpus_using_sysclock_governor s1 = c + 1" for s1
    using that s32(2) by (simp add: cpufreq_governor_sysclock_def)
  show ?thesis unfolding Let_def c_def [symmetric] s'_def [symmetric]
  proof (cases "c + 1 = num_online_cpus s")
    case True
    show "\<exists>s1. cpufreq_governor_sysclock e cpu cur CPUFREQ_GOV_START s = Inr (0, s1) \<and>
      (if c + 1 = num_online_cpus s then \<exists>ret. sysclock_set_frequency e s' = Inr (ret, s1) else s1 = s') \<and>
      cpus_using_sysclock_governor s1 = c + 1 \<and>
      cpufreq_governor_sysclock e cpu cur CPUFREQ_GOV_STOP s1 = Inr (0, s1\<lparr>cpus_using_sysclock_governor := c\<rparr>)"
      using True start f c(1) by (intro exI [of _ "s'\<lparr>cpu_cur_freq := f\<rparr>"] conjI stop) auto
  next
    case False
    show "\<exists>s1. cpufreq_governor_sysclock e cpu cur CPUFREQ_GOV_START s = Inr (0, s1) \<and>
      (if c + 1 = num_online_cpus s then \<exists>ret. sysclock_set_frequency e s' = Inr (ret, s1) else s1 = s') \<and>
      cpus_using_sysclock_governor s1 = c + 1 \<and>
      cpufreq_governor_sysclock e cpu cur CPUFREQ_GOV_STOP s1 = Inr (0, s1\<lparr>cpus_using_sysclock_governor := c\<rparr>)"
      using False start c(1) by (intro exI [of _ s'] conjI stop) auto
  qed
qed

theorem governor_start_stop_witness:
  "\<exists>s1 s2. cpufreq_governor_sysclock one_cpu_env 1 1200000 CPUFREQ_GOV_START (boot_state []) = Inr (0, s1) \<and>
     cpufreq_governor_sysclock one_cpu_env 1 1200000 CPUFREQ_GOV_STOP s1 = Inr (0, s2) \<and>
     cpus_using_sysclock_governor s2 = 0"
proof -
  have h: "clock_ok (boot_state []) 0" "clock_ok (boot_state []) 1" "clock_ok (boot_state []) 2"
    "clock_ok (boot_state []) 3" "cpu_online (boot_state []) 1" "cpus_using_sysclock_governor (boot_state []) = 0"
    by code_simp+
  from governor_start_stop [of "boot_state []" 1 1200000 one_cpu_env] h obtain s1 where
    "cpufreq_governor_sysclock one_cpu_env 1 1200000 CPUFREQ_GOV_START (boot_state []) = Inr (0, s1)"
    "cpufreq_governor_sysclock one_cpu_env 1 1200000 CPUFREQ_GOV_STOP s1 =
       Inr (0, s1\<lparr>cpus_using_sysclock_governor := 0\<rparr>)"
    by (auto simp: ball_four Let_def)
  then show ?thesis by auto
qed

end
