(* ===== verification/Fmt.thy ===== *)
theory Fmt
  imports Prelude
begin

text \<open>
  The number conversions of \<^verbatim>\<open>lib/vsprintf.c\<close> that the program's sysfs files and device nodes are
  written and read with.
  \<^item> \<open>put_dec_trunc\<close>, \<open>put_dec_full\<close> and \<open>put_dec\<close> are the kernel's decimal conversion without
    division; they are shown to give the decimal digits of every number.
  \<^item> \<open>number\<close> is the whole conversion with its flags; what it prints, \<open>simple_strtol\<close> reads back.
  A string is its characters before the terminating NUL.
\<close>

unbundle bit_operations_syntax

section \<open>The code\<close>

subsection \<open>Characters\<close>

definition ord_c :: "char \<Rightarrow> int" where
  "ord_c c = of_char c"

definition chr_c :: "int \<Rightarrow> char" where
  "chr_c n = char_of n"

definition isdigit :: "char \<Rightarrow> bool" where
  "isdigit c \<longleftrightarrow> 48 \<le> ord_c c \<and> ord_c c \<le> 57"

definition tolower_c :: "char \<Rightarrow> char" where
  "tolower_c c = chr_c (ord_c c OR 32)"

definition isxdigit :: "char \<Rightarrow> bool" where
  "isxdigit c \<longleftrightarrow> isdigit c \<or> (65 \<le> ord_c c \<and> ord_c c \<le> 70) \<or> (97 \<le> ord_c c \<and> ord_c c \<le> 102)"

definition char_at :: "string \<Rightarrow> nat \<Rightarrow> char" where
  "char_at s i = (if i < length s then s ! i else CHR 0x00)"

subsection \<open>Reading numbers\<close>

definition simple_guess_base :: "string \<Rightarrow> int" where
  "simple_guess_base cp =
     (if char_at cp 0 = CHR ''0''
      then (if tolower_c (char_at cp 1) = CHR ''x'' \<and> isxdigit (char_at cp 2) then 16 else 8)
      else 10)"

fun strtoull_loop :: "int \<Rightarrow> string \<Rightarrow> int \<Rightarrow> int \<times> string" where
  "strtoull_loop base [] result = (result, [])"
| "strtoull_loop base (c # cp) result =
     (if isxdigit c then
        let value = (if isdigit c then ord_c c - 48 else ord_c (tolower_c c) - 97 + 10)
        in if value \<ge> base then (result, c # cp)
           else strtoull_loop base cp (u64 (result * base + value))
      else (result, c # cp))"

definition simple_strtoull :: "string \<Rightarrow> int \<Rightarrow> int \<times> string" where
  "simple_strtoull cp base =
     (let base = (if base = 0 then simple_guess_base cp else base);
          cp = (if base = 16 \<and> char_at cp 0 = CHR ''0'' \<and> tolower_c (char_at cp 1) = CHR ''x''
                then drop 2 cp else cp)
      in strtoull_loop base cp 0)"

definition simple_strtoul :: "string \<Rightarrow> int \<Rightarrow> int \<times> string" where
  "simple_strtoul cp base = (let (r, endp) = simple_strtoull cp base in (u32 r, endp))"

definition simple_strtol :: "string \<Rightarrow> int \<Rightarrow> int \<times> string" where
  "simple_strtol cp base =
     (if char_at cp 0 = CHR ''-''
      then (let (r, endp) = simple_strtoul (tl cp) base in (s32 (- r), endp))
      else (let (r, endp) = simple_strtoul cp base in (s32 r, endp)))"

subsection \<open>Printing numbers\<close>

definition dig :: "int \<Rightarrow> char" where
  "dig d = chr_c (d + 48)"

text \<open>The digits come out in reverse order, least significant first.\<close>

definition put_dec_trunc :: "int \<Rightarrow> string" where
  "put_dec_trunc q0 =
     (let d1 = drop_bit 4 q0 AND 15; d2 = drop_bit 8 q0 AND 15; d3 = drop_bit 12 q0;
          d0 = 6 * (d3 + d2 + d1) + (q0 AND 15);
          q = drop_bit 11 (d0 * 0xcd);
          d0 = d0 - 10 * q;
          d1 = q + 9 * d3 + 5 * d2 + d1
      in dig d0 #
        (if d1 = 0 then []
         else
           let q = drop_bit 11 (d1 * 0xcd);
               d1 = d1 - 10 * q;
               d2 = q + 2 * d2
           in dig d1 #
             (if d2 = 0 \<and> d3 = 0 then []
              else
                let q = drop_bit 7 (d2 * 0xd);
                    d2 = d2 - 10 * q;
                    d3 = q + 4 * d3
                in dig d2 #
                  (if d3 = 0 then []
                   else
                     let q = drop_bit 11 (d3 * 0xcd);
                         d3 = d3 - 10 * q
                     in dig d3 # (if q \<noteq> 0 then [dig q] else [])))))"

definition put_dec_full :: "int \<Rightarrow> string" where
  "put_dec_full q0 =
     (let d1 = drop_bit 4 q0 AND 15; d2 = drop_bit 8 q0 AND 15; d3 = drop_bit 12 q0;
          d0 = 6 * (d3 + d2 + d1) + (q0 AND 15);
          q = drop_bit 11 (d0 * 0xcd);
          d0 = d0 - 10 * q;
          d1 = q + 9 * d3 + 5 * d2 + d1;
          q = drop_bit 11 (d1 * 0xcd);
          d1 = d1 - 10 * q;
          d2 = q + 2 * d2;
          q = drop_bit 7 (d2 * 0xd);
          d2 = d2 - 10 * q;
          d3 = q + 4 * d3;
          q = drop_bit 11 (d3 * 0xcd);
          d3 = d3 - 10 * q
      in [dig d0, dig d1, dig d2, dig d3, dig q])"

function put_dec :: "int \<Rightarrow> string" where
  "put_dec num =
     (if num < 100000 then put_dec_trunc num
      else put_dec_full (num mod 100000) @ put_dec (num div 100000))"
  by pat_completeness auto
termination
  by (relation "measure nat") auto

declare put_dec.simps [simp del]

definition ZEROPAD :: int where "ZEROPAD = 1"
definition SIGN :: int where "SIGN = 2"
definition PLUS :: int where "PLUS = 4"
definition SPACE :: int where "SPACE = 8"
definition LEFT :: int where "LEFT = 16"
definition SMALL :: int where "SMALL = 32"
definition SPECIAL :: int where "SPECIAL = 64"

lemmas printf_flags = ZEROPAD_def SIGN_def PLUS_def SPACE_def LEFT_def SMALL_def SPECIAL_def

record printf_spec =
  ps_flags :: int
  ps_base :: int
  ps_field_width :: int
  ps_precision :: int

text \<open>\<^verbatim>\<open>while (--width >= 0)\<close> prints one character per round and leaves -1, or the decremented
  width if it prints nothing.\<close>

definition pad_loop :: "char \<Rightarrow> int \<Rightarrow> string \<times> int" where
  "pad_loop c width =
     (let w = s16 (width - 1) in if w \<ge> 0 then (replicate (nat (w + 1)) c, -1) else ([], w))"

function base_digits :: "int \<Rightarrow> nat \<Rightarrow> int \<Rightarrow> int \<Rightarrow> string" where
  "base_digits msk shift locase num =
     (let c = chr_c (ord_c (''0123456789ABCDEF'' ! nat (num AND 255 AND msk)) OR locase);
          num' = drop_bit shift num
      in if num' = 0 \<or> shift = 0 \<or> num \<le> 0 then [c] else c # base_digits msk shift locase num')"
  by pat_completeness auto
termination
proof (relation "measure (\<lambda>(_, _, _, num). nat num)", goal_cases)
  case (2 msk shift locase num c num')
  then have "0 < shift" "0 < num" by auto
  then have "num div 2 ^ shift < num"
    by (intro int_div_less_self) (simp_all add: one_less_power)
  with 2 \<open>0 < num\<close> show ?case by (simp add: drop_bit_eq_div)
qed simp

declare base_digits.simps [simp del]

definition number_sign :: "printf_spec \<Rightarrow> int \<Rightarrow> string \<times> int \<times> int" where
  "number_sign spec num =
     (let w = ps_field_width spec in
      if ps_flags spec AND SIGN \<noteq> 0 then
        (if s64 num < 0 then (''-'', u64 (- s64 num), s16 (w - 1))
         else if ps_flags spec AND PLUS \<noteq> 0 then (''+'', num, s16 (w - 1))
         else if ps_flags spec AND SPACE \<noteq> 0 then ('' '', num, s16 (w - 1))
         else ([], num, w))
      else ([], num, w))"

definition number_digits :: "printf_spec \<Rightarrow> int \<Rightarrow> string" where
  "number_digits spec num =
     (if num = 0 then ''0''
      else if ps_base spec \<noteq> 10
      then base_digits (ps_base spec - 1) (if ps_base spec = 16 then 4 else 3) (ps_flags spec AND SMALL) num
      else put_dec num)"

text \<open>The characters \<^verbatim>\<open>number\<close> produces; which of them land in the buffer is decided by its end.\<close>

definition number :: "printf_spec \<Rightarrow> int \<Rightarrow> string" where
  "number spec0 num =
     (let need_pfx = (ps_flags spec0 AND SPECIAL \<noteq> 0 \<and> ps_base spec0 \<noteq> 10);
          locase = ps_flags spec0 AND SMALL;
          left = (ps_flags spec0 AND LEFT \<noteq> 0);
          zeropad = (ps_flags spec0 AND ZEROPAD \<noteq> 0 \<and> \<not> left);
          (sign, num, width) = number_sign spec0 num;
          width = (if need_pfx then s16 (width - (if ps_base spec0 = 16 then 2 else 1)) else width);
          tmp = number_digits spec0 num;
          i = int (length tmp);
          precision = (if i > ps_precision spec0 then i else ps_precision spec0);
          width = s16 (width - precision);
          (pad1, width) = (if \<not> zeropad \<and> \<not> left then pad_loop CHR '' '' width else ([], width));
          pfx = (if need_pfx then CHR ''0'' #
                   (if ps_base spec0 = 16 then [chr_c (88 OR locase)] else []) else []);
          (pad2, width) = (if \<not> left then pad_loop (if zeropad then CHR ''0'' else CHR '' '') width
                           else ([], width));
          zeros = replicate (nat (precision - i)) CHR ''0'';
          (pad3, width) = pad_loop CHR '' '' width
      in pad1 @ sign @ pfx @ pad2 @ zeros @ rev tmp @ pad3)"

text \<open>The conversions the program uses: \<^verbatim>\<open>%d\<close> and the unsigned \<^verbatim>\<open>%u\<close>, \<^verbatim>\<open>%lu\<close>, \<^verbatim>\<open>%llu\<close>, with no
  flags, width or precision.\<close>

definition fmt_d :: "int \<Rightarrow> string" where
  "fmt_d n = number \<lparr>ps_flags = SIGN, ps_base = 10, ps_field_width = -1, ps_precision = -1\<rparr> (u64 n)"

definition fmt_u :: "int \<Rightarrow> string" where
  "fmt_u n = number \<lparr>ps_flags = 0, ps_base = 10, ps_field_width = -1, ps_precision = -1\<rparr> n"

text \<open>\<^verbatim>\<open>snprintf\<close> stores at most \<^verbatim>\<open>size - 1\<close> characters and returns the length of the whole text;
  \<^verbatim>\<open>scnprintf\<close> returns the number stored.\<close>

definition snprintf :: "int \<Rightarrow> string \<Rightarrow> int \<times> string" where
  "snprintf sz str = (int (length str), take (nat (sz - 1)) str)"

definition scnprintf :: "int \<Rightarrow> string \<Rightarrow> int \<times> string" where
  "scnprintf sz str =
     (let (i, stored) = snprintf sz str
      in (if i < sz then i else if sz \<noteq> 0 then sz - 1 else 0, stored))"

section \<open>Decimal digits\<close>

text \<open>The reference: the decimal digits of a number, least significant first.\<close>

function dec_digits :: "int \<Rightarrow> string" where
  "dec_digits n = (if n < 10 then [dig n] else dig (n mod 10) # dec_digits (n div 10))"
  by pat_completeness auto
termination
  by (relation "measure nat") auto

declare dec_digits.simps [simp del]

definition decimal :: "int \<Rightarrow> string" where
  "decimal n = rev (dec_digits n)"

text \<open>Multiplying and shifting is division by ten on the values that occur.\<close>

lemma mul_cd:
  assumes "0 \<le> x" "x \<le> 340"
  shows "drop_bit 11 (x * 205) = (x::int) div 10"
proof -
  have "x * 205 = 2048 * (x div 10) + (2 * (x div 10) + 205 * (x mod 10))"
    using div_mult_mod_eq [of x 10] by linarith
  moreover have "0 \<le> x div 10" "x div 10 \<le> 34" "0 \<le> x mod 10" "x mod 10 \<le> 9" using assms by auto
  ultimately have "x * 205 div 2048 = x div 10"
    by (intro int_div_pos_eq [of _ _ _ "2 * (x div 10) + 205 * (x mod 10)"]) linarith+
  then show ?thesis by (simp add: drop_bit_eq_div)
qed

lemma mul_d:
  assumes "0 \<le> x" "x \<le> 68"
  shows "drop_bit 7 (x * 13) = (x::int) div 10"
proof -
  have "x * 13 = 128 * (x div 10) + (2 * (x div 10) + 13 * (x mod 10))"
    using div_mult_mod_eq [of x 10] by linarith
  moreover have "0 \<le> x div 10" "0 \<le> x mod 10" "x mod 10 \<le> 9" using assms by auto
  moreover have "2 * (x div 10) + 13 * (x mod 10) < 128"
    using calculation(3,4) div_mult_mod_eq [of x 10] assms(2) by (cases "x div 10 \<le> 5") linarith+
  ultimately have "x * 13 div 128 = x div 10"
    by (intro int_div_pos_eq [of _ _ _ "2 * (x div 10) + 13 * (x mod 10)"]) linarith+
  then show ?thesis by (simp add: drop_bit_eq_div)
qed

lemma nibbles:
  fixes q :: int
  assumes "0 \<le> q" "q < 100000"
  obtains n0 n1 n2 n3 where "q = n0 + 16 * n1 + 256 * n2 + 4096 * n3"
    "q AND 15 = n0" "drop_bit 4 q AND 15 = n1" "drop_bit 8 q AND 15 = n2" "drop_bit 12 q = n3"
    "0 \<le> n0" "n0 \<le> 15" "0 \<le> n1" "n1 \<le> 15" "0 \<le> n2" "n2 \<le> 15" "0 \<le> n3" "n3 \<le> 24"
proof
  have m: "x AND 15 = x mod 16" for x :: int
    using take_bit_eq_mask [of 4 x] by (simp add: take_bit_eq_mod mask_eq_exp_minus_1)
  show "q AND 15 = q mod 16" "drop_bit 4 q AND 15 = q div 16 mod 16"
    "drop_bit 8 q AND 15 = q div 256 mod 16" "drop_bit 12 q = q div 4096"
    by (simp_all add: m drop_bit_eq_div)
  show "q = q mod 16 + 16 * (q div 16 mod 16) + 256 * (q div 256 mod 16) + 4096 * (q div 4096)"
  proof -
    have "q = 16 * (q div 16) + q mod 16" by simp
    moreover have "q div 16 = 16 * (q div 256) + q div 16 mod 16"
      using zdiv_zmult2_eq [of 16 q 16] by simp
    moreover have "q div 256 = 16 * (q div 4096) + q div 256 mod 16"
      using zdiv_zmult2_eq [of 16 q 256] by simp
    ultimately show ?thesis by linarith
  qed
qed (use assms in \<open>simp_all add: pos_mod_bound\<close>)

lemma dec_digits_step: "10 \<le> n \<Longrightarrow> dec_digits n = dig (n mod 10) # dec_digits (n div 10)"
  by (subst dec_digits.simps) simp

lemma dec_digits_small: "n < 10 \<Longrightarrow> dec_digits n = [dig n]"
  by (subst dec_digits.simps) simp

lemma dec_digits_if:
  assumes "0 \<le> n"
  shows "dec_digits n = dig (n mod 10) # (if n div 10 = 0 then [] else dec_digits (n div 10))"
proof (cases "n < 10")
  case True
  with assms show ?thesis by (simp add: dec_digits_small)
next
  case False
  then have "n div 10 \<noteq> 0" by linarith
  with False show ?thesis by (simp add: dec_digits_step)
qed

lemma ten_split:
  fixes q d r :: int
  assumes "q = d + 10 * r"
  shows "q mod 10 = d mod 10" "q div 10 = d div 10 + r"
  unfolding assms by simp_all

text \<open>The digits of the code, for a number given by its nibbles: after each digit the rest of the
  number is the next value.\<close>

lemma put_dec_values:
  fixes n0 n1 n2 n3 :: int
  assumes q: "q = n0 + 16 * n1 + 256 * n2 + 4096 * n3"
    and n: "0 \<le> n0" "n0 \<le> 15" "0 \<le> n1" "n1 \<le> 15" "0 \<le> n2" "n2 \<le> 15" "0 \<le> n3" "n3 \<le> 24"
  defines "d0 \<equiv> 6 * (n3 + n2 + n1) + n0"
  defines "d1 \<equiv> d0 div 10 + 9 * n3 + 5 * n2 + n1"
  defines "d2 \<equiv> d1 div 10 + 2 * n2"
  defines "d3 \<equiv> d2 div 10 + 4 * n3"
  shows "0 \<le> d0" "d0 \<le> 340" "0 \<le> d1" "d1 \<le> 340" "0 \<le> d2" "d2 \<le> 68" "0 \<le> d3" "d3 \<le> 340"
    and "q mod 10 = d0 mod 10" "q div 10 = d1 + 10 * (2 * n2) + 100 * (4 * n3)"
    and "q div 10 mod 10 = d1 mod 10" "q div 100 = d2 + 10 * (4 * n3)"
    and "q div 100 mod 10 = d2 mod 10" "q div 1000 = d3"
proof -
  show d0: "0 \<le> d0" "d0 \<le> 340" using n by (simp_all add: d0_def)
  then have "0 \<le> d0 div 10" "d0 div 10 \<le> 34" by linarith+
  then show d1: "0 \<le> d1" "d1 \<le> 340" using n by (simp_all add: d1_def)
  then have "0 \<le> d1 div 10" "d1 div 10 \<le> 34" by linarith+
  then show d2: "0 \<le> d2" "d2 \<le> 68" using n by (simp_all add: d2_def)
  then have "0 \<le> d2 div 10" "d2 div 10 \<le> 6" by linarith+
  then show "0 \<le> d3" "d3 \<le> 340" using n by (simp_all add: d3_def)
  have q0: "q = d0 + 10 * (9 * n3 + 5 * n2 + n1 + 10 * (2 * n2 + 10 * (4 * n3)))"
    unfolding q d0_def by simp
  show "q mod 10 = d0 mod 10" by (rule ten_split(1) [OF q0])
  have q1: "q div 10 = d1 + 10 * (2 * n2 + 10 * (4 * n3))" using ten_split(2) [OF q0] unfolding d1_def by simp
  then show "q div 10 = d1 + 10 * (2 * n2) + 100 * (4 * n3)" by simp
  show "q div 10 mod 10 = d1 mod 10" by (rule ten_split(1) [OF q1])
  show q2: "q div 100 = d2 + 10 * (4 * n3)"
    using ten_split(2) [OF q1] zdiv_zmult2_eq [of 10 q 10] unfolding d2_def by simp
  show "q div 100 mod 10 = d2 mod 10" by (rule ten_split(1) [OF q2])
  show "q div 1000 = d3"
    using ten_split(2) [OF q2] zdiv_zmult2_eq [of 10 q 100] unfolding d3_def by simp
qed

lemma put_dec_full_eq:
  assumes "0 \<le> q" "q < 100000"
  shows "put_dec_full q =
    [dig (q mod 10), dig (q div 10 mod 10), dig (q div 100 mod 10), dig (q div 1000 mod 10), dig (q div 10000)]"
proof -
  from nibbles [OF assms] obtain n0 n1 n2 n3 where nb: "q = n0 + 16 * n1 + 256 * n2 + 4096 * n3"
    and bits: "q AND 15 = n0" "drop_bit 4 q AND 15 = n1" "drop_bit 8 q AND 15 = n2" "drop_bit 12 q = n3"
    and n: "0 \<le> n0" "n0 \<le> 15" "0 \<le> n1" "n1 \<le> 15" "0 \<le> n2" "n2 \<le> 15" "0 \<le> n3" "n3 \<le> 24" .
  note v = put_dec_values [OF nb n]
  show ?thesis
    unfolding put_dec_full_def bits Let_def mul_cd [OF v(1,2)] mul_cd [OF v(3,4)] mul_d [OF v(5,6)] mul_cd [OF v(7,8)]
    by (simp add: v(9,11,13) minus_mult_div_eq_mod zdiv_zmult2_eq [of 10 q 1000, simplified] v(14))
qed


lemma put_dec_trunc_eq:
  assumes "0 \<le> q" "q < 100000"
  shows "put_dec_trunc q = dec_digits q"
proof -
  from nibbles [OF assms] obtain n0 n1 n2 n3 where nb: "q = n0 + 16 * n1 + 256 * n2 + 4096 * n3"
    and bits: "q AND 15 = n0" "drop_bit 4 q AND 15 = n1" "drop_bit 8 q AND 15 = n2" "drop_bit 12 q = n3"
    and n: "0 \<le> n0" "n0 \<le> 15" "0 \<le> n1" "n1 \<le> 15" "0 \<le> n2" "n2 \<le> 15" "0 \<le> n3" "n3 \<le> 24" .
  note v = put_dec_values [OF nb n]
  define d1 where "d1 = (6 * (n3 + n2 + n1) + n0) div 10 + 9 * n3 + 5 * n2 + n1"
  define d2 where "d2 = d1 div 10 + 2 * n2"
  define d3 where "d3 = d2 div 10 + 4 * n3"
  note vv = v [folded d1_def, folded d2_def, folded d3_def]
  have "0 \<le> (6 * (n3 + n2 + n1) + n0) div 10" using v(1) by linarith
  then have d1: "9 * n3 + 5 * n2 \<le> d1" using n unfolding d1_def by linarith
  have w: "q div 10 = d1 + 20 * n2 + 400 * n3" "q div 100 = d2 + 40 * n3" "q div 1000 = d3" "0 \<le> d2"
    using vv(5,10,12,14) by linarith+
  have c: "d1 = 0 \<longleftrightarrow> q div 10 = 0" "d2 = 0 \<and> n3 = 0 \<longleftrightarrow> q div 100 = 0" "d3 = 0 \<longleftrightarrow> q div 1000 = 0"
    using w d1 n by linarith+
  have zd: "q div 1000 div 10 = q div 10000" using zdiv_zmult2_eq [of 10 q 1000] by simp
  have zm: "q div 1000 - 10 * (q div 10000) = q div 1000 mod 10"
    unfolding zd [symmetric] by (rule minus_mult_div_eq_mod)
  have "put_dec_trunc q = dig (q mod 10) # (if q div 10 = 0 then [] else dig (q div 10 mod 10) #
      (if q div 100 = 0 then [] else dig (q div 100 mod 10) # (if q div 1000 = 0 then []
       else dig (q div 1000 mod 10) # (if q div 10000 \<noteq> 0 then [dig (q div 10000)] else []))))"
    unfolding put_dec_trunc_def bits Let_def mul_cd [OF v(1,2)] mul_cd [OF v(3,4)] mul_d [OF v(5,6)] mul_cd [OF v(7,8)]
    unfolding d1_def [symmetric] d2_def [symmetric] d3_def [symmetric] c
    unfolding minus_mult_div_eq_mod vv(9,11,13,14) [symmetric] zd zm by (rule refl)
  also have "\<dots> = dec_digits q"
  proof -
    have t: "q div 10 div 10 = q div 100" "q div 100 div 10 = q div 1000" "q div 1000 div 10 = q div 10000"
      using zdiv_zmult2_eq [of 10 q 10] zdiv_zmult2_eq [of 10 q 100] zdiv_zmult2_eq [of 10 q 1000] by simp_all
    have nn: "0 \<le> q div 10" "0 \<le> q div 100" "0 \<le> q div 1000" "q div 10000 < 10" using assms by linarith+
    have a1: "dec_digits (q div 10) = dig (q div 10 mod 10) # (if q div 100 = 0 then [] else dec_digits (q div 100))"
      unfolding dec_digits_if [OF nn(1)] t by (rule refl)
    have a2: "dec_digits (q div 100) = dig (q div 100 mod 10) # (if q div 1000 = 0 then [] else dec_digits (q div 1000))"
      unfolding dec_digits_if [OF nn(2)] t by (rule refl)
    have a3: "dec_digits (q div 1000) =
        dig (q div 1000 mod 10) # (if q div 10000 \<noteq> 0 then [dig (q div 10000)] else [])"
      unfolding dec_digits_if [OF nn(3)] t dec_digits_small [OF nn(4)]
      by (cases "q div 10000 = 0") (simp_all only: if_True if_False simp_thms)
    show ?thesis unfolding dec_digits_if [OF assms(1)] a1 a2 a3 by (rule refl)
  qed
  finally show ?thesis .
qed

lemma mod_div_shift: "d = b * c \<Longrightarrow> 0 < b \<Longrightarrow> 0 < c \<Longrightarrow> n mod d div b = n div b mod (c :: int)"
  by (simp add: zmod_zmult2_eq)

lemma mod_cancel_tens: "d = 10 * c \<Longrightarrow> n mod d mod 10 = n mod (10 :: int)"
  by (simp add: mod_mod_cancel)

lemma put_dec_eq: "0 \<le> n \<Longrightarrow> put_dec n = dec_digits n"
proof (induction n rule: put_dec.induct)
  case (1 n)
  show ?case
  proof (cases "n < 100000")
    case True
    with 1 show ?thesis by (subst put_dec.simps) (simp add: put_dec_trunc_eq)
  next
    case False
    let ?r = "n mod 100000"
    have q: "n div 10 div 10 = n div 100" "n div 100 div 10 = n div 1000" "n div 1000 div 10 = n div 10000"
      "n div 10000 div 10 = n div 100000"
      by (simp_all flip: zdiv_zmult2_eq)
    have s: "?r div 10 = n div 10 mod 10000" "?r div 100 = n div 100 mod 1000"
      "?r div 1000 = n div 1000 mod 100" "?r div 10000 = n div 10000 mod 10"
      by (rule mod_div_shift; simp)+
    have r: "?r mod 10 = n mod 10" "?r div 10 mod 10 = n div 10 mod 10" "?r div 100 mod 10 = n div 100 mod 10"
      "?r div 1000 mod 10 = n div 1000 mod 10"
      unfolding s by (rule mod_cancel_tens [of _ 10000]; simp; fail | rule mod_cancel_tens [of _ 1000]; simp; fail
          | rule mod_cancel_tens [of _ 100]; simp; fail | rule mod_cancel_tens [of _ 10]; simp; fail)+
    have ge: "10 \<le> n" "10 \<le> n div 10" "10 \<le> n div 100" "10 \<le> n div 1000" "10 \<le> n div 10000"
      using False by linarith+
    have "dec_digits n = put_dec_full ?r @ dec_digits (n div 100000)"
      unfolding dec_digits_step [OF ge(1)] dec_digits_step [OF ge(2)] q(1) dec_digits_step [OF ge(3)] q(2)
        dec_digits_step [OF ge(4)] q(3) dec_digits_step [OF ge(5)] q(4)
      using put_dec_full_eq [of ?r] unfolding r s(4) by simp
    with 1 False show ?thesis by (subst put_dec.simps) (simp add: pos_imp_zdiv_nonneg_iff)
  qed
qed

lemma dig_0: "dig 0 = CHR ''0''"
  by code_simp

lemma dec_digits_nonempty: "dec_digits n \<noteq> []"
  by (subst dec_digits.simps) simp

lemma pad_loop_none: "- 32767 \<le> w \<Longrightarrow> w \<le> 0 \<Longrightarrow> fst (pad_loop c w) = [] \<and> snd (pad_loop c w) = w - 1"
  by (simp add: pad_loop_def Let_def s16_id)

lemma length_dec_digits: "0 \<le> n \<Longrightarrow> n < 10 ^ k \<Longrightarrow> 0 < k \<Longrightarrow> length (dec_digits n) \<le> k"
proof (induction n arbitrary: k rule: dec_digits.induct)
  case (1 n)
  show ?case
  proof (cases "n < 10")
    case True
    with 1 show ?thesis by (simp add: dec_digits_small)
  next
    case False
    with 1 obtain j where k: "k = Suc j" "0 < j"
      by (metis Suc_pred gr0I not_less power_0 power_one_right power_Suc One_nat_def)
    have "n div 10 < 10 ^ j" using 1(3) k by simp
    with 1(1) [OF False, of j] 1(2) k False show ?thesis
      by (simp add: dec_digits_step pos_imp_zdiv_nonneg_iff)
  qed
qed

text \<open>With the default specification, \<^verbatim>\<open>number\<close> prints the sign and the decimal digits.\<close>

lemma number_default:
  assumes "0 \<le> n" "n < 10 ^ 20" "fl = 0 \<or> fl = SIGN \<and> n < 2 ^ 63"
  shows "number \<lparr>ps_flags = fl, ps_base = 10, ps_field_width = -1, ps_precision = -1\<rparr> n = decimal n"
proof -
  have d: "number_digits \<lparr>ps_flags = fl, ps_base = 10, ps_field_width = -1, ps_precision = -1\<rparr> n = dec_digits n"
    using assms(1) by (simp add: number_digits_def put_dec_eq dec_digits_small dig_0)
  have len: "0 < int (length (dec_digits n))" "int (length (dec_digits n)) \<le> 20"
    using length_dec_digits [OF assms(1,2)] dec_digits_nonempty [of n] by simp_all
  have w: "s16 (- 1 - int (length (dec_digits n))) = - 1 - int (length (dec_digits n))"
    using len by (simp add: s16_id)
  have s: "number_sign \<lparr>ps_flags = fl, ps_base = 10, ps_field_width = -1, ps_precision = -1\<rparr> n = ([], n, -1)"
    using assms by (auto simp: number_sign_def printf_flags s64_id)
  have p: "pad_loop c x = ([], x - 1)" if "- 100 \<le> x" "x \<le> 0" for c x
    using pad_loop_none [of x c] that by (simp add: prod_eq_iff)
  show ?thesis
    unfolding number_def s using len w assms(3) d
    by (auto simp: Let_def printf_flags p decimal_def)
qed

lemma fmt_u_decimal: "0 \<le> n \<Longrightarrow> n < 2 ^ 64 \<Longrightarrow> fmt_u n = decimal n"
  unfolding fmt_u_def by (intro number_default) simp_all

lemma fmt_d_decimal: "0 \<le> n \<Longrightarrow> n < 2 ^ 31 \<Longrightarrow> fmt_d n = decimal n"
  unfolding fmt_d_def by (subst u64_id) (simp_all add: number_default)

lemma fmt_d_negative:
  assumes "n < 0" "- (2 ^ 31) \<le> n"
  shows "fmt_d n = CHR ''-'' # decimal (- n)"
proof -
  let ?sp = "\<lparr>ps_flags = SIGN, ps_base = 10, ps_field_width = -1, ps_precision = -1\<rparr> :: printf_spec"
  let ?l = "int (length (dec_digits (- n)))"
  have d: "number_digits ?sp (- n) = dec_digits (- n)"
    using assms by (simp add: number_digits_def put_dec_eq)
  have len: "0 < ?l" "?l \<le> 20"
    using length_dec_digits [of "- n" 20] assms dec_digits_nonempty [of "- n"] by simp_all
  have w: "s16 (- 2 - ?l) = - 2 - ?l" using len by (simp add: s16_id)
  have "(n + 2 ^ 64) mod 2 ^ 64 = n + 2 ^ 64" using assms by (intro mod_pos_pos_trivial) simp_all
  then have u: "u64 n = n + 2 ^ 64" "u64 (- n) = - n"
    using assms by (simp_all add: u64_def)
  have "(n + 2 ^ 63) mod 2 ^ 64 = n + 2 ^ 63" using assms by (intro mod_pos_pos_trivial) simp_all
  then have "(n + 2 ^ 63 + 2 ^ 64) mod 2 ^ 64 = n + 2 ^ 63" unfolding mod_add_self2 .
  then have "s64 (n + 2 ^ 64) = n" by (simp add: s64_def algebra_simps)
  then have s: "number_sign ?sp (u64 n) = (''-'', - n, -2)"
    using assms u by (simp add: number_sign_def printf_flags s16_id)
  have p: "pad_loop c x = ([], x - 1)" if "- 100 \<le> x" "x \<le> 0" for c x
    using pad_loop_none [of x c] that by (simp add: prod_eq_iff)
  show ?thesis
    unfolding fmt_d_def number_def s using len w d
    by (auto simp: Let_def printf_flags p decimal_def)
qed

section \<open>Reading back\<close>

lemma ord_dig: "0 \<le> d \<Longrightarrow> d \<le> 9 \<Longrightarrow> ord_c (dig d) = d + 48"
  by (simp add: ord_c_def dig_def chr_c_def take_bit_int_eq_self)

lemma isdigit_dig: "0 \<le> d \<Longrightarrow> d \<le> 9 \<Longrightarrow> isdigit (dig d)"
  by (simp add: isdigit_def ord_dig)

lemma dec_digits_all: "0 \<le> n \<Longrightarrow> \<forall>c\<in>set (dec_digits n). \<exists>d. c = dig d \<and> 0 \<le> d \<and> d \<le> 9"
proof (induction n rule: dec_digits.induct)
  case (1 n)
  have "0 \<le> n mod 10" "n mod 10 \<le> 9" by simp_all
  with 1 show ?case by (subst dec_digits.simps) (auto simp: pos_imp_zdiv_nonneg_iff)
qed

text \<open>The value of a digit string.\<close>

definition dec_value :: "int \<Rightarrow> string \<Rightarrow> int" where
  "dec_value a s = fold (\<lambda>c v. 10 * v + (ord_c c - 48)) s a"

lemma dec_value_decimal: "0 \<le> n \<Longrightarrow> dec_value 0 (decimal n) = n"
proof (induction n rule: dec_digits.induct)
  case (1 n)
  have "ord_c (dig (n mod 10)) = n mod 10 + 48" by (rule ord_dig) simp_all
  with 1 show ?case
    by (cases "n < 10") (auto simp: decimal_def dec_value_def dec_digits_small dec_digits_step ord_dig
        pos_imp_zdiv_nonneg_iff)
qed

lemma dec_value_mono: "0 \<le> a \<Longrightarrow> \<forall>c\<in>set s. isdigit c \<Longrightarrow> a \<le> dec_value a s"
proof (induction s arbitrary: a)
  case (Cons c s)
  then have "10 * a + (ord_c c - 48) \<le> dec_value (10 * a + (ord_c c - 48)) s"
    by (intro Cons.IH) (auto simp: isdigit_def)
  with Cons.prems show ?case by (auto simp: dec_value_def isdigit_def)
qed (simp add: dec_value_def)

text \<open>A number ends where no digit, not even a hexadecimal one, follows.\<close>

definition number_ends :: "string \<Rightarrow> bool" where
  "number_ends rest \<longleftrightarrow> rest = [] \<or> \<not> isxdigit (hd rest)"

lemma strtoull_loop_dec:
  assumes "\<forall>c\<in>set s. isdigit c" "0 \<le> a" "dec_value a s < 2 ^ 64" "number_ends rest"
  shows "strtoull_loop 10 (s @ rest) a = (dec_value a s, rest)"
  using assms
proof (induction s arbitrary: a)
  case (Cons c s)
  let ?a = "a * 10 + (ord_c c - 48)"
  have c: "isdigit c" "48 \<le> ord_c c" "ord_c c \<le> 57" using Cons.prems by (auto simp: isdigit_def)
  have dv: "dec_value a (c # s) = dec_value ?a s" by (simp add: dec_value_def mult.commute)
  have "0 \<le> ?a" "?a \<le> dec_value ?a s"
    using Cons.prems c by (auto intro!: dec_value_mono)
  moreover from this have "u64 ?a = ?a" using Cons.prems(3) unfolding dv by (intro u64_id) auto
  ultimately show ?case
    using Cons.IH [of ?a] Cons.prems c unfolding dv by (simp add: isxdigit_def)
qed (cases rest; simp add: dec_value_def number_ends_def)

lemma isdigit_decimal: "0 \<le> n \<Longrightarrow> c \<in> set (decimal n) \<Longrightarrow> isdigit c"
  using dec_digits_all [of n] isdigit_dig by (auto simp: decimal_def)

lemma strtoul_decimal:
  assumes "0 \<le> n" "n < 2 ^ 32" "number_ends rest"
  shows "simple_strtoul (decimal n @ rest) 10 = (n, rest)"
proof -
  have "strtoull_loop 10 (decimal n @ rest) 0 = (n, rest)"
    using strtoull_loop_dec [of "decimal n" 0 rest] isdigit_decimal [OF assms(1)] dec_value_decimal [OF assms(1)] assms
    by simp
  with assms show ?thesis by (simp add: simple_strtoul_def simple_strtoull_def u32_id)
qed

lemma decimal_first:
  assumes "0 \<le> n"
  shows "isdigit (char_at (decimal n @ rest) 0)"
proof -
  have "decimal n \<noteq> []" using dec_digits_nonempty by (simp add: decimal_def)
  then show ?thesis using isdigit_decimal [OF assms, of "decimal n ! 0"] by (simp add: char_at_def nth_append)
qed

lemma isdigit_not_minus: "isdigit c \<Longrightarrow> c \<noteq> CHR ''-''"
  by (auto simp: isdigit_def ord_c_def)

lemma strtol_decimal:
  assumes "0 \<le> n" "n < 2 ^ 31" "number_ends rest"
  shows "simple_strtol (decimal n @ rest) 10 = (n, rest)"
  using strtoul_decimal [of n rest] isdigit_not_minus [OF decimal_first [of n rest]] assms
  by (simp add: simple_strtol_def s32_id)

lemma strtol_fmt_d:
  assumes "- (2 ^ 31) \<le> n" "n < 2 ^ 31" "number_ends rest"
  shows "simple_strtol (fmt_d n @ rest) 10 = (n, rest)"
proof (cases "0 \<le> n")
  case True
  with assms show ?thesis by (simp add: fmt_d_decimal strtol_decimal)
next
  case False
  with assms have "simple_strtoul (decimal (- n) @ rest) 10 = (- n, rest)" by (intro strtoul_decimal) simp_all
  with False assms show ?thesis by (simp add: fmt_d_negative simple_strtol_def char_at_def s32_id)
qed

lemma length_decimal: "0 \<le> n \<Longrightarrow> n < 10 ^ k \<Longrightarrow> 0 < k \<Longrightarrow> length (decimal n) \<le> k"
  using length_dec_digits by (simp add: decimal_def)

section \<open>Properties\<close>

text \<open>C14. The kernel's decimal conversion, which works on nibbles with multiplications and shifts
  instead of divisions, gives exactly the decimal digits of every number, without leading zeros.\<close>

theorem put_dec_correct:
  assumes "0 \<le> n"
  shows "rev (put_dec n) = decimal n"
  using assms by (simp add: put_dec_eq decimal_def)

theorem put_dec_correct_witness: "rev (put_dec 1234567) = decimal 1234567 \<and> decimal 1234567 = ''1234567''"
proof -
  have "decimal 1234567 = ''1234567''" by code_simp
  with put_dec_correct [of 1234567] show ?thesis by simp
qed

text \<open>C15. Reading a 32-bit number printed with \<^verbatim>\<open>%d\<close> gives the number back and stops where the text that follows
  it begins; this is how a file name is turned into the thread it belongs to.\<close>

theorem strtol_reads_fmt_d:
  assumes "- (2 ^ 31) \<le> n" "n < 2 ^ 31" "number_ends rest"
  shows "simple_strtol (fmt_d n @ rest) 10 = (n, rest)"
  using assms by (rule strtol_fmt_d)

theorem strtol_reads_fmt_d_witness: "simple_strtol (fmt_d (- 32767) @ '' ms'') 10 = (- 32767, '' ms'')"
  using strtol_reads_fmt_d [of "- 32767" "'' ms''"] by (simp add: number_ends_def isxdigit_def isdigit_def ord_c_def)

end
