(* ===== verification/Reserve.thy ===== *)
theory Reserve
  imports Sysclock Fmt
begin

text \<open>
  The system calls of \<^verbatim>\<open>rtes/kernel/reserve.c\<close>: \<^verbatim>\<open>set_reserve\<close>, \<^verbatim>\<open>cancel_reserve\<close> and
  \<^verbatim>\<open>end_job\<close>.
  \<^item> \<^verbatim>\<open>set_reserve\<close> is one definition per stage: conversion of the arguments, taking the task out of
    its old array, binding, affinity, hotplug, timers, sysfs files.
  \<^item> An error return is a value \<open>Inr (code, s)\<close>; a fault is \<open>Inl\<close>.
\<close>

section \<open>The code\<close>

subsection \<open>\<^verbatim>\<open>set_reserve\<close>: arguments and binding\<close>

definition to_millis :: "timespec \<Rightarrow> int" where
  "to_millis ts = s32 (s32 (tv_sec ts * 1000) + tv_nsec ts sdiv 1000000)"

definition reserve_util :: "int \<Rightarrow> int \<Rightarrow> int res" where
  "reserve_util computation_time period = c_div (s32 (computation_time * UTIL_MULTIPLE)) period"

definition set_numbers :: "tptr \<Rightarrow> int \<Rightarrow> int \<Rightarrow> int \<Rightarrow> kst \<Rightarrow> kst" where
  "set_numbers t util period budget =
     upd_reserve t (\<lambda>r. r\<lparr>r_util := util, r_period := period, r_budget := budget\<rparr>)"

text \<open>Taking a task out when its reservation is revised: the array is that of the new processor,
  the length and the utilization those of the old one.\<close>

definition revise_unbind :: "kst \<Rightarrow> tptr \<Rightarrow> int \<Rightarrow> int \<Rightarrow> int \<Rightarrow> kst res" where
  "revise_unbind s t cpuid old_cpuid old_util =
     (if old_cpuid < 0 \<or> 3 < old_cpuid then Inl OutOfBounds
      else
        let len = cpu_tasks_length s old_cpuid in
        if (cpuid < 0 \<or> 3 < cpuid) \<and> 0 < len then Inl OutOfBounds
        else
          let i = find_pos (cpu_tasks s cpuid) t 0 len
          in Inr (s\<lparr>cpu_tasks := (cpu_tasks s)(cpuid := shift_down (cpu_tasks s cpuid) i len),
                    cpu_tasks_length := (cpu_tasks_length s)(old_cpuid := len - 1),
                    cpu_util := (cpu_util s)(old_cpuid := s32 (cpu_util s old_cpuid - old_util))\<rparr>))"

definition revise_bind :: "kst \<Rightarrow> tptr \<Rightarrow> int \<Rightarrow> (int \<times> int \<times> kst) res" where
  "revise_bind s t cpuid =
     (if cpuid = -1
      then bindR (partition_bind s t (lastCpuID_revise s)) (\<lambda>(r, c, l, s1).
             Inr (r, c, s1\<lparr>lastCpuID_revise := l\<rparr>))
      else bindR (try_bind s t cpuid) (\<lambda>(r, s1). Inr (r, cpuid, s1)))"

definition create_bind :: "kst \<Rightarrow> tptr \<Rightarrow> int \<Rightarrow> (int \<times> int \<times> kst) res" where
  "create_bind s t cpuid =
     (if cpuid = -1
      then bindR (partition_bind s t (lastCpuID_create s)) (\<lambda>(r, c, l, s1).
             Inr (r, c, s1\<lparr>lastCpuID_create := l\<rparr>))
      else bindR (try_bind s t cpuid) (\<lambda>(r, s1). Inr (r, cpuid, s1)))"

text \<open>Putting the old numbers back and the task into its old array; the result of \<^verbatim>\<open>try_bind\<close> is
  ignored.\<close>

definition put_back :: "tptr \<Rightarrow> reserve_t \<Rightarrow> kst \<Rightarrow> kst res" where
  "put_back t old s =
     bindR (try_bind (set_numbers t (r_util old) (r_period old) (r_budget old) s) t (r_cpu old))
       (\<lambda>(_, s1). Inr s1)"

definition bind_task :: "kst \<Rightarrow> tptr \<Rightarrow> int \<Rightarrow> int \<Rightarrow> int \<Rightarrow> int \<Rightarrow> (int \<times> int \<times> kst) res" where
  "bind_task s t cpuid util period budget =
     (let old = reserve s t; s1 = set_numbers t util period budget s in
      if r_flag old \<noteq> 0
      then bindR (revise_unbind s1 t cpuid (r_cpu old) (r_util old)) (\<lambda>s2.
           bindR (revise_bind s2 t cpuid) (\<lambda>(r, c, s3).
             if r \<noteq> 0 then bindR (put_back t old s3) (\<lambda>s4. Inr (r, c, s4)) else Inr (0, c, s3)))
      else create_bind s1 t cpuid)"

subsection \<open>\<^verbatim>\<open>set_reserve\<close>: affinity and hotplug\<close>

definition init_flags :: "tptr \<Rightarrow> kst \<Rightarrow> kst" where
  "init_flags t s =
     (if r_flag (reserve s t) = 0
      then upd_reserve t (\<lambda>r. r\<lparr>r_suspend := 0, r_taskmon_enabled := 0, r_locked := False, r_s_locked := False\<rparr>) s
      else s)"

text \<open>The processor is switched on if necessary and the thread is moved to it. When that fails the
  task is taken out of the array again. The second component is the local array \<^verbatim>\<open>cpu_online\<close>.\<close>

definition set_affinity :: "kenv \<Rightarrow> tptr \<Rightarrow> int \<Rightarrow> int \<Rightarrow> reserve_t \<Rightarrow> kst \<Rightarrow> (int \<times> (int \<Rightarrow> bool) \<times> kst) res" where
  "set_affinity e t tid cpuid old s =
     (if cpuid < 0 \<or> 3 < cpuid then Inl OutOfBounds
      else
        let online = (cpu_online s)(cpuid := True);
            s1 = (if cpu_online s cpuid then s else cpu_up e cpuid s)
        in if e_setaffinity e tid [cpuid] \<noteq> 0
           then bindR (unbind s1 t cpuid) (\<lambda>s2.
                  if r_flag (reserve s2 t) \<noteq> 0
                  then bindR (put_back t old s2) (\<lambda>s3. Inr (EINVAL, online, s3))
                  else Inr (EINVAL, online, s2))
           else Inr (0, online, s1))"

definition update_open :: "kst \<Rightarrow> kst" where
  "update_open s =
     s\<lparr>cpu_open := (\<lambda>i. if 0 \<le> i \<and> i \<le> 3 then (if cpu_util s i \<noteq> 0 then 1 else 0) else cpu_open s i)\<rparr>"

definition close_idle :: "kenv \<Rightarrow> (int \<Rightarrow> bool) \<Rightarrow> kst \<Rightarrow> kst" where
  "close_idle e online s =
     fold (\<lambda>i s. if cpu_open s i = 0 \<and> online i \<and> i \<noteq> 0 then cpu_down e i s else s) [0, 1, 2, 3] s"

subsection \<open>\<^verbatim>\<open>set_reserve\<close>: timers and files\<close>

definition start_timers :: "kenv \<Rightarrow> tptr \<Rightarrow> timespec \<Rightarrow> timespec \<Rightarrow> kst \<Rightarrow> kst res" where
  "start_timers e t C T s =
     (let s1 = upd_reserve t (\<lambda>r. r\<lparr>r_C := C, r_T := T, r_acc_single_run := zero_time\<rparr>) s;
          r = reserve s1 t;
          start = (\<lambda>r. r\<lparr>r_c_timer := (hrtimer_init (r_c_timer r))\<lparr>hr_function := CTimerCallback\<rparr>,
                         r_p_timer := snd (hrtimer_start (e_now e)
                           ((hrtimer_init (r_p_timer r))\<lparr>hr_function := PTimerCallback\<rparr>)
                           (ktime_set (tv_sec T) (tv_nsec T)))\<rparr>)
      in if r_flag r \<noteq> 0
         then bindR (hrtimer_cancel (r_c_timer r)) (\<lambda>(_, ct).
              bindR (hrtimer_cancel (r_p_timer r)) (\<lambda>(_, pt).
                Inr (upd_reserve t (\<lambda>r. start (r\<lparr>r_c_timer := ct, r_p_timer := pt\<rparr>)) s1)))
         else Inr (upd_reserve t start s1))"

definition create_util_file :: "kenv \<Rightarrow> tptr \<Rightarrow> int \<Rightarrow> kst \<Rightarrow> int \<times> kst" where
  "create_util_file e t tid s =
     (if util_kobj s \<noteq> 0 \<and> r_flag (reserve s t) = 0 then
        let (buf, s1) = kmalloc e 0 s in
        if buf = 0 then (ENOMEM, s1)
        else
          let name = snd (snprintf (int ATTR_NAME_BUF_LENGTH) (fmt_d tid));
              s2 = upd_reserve t (\<lambda>r. r\<lparr>r_tid_name := buf\<rparr>) (s1\<lparr>kstr := (kstr s1)(buf := name)\<rparr>);
              (retval, s3) = sysfs_create_file e (util_kobj s2) name s2
          in if retval \<noteq> 0 then (retval, s3)
             else
               let (periods, s4) = kmalloc e 1 s3;
                   s5 = upd_reserve t (\<lambda>r. r\<lparr>r_periods := periods\<rparr>) s4
               in if periods = 0 then (ENOMEM, s5)
                  else (0, upd_reserve t (\<lambda>r. r\<lparr>r_start := 0, r_end := -1, r_buffer_full := 0\<rparr>)
                             (s5\<lparr>karray := (karray s5)(periods := (\<lambda>_. 0))\<rparr>))
      else (0, s))"

definition remove_energy_dir :: "tptr \<Rightarrow> kst \<Rightarrow> kst res" where
  "remove_energy_dir t s =
     (let r = reserve s t;
          s1 = sysfs_remove_file (r_pid_kobj r) ''energy'' s
      in if r_energy_attr r = 0 then Inl NullDeref
         else
           bindR (kfree (r_energy_attr r) s1) (\<lambda>s2.
           bindR (kobject_put (r_pid_kobj r) s2) (\<lambda>s3.
             Inr (upd_reserve t (\<lambda>r. r\<lparr>r_pid_kobj := 0\<rparr>) s3))))"

definition create_energy_dir :: "kenv \<Rightarrow> tptr \<Rightarrow> int \<Rightarrow> kst \<Rightarrow> (int \<times> kst) res" where
  "create_energy_dir e t tid s =
     (if tasks_kobj s \<noteq> 0 \<and> r_pid_kobj (reserve s t) = 0 \<and> energy_tracking s \<noteq> 0 then
        let (buf, s1) = kmalloc e 2 s in
        if buf = 0 then Inr (ENOMEM, s1)
        else
          let name = snd (snprintf (int ATTR_NAME_BUF_LENGTH) (fmt_d tid));
              (dir, s2) = kobject_create e name (s1\<lparr>kstr := (kstr s1)(buf := name)\<rparr>);
              s3 = upd_reserve t (\<lambda>r. r\<lparr>r_pid_kobj := dir\<rparr>) s2
          in if dir = 0 then Inr (ENOMEM, s3)
             else
               let (attr, s4) = kmalloc e 3 s3;
                   s5 = upd_reserve t (\<lambda>r. r\<lparr>r_energy_attr := attr\<rparr>) s4
               in if attr = 0 then Inr (ENOMEM, s5)
                  else Inr (sysfs_create_file e dir ''energy'' (s5\<lparr>kattr_task := (kattr_task s5)(attr := t)\<rparr>))
      else if tasks_kobj s \<noteq> 0 \<and> energy_tracking s = 0 \<and> r_pid_kobj (reserve s t) \<noteq> 0
      then bindR (remove_energy_dir t s) (\<lambda>s1. Inr (0, s1))
      else Inr (0, s))"

definition finish_reserve :: "kenv \<Rightarrow> tptr \<Rightarrow> kst \<Rightarrow> (int \<times> kst) res" where
  "finish_reserve e t s =
     bindR (sysclock_set_frequency e
         (upd_reserve t (\<lambda>r. r\<lparr>r_energy := 0, r_tracking_energy := energy_tracking s, r_flag := 1\<rparr>) s))
       (\<lambda>(_, s1). Inr (0, s1))"

text \<open>Everything after the thread has been moved to its processor \<open>c\<close>.\<close>

definition activate ::
    "kenv \<Rightarrow> tptr \<Rightarrow> int \<Rightarrow> timespec \<Rightarrow> timespec \<Rightarrow> int \<Rightarrow> (int \<Rightarrow> bool) \<Rightarrow> kst \<Rightarrow> (int \<times> kst) res" where
  "activate e t tid C T c online s =
     (let s1 = upd_reserve t (\<lambda>r. r\<lparr>r_cpu := c\<rparr>) s;
          s2 = close_idle e online (update_open s1)
      in bindR (start_timers e t C T s2) (\<lambda>s3.
           let (r, s4) = create_util_file e t tid s3 in
           if r \<noteq> 0 then Inr (r, s4)
           else
             bindR (create_energy_dir e t tid s4) (\<lambda>(r, s5).
               if r \<noteq> 0 then Inr (r, s5) else finish_reserve e t s5)))"

text \<open>The system call; a NULL pointer is \<open>None\<close>.\<close>

definition set_reserve ::
    "kenv \<Rightarrow> kst \<Rightarrow> int \<Rightarrow> timespec option \<Rightarrow> timespec option \<Rightarrow> int \<Rightarrow> (int \<times> kst) res" where
  "set_reserve e s tid C T cpuid =
     (if cpuid < -1 \<or> 3 < cpuid then Inr (EINVAL, s)
      else case (C, T) of
        (Some C, Some T) \<Rightarrow>
          (case find_task_by_vpid s tid of
             None \<Rightarrow> Inr (ESRCH, s)
           | Some t \<Rightarrow>
               let period = to_millis T; computation_time = to_millis C; old = reserve s t in
               bindR (reserve_util computation_time period) (\<lambda>util.
               bindR (bind_task s t cpuid util period computation_time) (\<lambda>(r, c, s1).
                 if r \<noteq> 0 then Inr (r, s1)
                 else
                   bindR (set_affinity e t tid c old (init_flags t s1)) (\<lambda>(r, online, s2).
                     if r \<noteq> 0 then Inr (r, s2) else activate e t tid C T c online s2))))
      | _ \<Rightarrow> Inr (EINVAL, s))"

subsection \<open>\<^verbatim>\<open>cancel_reserve\<close> and \<^verbatim>\<open>end_job\<close>\<close>

definition stop_timers :: "tptr \<Rightarrow> kst \<Rightarrow> kst res" where
  "stop_timers t s =
     bindR (hrtimer_cancel (r_c_timer (reserve s t))) (\<lambda>(_, ct).
     bindR (hrtimer_cancel (r_p_timer (reserve s t))) (\<lambda>(_, pt).
       Inr (upd_reserve t (\<lambda>r. r\<lparr>r_c_timer := ct, r_p_timer := pt\<rparr>) s)))"

text \<open>Taking the task out, closing its bin and switching the processor off, as \<^verbatim>\<open>cancel_reserve\<close> and
  \<^verbatim>\<open>do_exit\<close> do it.\<close>

definition leave_bin :: "kenv \<Rightarrow> tptr \<Rightarrow> kst \<Rightarrow> kst res" where
  "leave_bin e t s =
     (let cpuid = r_cpu (reserve s t) in
      bindR (unbind s t cpuid) (\<lambda>s1.
        let s2 = (if cpu_util s1 cpuid = 0 then s1\<lparr>cpu_open := (cpu_open s1)(cpuid := 0)\<rparr> else s1)
        in Inr (if cpu_open s2 cpuid = 0 \<and> cpuid \<noteq> 0 then cpu_down e cpuid s2 else s2)))"

text \<open>The file is removed after its name has been freed.\<close>

definition remove_util_file :: "tptr \<Rightarrow> kst \<Rightarrow> kst res" where
  "remove_util_file t s =
     (if util_kobj s \<noteq> 0 then
        bindR (kfree (r_tid_name (reserve s t)) s) (\<lambda>s1.
        bindR (kfree (r_periods (reserve s t)) s1) (\<lambda>s2.
          sysfs_remove_ptr (util_kobj s2) (r_tid_name (reserve s t)) s2))
      else Inr s)"

definition drop_energy_dir :: "tptr \<Rightarrow> kst \<Rightarrow> kst res" where
  "drop_energy_dir t s =
     (if tasks_kobj s \<noteq> 0 \<and> r_pid_kobj (reserve s t) \<noteq> 0
      then bindR (remove_energy_dir t s) (\<lambda>s1. Inr (upd_reserve t (\<lambda>r. r\<lparr>r_tracking_energy := 0\<rparr>) s1))
      else Inr s)"

definition cancel_reserve :: "kenv \<Rightarrow> kst \<Rightarrow> int \<Rightarrow> (int \<times> kst) res" where
  "cancel_reserve e s tid =
     (case find_task_by_vpid s tid of
        None \<Rightarrow> Inr (ESRCH, s)
      | Some t \<Rightarrow>
          let rest = (\<lambda>s. bindR (remove_util_file t s) (\<lambda>s1. bindR (drop_energy_dir t s1) (\<lambda>s2.
                       bindR (sysclock_set_frequency e s2) (\<lambda>(_, s3). Inr (0, s3)))))
          in if r_flag (reserve s t) \<noteq> 0
             then bindR (stop_timers t s) (\<lambda>s1.
                    if e_setaffinity e tid [0, 1, 2, 3] \<noteq> 0 then Inr (EINVAL, s1)
                    else bindR (leave_bin e t (upd_reserve t (\<lambda>r. r\<lparr>r_flag := 0\<rparr>) s1)) rest)
             else rest s)"

text \<open>\<^verbatim>\<open>end_job\<close> is called by the thread itself; \<^verbatim>\<open>schedule\<close> then switches away from it.\<close>

definition end_job :: "tptr \<Rightarrow> kst \<Rightarrow> int \<times> kst" where
  "end_job t s =
     (if r_flag (reserve s t) = 0 then (-1, s)
      else if r_suspend (reserve s t) = 0
      then (0, upd_reserve t (\<lambda>r. r\<lparr>r_suspend := 1\<rparr>) (upd_task t (\<lambda>x. x\<lparr>t_state := TASK_UNINTERRUPTIBLE\<rparr>) s))
      else (0, s))"

section \<open>What a stage leaves alone\<close>

text \<open>The members of a reservation that admission, placement and the clock look at.\<close>

definition core :: "reserve_t \<Rightarrow> int \<times> int \<times> int \<times> int \<times> int \<times> timespec \<times> timespec \<times> hrtimer \<times> hrtimer" where
  "core r = (r_flag r, r_cpu r, r_util r, r_period r, r_budget r, r_C r, r_T r, r_c_timer r, r_p_timer r)"

definition kept :: "kst \<Rightarrow> kst \<Rightarrow> bool" where
  "kept s s' \<longleftrightarrow> threads s' = threads s \<and> cpu_tasks s' = cpu_tasks s \<and>
     cpu_tasks_length s' = cpu_tasks_length s \<and> cpu_util s' = cpu_util s \<and> cpu_open s' = cpu_open s \<and>
     lastCpuID_revise s' = lastCpuID_revise s \<and> lastCpuID_create s' = lastCpuID_create s \<and>
     partition_policy s' = partition_policy s \<and>
     (\<forall>u. core (reserve s' u) = core (reserve s u) \<and> t_pid (task s' u) = t_pid (task s u) \<and>
        t_tgid (task s' u) = t_tgid (task s u))"

named_theorems kept_intros

lemma reserve_frame [simp]:
  "reserve (s\<lparr>cpu_online := x1\<rparr>) u = reserve s u" "reserve (s\<lparr>kstr := x2\<rparr>) u = reserve s u"
  "reserve (s\<lparr>karray := x3\<rparr>) u = reserve s u" "reserve (s\<lparr>kallocd := x4\<rparr>) u = reserve s u"
  "reserve (s\<lparr>knext := x5\<rparr>) u = reserve s u" "reserve (s\<lparr>sysfs := x6\<rparr>) u = reserve s u"
  "reserve (s\<lparr>stale_reads := x7\<rparr>) u = reserve s u" "reserve (s\<lparr>kattr_task := x8\<rparr>) u = reserve s u"
  "reserve (s\<lparr>cpu_cur_freq := x9\<rparr>) u = reserve s u" "reserve (s\<lparr>cpu_open := x10\<rparr>) u = reserve s u"
  "reserve (s\<lparr>lastCpuID_create := x11\<rparr>) u = reserve s u" "reserve (s\<lparr>lastCpuID_revise := x11\<rparr>) u = reserve s u"
  "reserve (s\<lparr>cpu_freq := x12\<rparr>) u = reserve s u" "reserve (s\<lparr>total_energy := x13\<rparr>) u = reserve s u"
  by (simp_all add: reserve_def)

lemma upd_reserve_pids [simp]:
  "t_pid (task (upd_reserve t f s) u) = t_pid (task s u)"
  "t_tgid (task (upd_reserve t f s) u) = t_tgid (task s u)"
  by (simp_all add: upd_reserve_def upd_task_def)

lemma kept_refl [simp, kept_intros]: "kept s s"
  by (simp add: kept_def)

lemma kept_trans: "kept s s' \<Longrightarrow> kept s' s'' \<Longrightarrow> kept s s''"
  by (simp add: kept_def)

lemma kept_upd [kept_intros]:
  assumes "\<And>r. core (f r) = core r"
  shows "kept s (upd_reserve t f s)"
  by (simp add: kept_def assms)

lemma kept_fields [kept_intros]:
  "kept s (s\<lparr>cpu_online := x1\<rparr>)" "kept s (s\<lparr>kstr := x2\<rparr>)" "kept s (s\<lparr>karray := x3\<rparr>)"
  "kept s (s\<lparr>kallocd := x4\<rparr>)" "kept s (s\<lparr>sysfs := x6\<rparr>)" "kept s (s\<lparr>stale_reads := x7\<rparr>)"
  "kept s (s\<lparr>kattr_task := x8\<rparr>)" "kept s (s\<lparr>cpu_cur_freq := x9\<rparr>)" "kept s (s\<lparr>knext := x5, kallocd := x4\<rparr>)"
  by (simp_all add: kept_def reserve_def)

lemma kept_kmalloc [kept_intros]: "kmalloc e k s = (p, s') \<Longrightarrow> kept s s'"
  by (auto simp: kmalloc_def split: if_splits intro: kept_intros)

lemma kept_kobject_create [kept_intros]: "kobject_create e n s = (p, s') \<Longrightarrow> kept s s'"
  by (auto simp: kobject_create_def split: if_splits intro: kept_intros)

lemma kept_sysfs_create [kept_intros]: "sysfs_create_file e d n s = (r, s') \<Longrightarrow> kept s s'"
  by (auto simp: sysfs_create_file_def Let_def split: if_splits intro: kept_intros)

lemma kept_sysfs_remove [kept_intros]: "kept s (sysfs_remove_file d n s)"
  by (simp add: sysfs_remove_file_def kept_intros)

lemma kept_kfree [kept_intros]: "kfree p s = Inr s' \<Longrightarrow> kept s s'"
  by (auto simp: kfree_def split: if_splits intro: kept_intros)

lemma kept_kobject_put [kept_intros]: "kobject_put p s = Inr s' \<Longrightarrow> kept s s'"
  unfolding kobject_put_def by (rule kept_kfree)

lemma kept_sysfs_remove_ptr [kept_intros]: "sysfs_remove_ptr d p s = Inr s' \<Longrightarrow> kept s s'"
  unfolding sysfs_remove_ptr_def
  by (auto split: if_splits intro: kept_intros kept_trans [OF kept_fields(6) kept_sysfs_remove])

lemma kept_cpu_hotplug [kept_intros]: "kept s (cpu_up e c s)" "kept s (cpu_down e c s)"
  by (simp_all add: cpu_up_def cpu_down_def kept_intros)

lemma kept_init_flags [kept_intros]: "kept s (init_flags t s)"
  unfolding init_flags_def by (simp add: kept_upd core_def)

lemma kept_close_idle [kept_intros]: "kept s (close_idle e on s)"
proof -
  have "kept s (fold (\<lambda>i s. if cpu_open s i = 0 \<and> on i \<and> i \<noteq> 0 then cpu_down e i s else s) is s)" for "is"
  proof (induction "is" arbitrary: s)
    case (Cons i "is")
    let ?s = "if cpu_open s i = 0 \<and> on i \<and> i \<noteq> 0 then cpu_down e i s else s"
    have "kept s ?s" by (simp add: kept_intros)
    moreover have "kept ?s (fold (\<lambda>i s. if cpu_open s i = 0 \<and> on i \<and> i \<noteq> 0 then cpu_down e i s else s) is ?s)"
      by (rule Cons.IH)
    ultimately show ?case unfolding fold_simps by (rule kept_trans)
  qed simp
  then show ?thesis unfolding close_idle_def by blast
qed

lemma kept_remove_energy_dir [kept_intros]:
  assumes "remove_energy_dir t s = Inr s'"
  shows "kept s s'"
proof -
  let ?s1 = "sysfs_remove_file (r_pid_kobj (reserve s t)) ''energy'' s"
  obtain s2 s3 where s: "kfree (r_energy_attr (reserve s t)) ?s1 = Inr s2"
    "kobject_put (r_pid_kobj (reserve s t)) s2 = Inr s3" "s' = upd_reserve t (\<lambda>r. r\<lparr>r_pid_kobj := 0\<rparr>) s3"
    using assms by (auto simp: remove_energy_dir_def Let_def bindR_eq_Inr split: if_splits)
  have "kept s3 s'" unfolding s(3) by (rule kept_upd) (simp add: core_def)
  with s show ?thesis by (meson kept_trans kept_kfree kept_kobject_put kept_sysfs_remove)
qed

text \<open>The files of a reservation: creating them never faults, whatever the allocator answers.\<close>

lemma create_util_file_kept:
  assumes *: "create_util_file e t tid s = (r, s')"
  shows "kept s s'"
proof (cases "util_kobj s \<noteq> 0 \<and> r_flag (reserve s t) = 0")
  case True
  obtain buf s1 where m0: "kmalloc e 0 s = (buf, s1)" by fastforce
  let ?name = "snd (snprintf (int ATTR_NAME_BUF_LENGTH) (fmt_d tid))"
  let ?s2 = "upd_reserve t (\<lambda>r. r\<lparr>r_tid_name := buf\<rparr>) (s1\<lparr>kstr := (kstr s1)(buf := ?name)\<rparr>)"
  obtain rv s3 where f: "sysfs_create_file e (util_kobj ?s2) ?name ?s2 = (rv, s3)" by fastforce
  obtain p s4 where m1: "kmalloc e 1 s3 = (p, s4)" by fastforce
  have k1: "kept s s1" using m0 by (rule kept_kmalloc)
  have k2: "kept s1 ?s2" by (rule kept_trans [OF kept_fields(2) kept_upd]) (simp add: core_def)
  have k3: "kept s s3" using k1 k2 kept_sysfs_create [OF f] kept_trans by blast
  have k4: "kept s s4" using k3 kept_kmalloc [OF m1] by (rule kept_trans)
  let ?s5 = "upd_reserve t (\<lambda>r. r\<lparr>r_periods := p\<rparr>) s4"
  have k5: "kept s ?s5" using k4 by (rule kept_trans) (rule kept_upd, simp add: core_def)
  have k6: "kept s (upd_reserve t (\<lambda>r. r\<lparr>r_start := 0, r_end := -1, r_buffer_full := 0\<rparr>)
      (?s5\<lparr>karray := (karray ?s5)(p := (\<lambda>_. 0))\<rparr>))"
    using k5 kept_fields(3) by (rule kept_trans [OF kept_trans]) (rule kept_upd, simp add: core_def)
  show "kept s s'"
    using * True m0 f m1 k1 k3 k5 k6 unfolding create_util_file_def
    by (simp add: Let_def split: if_splits)
next
  case False
  with * show ?thesis by (auto simp: create_util_file_def split: if_splits)
qed

lemma create_energy_dir_kept:
  assumes *: "create_energy_dir e t tid s = Inr (r, s')"
  shows "kept s s'"
proof (cases "tasks_kobj s \<noteq> 0 \<and> r_pid_kobj (reserve s t) = 0 \<and> energy_tracking s \<noteq> 0")
  case True
  let ?name = "snd (snprintf (int ATTR_NAME_BUF_LENGTH) (fmt_d tid))"
  obtain buf s1 where m0: "kmalloc e 2 s = (buf, s1)" by fastforce
  obtain dir s2 where m1: "kobject_create e ?name (s1\<lparr>kstr := (kstr s1)(buf := ?name)\<rparr>) = (dir, s2)" by fastforce
  let ?s3 = "upd_reserve t (\<lambda>r. r\<lparr>r_pid_kobj := dir\<rparr>) s2"
  obtain a s4 where m2: "kmalloc e 3 ?s3 = (a, s4)" by fastforce
  let ?s5 = "upd_reserve t (\<lambda>r. r\<lparr>r_energy_attr := a\<rparr>) s4"
  obtain rv s6 where m3: "sysfs_create_file e dir ''energy'' (?s5\<lparr>kattr_task := (kattr_task ?s5)(a := t)\<rparr>) = (rv, s6)"
    by fastforce
  have k1: "kept s s1" using m0 by (rule kept_kmalloc)
  have k2: "kept s s2" using k1 kept_fields(2) kept_kobject_create [OF m1] kept_trans by metis
  have k3: "kept s ?s3" using k2 by (rule kept_trans) (rule kept_upd, simp add: core_def)
  have k5: "kept s ?s5" using k3 kept_kmalloc [OF m2]
    by (rule kept_trans [OF kept_trans]) (rule kept_upd, simp add: core_def)
  have k6: "kept s s6" using k5 kept_fields(7) kept_sysfs_create [OF m3] kept_trans by metis
  show "kept s s'"
    using * True m0 m1 m2 m3 k1 k3 k5 k6 unfolding create_energy_dir_def
    by (simp add: Let_def split: if_splits)
next
  case False
  with * show ?thesis unfolding create_energy_dir_def if_not_P [OF False]
    by (auto simp: bindR_eq_Inr intro: kept_remove_energy_dir split: if_splits)
qed

section \<open>The invariant of the reservations\<close>

text \<open>The arrays and the flags agree: the tasks in the array of a processor are the live tasks reserved
  on it, a processor is open when it has utilization, and the recorded period is the one the clock
  computation reads.\<close>

definition bin_members :: "kst \<Rightarrow> bool" where
  "bin_members s \<longleftrightarrow> (\<forall>c\<in>{0..3}. \<forall>t\<in>set (bin s c). t \<in> set (threads s) \<and> r_flag (reserve s t) \<noteq> 0 \<and> r_cpu (reserve s t) = c)"

definition reserved_ok :: "kst \<Rightarrow> tptr \<Rightarrow> bool" where
  "reserved_ok s t \<longleftrightarrow> (r_flag (reserve s t) \<noteq> 0 \<longrightarrow> 0 \<le> r_cpu (reserve s t) \<and> r_cpu (reserve s t) \<le> 3 \<and>
     t \<in> set (bin s (r_cpu (reserve s t))) \<and> ts_millis (r_T (reserve s t)) = r_period (reserve s t))"

definition open_ok :: "kst \<Rightarrow> bool" where
  "open_ok s \<longleftrightarrow> (\<forall>c\<in>{0..3}. cpu_open s c \<noteq> 0 \<longleftrightarrow> cpu_util s c \<noteq> 0)"

definition last_ok :: "kst \<Rightarrow> bool" where
  "last_ok s \<longleftrightarrow> lastCpuID_create s \<in> {0..3} \<and> lastCpuID_revise s \<in> {0..3}"

definition sys_ok :: "kst \<Rightarrow> bool" where
  "sys_ok s \<longleftrightarrow> all_bins_ok s \<and> bin_members s \<and> (\<forall>t\<in>set (threads s). reserved_ok s t) \<and> open_ok s \<and>
     last_ok s \<and> known_policy s \<and> distinct (threads s)"

lemma bin_members_code [code]:
  "bin_members s \<longleftrightarrow> (\<forall>c\<in>set [0, 1, 2, 3]. \<forall>t\<in>set (bin s c). t \<in> set (threads s) \<and>
     r_flag (reserve s t) \<noteq> 0 \<and> r_cpu (reserve s t) = c)"
  by (simp add: bin_members_def ball_four)

lemma open_ok_code [code]:
  "open_ok s \<longleftrightarrow> (\<forall>c\<in>set [0, 1, 2, 3]. cpu_open s c \<noteq> 0 \<longleftrightarrow> cpu_util s c \<noteq> 0)"
  by (simp add: open_ok_def ball_four)

lemma last_ok_code [code]:
  "last_ok s \<longleftrightarrow> 0 \<le> lastCpuID_create s \<and> lastCpuID_create s \<le> 3 \<and> 0 \<le> lastCpuID_revise s \<and> lastCpuID_revise s \<le> 3"
  by (auto simp: last_ok_def)

text \<open>Only the numbers of the tasks in the arrays matter to the arrays.\<close>

definition numbers :: "reserve_t \<Rightarrow> int \<times> int \<times> int" where
  "numbers r = (r_util r, r_period r, r_budget r)"

lemma bins_numbers:
  assumes "cpu_tasks s' = cpu_tasks s" "cpu_tasks_length s' = cpu_tasks_length s" "cpu_util s' = cpu_util s"
    and num: "\<And>c u. c \<in> {0..3} \<Longrightarrow> u \<in> set (bin s c) \<Longrightarrow> numbers (reserve s' u) = numbers (reserve s u)"
  shows "bin s' = bin s" "all_bins_ok s' = all_bins_ok s"
proof -
  show b: "bin s' = bin s" using assms by (intro ext) (simp add: bin_def)
  have "bin_ok s' c = bin_ok s c" if c: "c \<in> {0..3}" for c
  proof -
    have n: "r_util (reserve s' u) = r_util (reserve s u)" "r_period (reserve s' u) = r_period (reserve s u)"
      "r_budget (reserve s' u) = r_budget (reserve s u)" if "u \<in> set (bin s c)" for u
      using num [OF c that] by (simp_all add: numbers_def)
    have "util_sum s' (bin s c) = util_sum s (bin s c)" "by_period s' (bin s c) = by_period s (bin s c)"
      using n by (simp_all add: util_sum_def by_period_def cong: map_cong)
    moreover have "(\<forall>u\<in>set (bin s c). task_ok (reserve s' u)) = (\<forall>u\<in>set (bin s c). task_ok (reserve s u))"
      using n by (simp add: task_ok_def)
    ultimately show ?thesis using b assms by (simp add: bin_ok_def)
  qed
  then show "all_bins_ok s' = all_bins_ok s" by (simp add: all_bins_ok_def)
qed

lemma kept_core:
  assumes "kept s s'"
  shows "r_flag (reserve s' u) = r_flag (reserve s u)" "r_cpu (reserve s' u) = r_cpu (reserve s u)"
    "r_util (reserve s' u) = r_util (reserve s u)" "r_period (reserve s' u) = r_period (reserve s u)"
    "r_budget (reserve s' u) = r_budget (reserve s u)" "r_T (reserve s' u) = r_T (reserve s u)"
    "r_C (reserve s' u) = r_C (reserve s u)" "r_p_timer (reserve s' u) = r_p_timer (reserve s u)"
    "r_c_timer (reserve s' u) = r_c_timer (reserve s u)" "bin s' = bin s"
proof -
  have "core (reserve s' u) = core (reserve s u)" using assms by (simp add: kept_def)
  then show "r_flag (reserve s' u) = r_flag (reserve s u)" "r_cpu (reserve s' u) = r_cpu (reserve s u)"
    "r_util (reserve s' u) = r_util (reserve s u)" "r_period (reserve s' u) = r_period (reserve s u)"
    "r_budget (reserve s' u) = r_budget (reserve s u)" "r_T (reserve s' u) = r_T (reserve s u)"
    "r_C (reserve s' u) = r_C (reserve s u)" "r_p_timer (reserve s' u) = r_p_timer (reserve s u)"
    "r_c_timer (reserve s' u) = r_c_timer (reserve s u)"
    by (simp_all add: core_def)
  show "bin s' = bin s" using assms by (intro ext) (simp add: bin_def kept_def)
qed

lemma kept_fields_eq:
  assumes "kept s s'"
  shows "threads s' = threads s" "cpu_tasks s' = cpu_tasks s" "cpu_tasks_length s' = cpu_tasks_length s"
    "cpu_util s' = cpu_util s" "cpu_open s' = cpu_open s" "lastCpuID_revise s' = lastCpuID_revise s"
    "lastCpuID_create s' = lastCpuID_create s" "partition_policy s' = partition_policy s"
  using assms by (simp_all add: kept_def)

text \<open>The invariant does not look at the timers.\<close>

definition same_res :: "kst \<Rightarrow> kst \<Rightarrow> bool" where
  "same_res s s' \<longleftrightarrow> threads s' = threads s \<and> cpu_tasks s' = cpu_tasks s \<and>
     cpu_tasks_length s' = cpu_tasks_length s \<and> cpu_util s' = cpu_util s \<and> cpu_open s' = cpu_open s \<and>
     lastCpuID_revise s' = lastCpuID_revise s \<and> lastCpuID_create s' = lastCpuID_create s \<and>
     partition_policy s' = partition_policy s \<and>
     (\<forall>u. r_flag (reserve s' u) = r_flag (reserve s u) \<and> r_cpu (reserve s' u) = r_cpu (reserve s u) \<and>
        r_util (reserve s' u) = r_util (reserve s u) \<and> r_period (reserve s' u) = r_period (reserve s u) \<and>
        r_budget (reserve s' u) = r_budget (reserve s u) \<and> r_T (reserve s' u) = r_T (reserve s u))"

lemma same_res_trans: "same_res s s' \<Longrightarrow> same_res s' s'' \<Longrightarrow> same_res s s''"
  by (simp add: same_res_def)

lemma kept_same_res: "kept s s' \<Longrightarrow> same_res s s'"
  by (simp add: same_res_def kept_core kept_fields_eq)

lemma same_res_upd:
  assumes "\<And>r. r_flag (f r) = r_flag r" "\<And>r. r_cpu (f r) = r_cpu r" "\<And>r. r_util (f r) = r_util r"
    "\<And>r. r_period (f r) = r_period r" "\<And>r. r_budget (f r) = r_budget r" "\<And>r. r_T (f r) = r_T r"
  shows "same_res s (upd_reserve t f s)"
  by (simp add: same_res_def assms)

lemma same_res_sys_ok:
  assumes k: "same_res s s'"
  shows "sys_ok s' = sys_ok s"
proof -
  have eq: "threads s' = threads s" "cpu_tasks s' = cpu_tasks s" "cpu_tasks_length s' = cpu_tasks_length s"
    "cpu_util s' = cpu_util s" "cpu_open s' = cpu_open s" "lastCpuID_revise s' = lastCpuID_revise s"
    "lastCpuID_create s' = lastCpuID_create s" "partition_policy s' = partition_policy s"
    "\<And>u. r_flag (reserve s' u) = r_flag (reserve s u)" "\<And>u. r_cpu (reserve s' u) = r_cpu (reserve s u)"
    "\<And>u. numbers (reserve s' u) = numbers (reserve s u)" "\<And>u. r_period (reserve s' u) = r_period (reserve s u)"
    "\<And>u. r_T (reserve s' u) = r_T (reserve s u)"
    using k by (simp_all add: same_res_def numbers_def)
  have ab: "bin s' = bin s" "all_bins_ok s' = all_bins_ok s" using eq by (intro bins_numbers; simp)+
  have "bin_members s' = bin_members s" unfolding bin_members_def ab eq by (rule refl)
  moreover have "reserved_ok s' = reserved_ok s" by (rule ext) (unfold reserved_ok_def ab eq, rule refl)
  moreover have "open_ok s' = open_ok s" "last_ok s' = last_ok s" "known_policy s' = known_policy s"
    unfolding open_ok_def last_ok_def known_policy_def policy_char_def eq by simp_all
  ultimately show ?thesis unfolding sys_ok_def ab eq by simp
qed

lemma kept_sys_ok: "kept s s' \<Longrightarrow> sys_ok s' = sys_ok s"
  by (rule same_res_sys_ok [OF kept_same_res])

text \<open>A task without a reservation is in no array, and the clock computation has room.\<close>

lemma unreserved_not_in_bin:
  "bin_members s \<Longrightarrow> r_flag (reserve s t) = 0 \<Longrightarrow> c \<in> {0..3} \<Longrightarrow> t \<notin> set (bin s c)"
  unfolding bin_members_def by blast

lemma to_millis_ts_millis:
  assumes "0 \<le> to_millis ts"
  shows "ts_millis ts = to_millis ts"
proof -
  have "ts_millis ts = u32 (to_millis ts)"
    by (simp add: ts_millis_def to_millis_def reserve_consts add.commute)
  moreover have "to_millis ts < 2147483648" unfolding to_millis_def using s32_range by blast
  ultimately show ?thesis using assms by (simp add: u32_id)
qed

lemma sys_ok_clock_room:
  assumes ok: "sys_ok s" and c: "c \<in> {0..3}" and len: "length (bin s c) \<le> 100"
  shows "clock_room s c"
proof -
  define ts where "ts = filter (\<lambda>t. r_flag (reserve s t) \<noteq> 0 \<and> r_cpu (reserve s t) = c) (for_each_process s)"
  have sub: "set ts \<subseteq> set (bin s c)"
    using ok by (auto simp: ts_def sys_ok_def reserved_ok_def for_each_process_def)
  moreover have "distinct ts" using ok by (simp add: ts_def sys_ok_def for_each_process_def)
  ultimately have "length ts \<le> length (bin s c)"
    by (metis card_mono distinct_card card_length dual_order.trans finite_set)
  moreover have "entry_T_ok \<lparr>se_C = x, se_T = ts_millis (r_T (reserve s t))\<rparr>" if t: "t \<in> set ts" for t x
  proof -
    have "t \<in> set (threads s)" "r_flag (reserve s t) \<noteq> 0" using t by (auto simp: ts_def for_each_process_def)
    with ok have "ts_millis (r_T (reserve s t)) = r_period (reserve s t)" by (simp add: sys_ok_def reserved_ok_def)
    moreover have "task_ok (reserve s t)"
      using ok c t sub by (auto simp: sys_ok_def all_bins_ok_def bin_ok_def)
    ultimately show ?thesis by (simp add: entry_T_ok_def task_ok_def)
  qed
  ultimately show ?thesis
    using len by (auto simp: clock_room_def cpu_entries_def ts_def [symmetric] MAX_TASK_def)
qed

section \<open>Reserving\<close>

text \<open>Arguments for which the conversions are exact, and an environment in which nothing fails.\<close>

definition args_ok :: "timespec \<Rightarrow> timespec \<Rightarrow> bool" where
  "args_ok C T \<longleftrightarrow> 0 < to_millis T \<and> to_millis T \<le> MAX_PERIOD \<and> 0 \<le> to_millis C \<and>
     to_millis C \<le> to_millis T \<and> to_millis C \<le> 214748"

definition files_ok :: "kenv \<Rightarrow> bool" where
  "files_ok e \<longleftrightarrow> (\<forall>k. e_kmalloc e k) \<and> (\<forall>n. e_kobject_create e n) \<and> (\<forall>n. e_sysfs_create e n = 0)"

definition dir_ok :: "kst \<Rightarrow> tptr \<Rightarrow> bool" where
  "dir_ok s t \<longleftrightarrow> (r_pid_kobj (reserve s t) \<noteq> 0 \<longrightarrow> r_energy_attr (reserve s t) \<noteq> 0 \<and>
     r_energy_attr (reserve s t) \<in> kallocd s \<and> r_pid_kobj (reserve s t) \<in> kallocd s \<and>
     r_energy_attr (reserve s t) \<noteq> r_pid_kobj (reserve s t))"

definition timers_idle :: "kst \<Rightarrow> tptr \<Rightarrow> bool" where
  "timers_idle s t \<longleftrightarrow> \<not> hr_callback (r_c_timer (reserve s t)) \<and> \<not> hr_callback (r_p_timer (reserve s t))"

lemma reserve_util_ok:
  assumes "args_ok C T"
  shows "reserve_util (to_millis C) (to_millis T) = Inr (to_millis C * UTIL_MULTIPLE div to_millis T)"
    and "0 \<le> to_millis C * UTIL_MULTIPLE div to_millis T"
    and "to_millis C * UTIL_MULTIPLE div to_millis T \<le> UTIL_MULTIPLE"
proof -
  have h: "0 < to_millis T" "0 \<le> to_millis C" "to_millis C \<le> to_millis T" "to_millis C \<le> 214748"
    using assms by (simp_all add: args_ok_def)
  have "s32 (to_millis C * 10000) = to_millis C * 10000" using h by (intro s32_id) linarith+
  then show "reserve_util (to_millis C) (to_millis T) = Inr (to_millis C * UTIL_MULTIPLE div to_millis T)"
    using h unfolding reserve_util_def by (simp add: reserve_consts c_div_nonneg)
  show "0 \<le> to_millis C * UTIL_MULTIPLE div to_millis T"
    using h by (simp add: pos_imp_zdiv_nonneg_iff reserve_consts)
  have "to_millis C * 10000 \<le> 10000 * to_millis T" using h by linarith
  then show "to_millis C * UTIL_MULTIPLE div to_millis T \<le> UTIL_MULTIPLE"
    using zdiv_mono1 [of "to_millis C * 10000" "10000 * to_millis T" "to_millis T"] h
    by (simp add: reserve_consts)
qed

text \<open>The reservation that the arguments describe, before it is placed.\<close>

definition requested :: "kst \<Rightarrow> tptr \<Rightarrow> timespec \<Rightarrow> timespec \<Rightarrow> kst" where
  "requested s t C T = set_numbers t (to_millis C * UTIL_MULTIPLE div to_millis T) (to_millis T) (to_millis C) s"

definition create_choice :: "kst \<Rightarrow> tptr \<Rightarrow> int \<Rightarrow> int option" where
  "create_choice s t cpuid =
     (if cpuid = -1 then policy_choice s t (lastCpuID_create s)
      else if admits s t cpuid then Some cpuid else None)"

lemma requested_frame:
  "reserve (requested s t C T) u =
     (if u = t then (reserve s t)\<lparr>r_util := to_millis C * UTIL_MULTIPLE div to_millis T,
        r_period := to_millis T, r_budget := to_millis C\<rparr> else reserve s u)"
  "threads (requested s t C T) = threads s" "cpu_tasks (requested s t C T) = cpu_tasks s"
  "cpu_tasks_length (requested s t C T) = cpu_tasks_length s" "cpu_util (requested s t C T) = cpu_util s"
  "cpu_open (requested s t C T) = cpu_open s" "partition_policy (requested s t C T) = partition_policy s"
  "lastCpuID_create (requested s t C T) = lastCpuID_create s"
  "lastCpuID_revise (requested s t C T) = lastCpuID_revise s"
  "t_pid (task (requested s t C T) u) = t_pid (task s u)"
  "t_tgid (task (requested s t C T) u) = t_tgid (task s u)"
  "bin (requested s t C T) = bin s"
  by (simp_all add: requested_def set_numbers_def bin_def fun_eq_iff)

lemma requested_task_ok: "args_ok C T \<Longrightarrow> task_ok (reserve (requested s t C T) t)"
  using reserve_util_ok(2,3) [of C T] by (simp add: requested_frame task_ok_def args_ok_def)

lemma requested_sys_ok:
  assumes ok: "sys_ok s" and fl: "r_flag (reserve s t) = 0"
  shows "sys_ok (requested s t C T)"
proof -
  have nin: "t \<notin> set (bin s c)" if "c \<in> {0..3}" for c
    using unreserved_not_in_bin [of s t c] ok fl that by (simp add: sys_ok_def)
  have "all_bins_ok (requested s t C T) = all_bins_ok s"
    using nin by (intro bins_numbers(2)) (auto simp: requested_frame)
  moreover have "bin_members (requested s t C T)"
    using ok nin by (auto simp: sys_ok_def bin_members_def requested_frame)
  moreover have "reserved_ok (requested s t C T) u" if "u \<in> set (threads s)" for u
    using ok fl that by (auto simp: sys_ok_def reserved_ok_def requested_frame)
  ultimately show ?thesis
    using ok by (simp add: sys_ok_def open_ok_def last_ok_def known_policy_def policy_char_def requested_frame)
qed

text \<open>A new member of an array, not yet marked as reserved.\<close>

definition joined :: "tptr \<Rightarrow> int \<Rightarrow> kst \<Rightarrow> kst \<Rightarrow> bool" where
  "joined t c s s' \<longleftrightarrow> (\<exists>a n u l. s' = s\<lparr>cpu_tasks := a, cpu_tasks_length := n, cpu_util := u, lastCpuID_create := l\<rparr> \<and>
      l \<in> {0..3}) \<and> all_bins_ok s' \<and>
     (\<forall>d\<in>{0..3}. bin s' d = (if d = c then insert_by_period s t (bin s c) else bin s d))"

definition refused :: "kst \<Rightarrow> kst \<Rightarrow> bool" where
  "refused s s' \<longleftrightarrow> (\<exists>a l. s' = s\<lparr>cpu_tasks := a, lastCpuID_create := l\<rparr> \<and> l \<in> {0..3}) \<and> all_bins_ok s' \<and>
     (\<forall>d\<in>{0..3}. bin s' d = bin s d)"

lemma bin_last [simp]:
  "bin (s\<lparr>lastCpuID_create := l\<rparr>) = bin s" "bin (s\<lparr>lastCpuID_revise := l\<rparr>) = bin s"
  "all_bins_ok (s\<lparr>lastCpuID_create := l\<rparr>) = all_bins_ok s" "all_bins_ok (s\<lparr>lastCpuID_revise := l\<rparr>) = all_bins_ok s"
proof -
  show "bin (s\<lparr>lastCpuID_create := l\<rparr>) = bin s" "bin (s\<lparr>lastCpuID_revise := l\<rparr>) = bin s"
    by (simp_all add: bin_def fun_eq_iff)
  show "all_bins_ok (s\<lparr>lastCpuID_create := l\<rparr>) = all_bins_ok s" "all_bins_ok (s\<lparr>lastCpuID_revise := l\<rparr>) = all_bins_ok s"
    by (rule bins_numbers(2); simp)+
qed

lemma placed_joined:
  assumes p: "placed_in t s c s1" and c: "c \<in> {0..3}" and ok: "all_bins_ok s" "task_ok (reserve s t)"
    and nin: "t \<notin> set (bin s c)" and adm: "admits s t c" and l: "l \<in> {0..3}"
  shows "joined t c s (s1\<lparr>lastCpuID_create := l\<rparr>)"
proof -
  obtain a n u where s1: "s1 = s\<lparr>cpu_tasks := a, cpu_tasks_length := n, cpu_util := u\<rparr>"
    using placed_in_frame(5) [OF p c] by blast
  have "all_bins_ok s1" using placed_in_ok [OF p c ok nin adm] .
  moreover have "\<forall>d\<in>{0..3}. bin s1 d = (if d = c then insert_by_period s t (bin s c) else bin s d)"
    using placed_in_frame(1,2) [OF p c] by simp
  moreover have "s1\<lparr>lastCpuID_create := l\<rparr> =
      s\<lparr>cpu_tasks := a, cpu_tasks_length := n, cpu_util := u, lastCpuID_create := l\<rparr>"
    unfolding s1 by simp
  ultimately show ?thesis unfolding joined_def bin_last using l by blast
qed

lemma same_refused: "same_bins s s1 \<Longrightarrow> all_bins_ok s \<Longrightarrow> l \<in> {0..3} \<Longrightarrow> refused s (s1\<lparr>lastCpuID_create := l\<rparr>)"
  using same_bins_ok [of s s1] by (auto simp: refused_def same_bins_def)

lemma create_bind_spec:
  assumes ok: "all_bins_ok s" "task_ok (reserve s t)" "known_policy s" "last_ok s"
    and nin: "\<And>c. c \<in> {0..3} \<Longrightarrow> t \<notin> set (bin s c)" and cpu: "-1 \<le> cpuid" "cpuid \<le> 3"
  shows "case create_choice s t cpuid of
      Some c \<Rightarrow> c \<in> {0..3} \<and> (\<exists>s'. create_bind s t cpuid = Inr (0, c, s') \<and> joined t c s s')
    | None \<Rightarrow> \<exists>k s'. create_bind s t cpuid = Inr (EBUSY, k, s') \<and> refused s s'"
proof (cases "cpuid = -1")
  case True
  let ?l = "lastCpuID_create s"
  have l: "0 \<le> ?l" "?l \<le> 3" using ok(4) by (auto simp: last_ok_def)
  note spec = partition_bind_spec [OF ok(1,2,3) l]
  show ?thesis
  proof (cases "policy_choice s t ?l")
    case None
    with spec obtain k l' s1 where "partition_bind s t ?l = Inr (EBUSY, k, l', s1)" "same_bins s s1" "0 \<le> l'" "l' \<le> 3"
      by (auto simp: partition_outcome_def)
    with True None ok(1) show ?thesis by (auto simp: create_choice_def create_bind_def intro!: same_refused)
  next
    case (Some c)
    then have "c \<in> set (policy_order s ?l) \<and> admits s t c" unfolding policy_choice_def by (rule pick_sound)
    then have c: "c \<in> {0..3}" "admits s t c" using policy_order_set [OF ok(1) l] by blast+
    from spec Some obtain l' s1 where s1: "partition_bind s t ?l = Inr (0, c, l', s1)" "placed_in t s c s1" "0 \<le> l'" "l' \<le> 3"
      by (auto simp: partition_outcome_def)
    have "joined t c s (s1\<lparr>lastCpuID_create := l'\<rparr>)"
      using s1(3,4) by (intro placed_joined [OF s1(2) c(1) ok(1,2) nin [OF c(1)] c(2)]) simp
    with True Some c s1(1) show ?thesis by (simp add: create_choice_def create_bind_def)
  qed
next
  case False
  with cpu have c: "0 \<le> cpuid" "cpuid \<le> 3" "cpuid \<in> {0..3}" by simp_all
  from try_bind_spec [OF c(1,2) _ ok(2)] ok(1) c(3) obtain s1 where
    s1: "try_bind s t cpuid = Inr (if admits s t cpuid then 0 else EBUSY, s1)"
      "if admits s t cpuid then bound s t cpuid s1 else untouched s cpuid s1"
    by (auto simp: all_bins_ok_def)
  have l: "lastCpuID_create s \<in> {0..3}" using ok(4) by (simp add: last_ok_def)
  have "bin_frame cpuid s s1" using s1(2) by (auto simp: bound_def untouched_def split: if_splits)
  then have "lastCpuID_create s1 = lastCpuID_create s" by (auto simp: bin_frame_def set_bin_def)
  then have keep: "s1\<lparr>lastCpuID_create := lastCpuID_create s\<rparr> = s1" by (cases s1) simp
  show ?thesis
  proof (cases "admits s t cpuid")
    case True
    have "placed_in t s cpuid s1" using s1(2) True same_bins_refl unfolding placed_in_def by auto
    from placed_joined [OF this c(3) ok(1,2) nin [OF c(3)] True l, unfolded keep] False True s1(1) c
    show ?thesis by (simp add: create_choice_def create_bind_def)
  next
    case adm: False
    with s1(2) have "same_bins s s1" by (simp add: untouched_same_bins)
    from same_refused [OF this ok(1) l, unfolded keep] False adm s1(1)
    show ?thesis by (auto simp: create_choice_def create_bind_def)
  qed
qed

lemma refused_sys_ok:
  assumes "refused s s'" "sys_ok s"
  shows "sys_ok s'"
proof -
  obtain a l where s': "s' = s\<lparr>cpu_tasks := a, lastCpuID_create := l\<rparr>" "l \<in> {0..3}" and b: "all_bins_ok s'"
    "\<And>d. d \<in> {0..3} \<Longrightarrow> bin s' d = bin s d" using assms(1) by (auto simp: refused_def)
  have r: "reserve s' u = reserve s u" for u by (simp add: s'(1) reserve_def)
  have "bin_members s'" using assms(2) b(2) by (auto simp: sys_ok_def bin_members_def r s'(1))
  moreover have "reserved_ok s' u" if "u \<in> set (threads s)" for u
    using assms(2) b(2) that by (auto simp: sys_ok_def reserved_ok_def r)
  ultimately show ?thesis
    using assms(2) s'(2) b(1) by (simp add: sys_ok_def open_ok_def last_ok_def known_policy_def policy_char_def s'(1))
qed

text \<open>Everything after the binding: with an environment in which nothing fails it returns 0, the task is
  marked reserved on \<open>c\<close> and its period timer runs; nothing else of the reservations changes.\<close>

definition activated :: "tptr \<Rightarrow> int \<Rightarrow> timespec \<Rightarrow> timespec \<Rightarrow> kst \<Rightarrow> kst \<Rightarrow> bool" where
  "activated t c C T s s' \<longleftrightarrow> threads s' = threads s \<and> cpu_tasks s' = cpu_tasks s \<and>
     cpu_tasks_length s' = cpu_tasks_length s \<and> cpu_util s' = cpu_util s \<and> cpu_open s' = cpu_open (update_open s) \<and>
     lastCpuID_revise s' = lastCpuID_revise s \<and> lastCpuID_create s' = lastCpuID_create s \<and>
     partition_policy s' = partition_policy s \<and>
     (\<forall>u. u \<noteq> t \<longrightarrow> core (reserve s' u) = core (reserve s u)) \<and>
     r_flag (reserve s' t) = 1 \<and> r_cpu (reserve s' t) = c \<and> numbers (reserve s' t) = numbers (reserve s t) \<and>
     r_C (reserve s' t) = C \<and> r_T (reserve s' t) = T \<and>
     (\<forall>u. t_pid (task s' u) = t_pid (task s u) \<and> t_tgid (task s' u) = t_tgid (task s u))"

definition period_timer :: "int \<Rightarrow> timespec \<Rightarrow> hrtimer" where
  "period_timer now T = \<lparr>hr_expires = ktime_add_safe (ktime_add_safe (ktime_set (tv_sec T) (tv_nsec T)) now) 0,
     hr_softexpires = ktime_add_safe (ktime_set (tv_sec T) (tv_nsec T)) now,
     hr_enqueued = True, hr_callback = False, hr_function = PTimerCallback\<rparr>"

lemma start_period_timer:
  "snd (hrtimer_start now ((hrtimer_init x)\<lparr>hr_function := PTimerCallback\<rparr>) (ktime_set (tv_sec T) (tv_nsec T))) =
     period_timer now T"
  by (simp add: hrtimer_start_def hrtimer_init_def remove_hrtimer_def enqueue_hrtimer_def period_timer_def Let_def)

lemma start_timers_total:
  assumes "r_flag (reserve s t) = 0 \<or> timers_idle s t"
  shows "\<exists>f. start_timers e t C T s = Inr (upd_reserve t f s) \<and>
    (\<forall>r. r_flag (f r) = r_flag r \<and> r_cpu (f r) = r_cpu r \<and> numbers (f r) = numbers r \<and> r_C (f r) = C \<and>
       r_T (f r) = T \<and> r_p_timer (f r) = period_timer (e_now e) T \<and>
       r_pid_kobj (f r) = r_pid_kobj r \<and> r_energy_attr (f r) = r_energy_attr r)"
proof -
  have comp: "upd_reserve t f (upd_reserve t g s) = upd_reserve t (\<lambda>r. f (g r)) s" for f g
    by (simp add: upd_reserve_def upd_task_def)
  show ?thesis
  proof (cases "r_flag (reserve s t) = 0")
    case True
    then show ?thesis unfolding start_timers_def Let_def start_period_timer comp
      by (intro exI conjI) (auto simp: comp numbers_def)
  next
    case False
    with assms have "timers_idle s t" by simp
    then have "\<exists>a ct b pt. hrtimer_cancel (r_c_timer (reserve s t)) = Inr (a, ct) \<and>
        hrtimer_cancel (r_p_timer (reserve s t)) = Inr (b, pt)"
      unfolding timers_idle_def by (metis hrtimer_cancel_idle surj_pair)
    then obtain a ct b pt where "hrtimer_cancel (r_c_timer (reserve s t)) = Inr (a, ct)"
        "hrtimer_cancel (r_p_timer (reserve s t)) = Inr (b, pt)" by blast
    with False show ?thesis unfolding start_timers_def Let_def start_period_timer comp
      by (intro exI conjI) (auto simp: comp numbers_def)
  qed
qed

lemma create_util_file_ok:
  assumes "files_ok e"
  shows "\<exists>s'. create_util_file e t tid s = (0, s') \<and> kept s s' \<and> kallocd s \<subseteq> kallocd s' \<and>
    r_pid_kobj (reserve s' t) = r_pid_kobj (reserve s t) \<and> r_energy_attr (reserve s' t) = r_energy_attr (reserve s t)"
proof -
  obtain r s' where s': "create_util_file e t tid s = (r, s')" by fastforce
  with assms have "r = 0" "kallocd s \<subseteq> kallocd s'" "r_pid_kobj (reserve s' t) = r_pid_kobj (reserve s t)"
    "r_energy_attr (reserve s' t) = r_energy_attr (reserve s t)"
    by (auto simp: create_util_file_def files_ok_def kmalloc_def sysfs_create_file_def Let_def split: if_splits)
  with s' create_util_file_kept [OF s'] show ?thesis by blast
qed

lemma remove_energy_dir_ok:
  assumes "dir_ok s t" "r_pid_kobj (reserve s t) \<noteq> 0"
  shows "\<exists>s'. remove_energy_dir t s = Inr s'"
  using assms by (simp add: remove_energy_dir_def dir_ok_def kfree_def kobject_put_def sysfs_remove_file_def Let_def)

lemma create_energy_dir_ok:
  assumes "files_ok e" "dir_ok s t"
  shows "\<exists>s'. create_energy_dir e t tid s = Inr (0, s') \<and> kept s s'"
proof -
  have "\<exists>s'. create_energy_dir e t tid s = Inr (0, s')"
    using assms remove_energy_dir_ok [OF assms(2)]
    by (auto simp: create_energy_dir_def files_ok_def kmalloc_def kobject_create_def sysfs_create_file_def Let_def)
  then show ?thesis using create_energy_dir_kept by blast
qed

lemma update_open_frame [simp]:
  "threads (update_open s) = threads s" "cpu_tasks (update_open s) = cpu_tasks s"
  "cpu_tasks_length (update_open s) = cpu_tasks_length s" "cpu_util (update_open s) = cpu_util s"
  "lastCpuID_revise (update_open s) = lastCpuID_revise s" "lastCpuID_create (update_open s) = lastCpuID_create s"
  "partition_policy (update_open s) = partition_policy s" "task (update_open s) = task s"
  "reserve (update_open s) u = reserve s u" "kallocd (update_open s) = kallocd s"
  "cpu_open (update_open (upd_reserve t f s)) = cpu_open (update_open s)"
  by (simp_all add: update_open_def fun_eq_iff)

lemma activate_spec:
  assumes e: "files_ok e" and d: "dir_ok s t" and ti: "r_flag (reserve s t) = 0 \<or> timers_idle s t"
    and clock: "\<And>s'. activated t c C T s s' \<Longrightarrow> \<forall>d\<in>{0..3}. clock_room s' d"
  shows "\<exists>s'. activate e t tid C T c online s = Inr (0, s') \<and> activated t c C T s s' \<and>
    r_p_timer (reserve s' t) = period_timer (e_now e) T"
proof -
  let ?s1 = "upd_reserve t (\<lambda>r. r\<lparr>r_cpu := c\<rparr>) s"
  let ?s2 = "close_idle e online (update_open ?s1)"
  have k2: "kept (update_open ?s1) ?s2" by (rule kept_close_idle)
  have al: "kallocd ?s2 = kallocd s \<and> reserve ?s2 t = reserve ?s1 t"
    by (simp add: close_idle_def cpu_down_def)
  have "r_flag (reserve ?s2 t) = 0 \<or> timers_idle ?s2 t" using ti al by (simp add: timers_idle_def)
  from start_timers_total [OF this, of e C T] obtain f where
    f: "start_timers e t C T ?s2 = Inr (upd_reserve t f ?s2)" and
    ff: "\<And>r. r_flag (f r) = r_flag r \<and> r_cpu (f r) = r_cpu r \<and> numbers (f r) = numbers r \<and> r_C (f r) = C \<and>
       r_T (f r) = T \<and> r_p_timer (f r) = period_timer (e_now e) T \<and>
       r_pid_kobj (f r) = r_pid_kobj r \<and> r_energy_attr (f r) = r_energy_attr r" by blast
  let ?s3 = "upd_reserve t f ?s2"
  from create_util_file_ok [OF e, of t tid ?s3] obtain s4 where
    s4: "create_util_file e t tid ?s3 = (0, s4)" "kept ?s3 s4" "kallocd ?s3 \<subseteq> kallocd s4"
      "r_pid_kobj (reserve s4 t) = r_pid_kobj (reserve ?s3 t)" "r_energy_attr (reserve s4 t) = r_energy_attr (reserve ?s3 t)"
    by blast
  have "dir_ok s4 t" using d s4(3-5) ff al by (auto simp: dir_ok_def)
  from create_energy_dir_ok [OF e this, of tid] obtain s5 where
    s5: "create_energy_dir e t tid s4 = Inr (0, s5)" "kept s4 s5" by blast
  have k5: "kept ?s3 s5" using s4(2) s5(2) by (rule kept_trans)
  let ?s6 = "upd_reserve t (\<lambda>r. r\<lparr>r_energy := 0, r_tracking_energy := energy_tracking s5, r_flag := 1\<rparr>) s5"
  have act: "activated t c C T s ?s6" "r_p_timer (reserve ?s6 t) = period_timer (e_now e) T"
    using k2 k5 ff by (simp_all add: activated_def kept_def core_def numbers_def)
  from sysclock_set_frequency_total [OF clock [OF act(1)], of e] obtain ret fr where
    fr: "sysclock_set_frequency e ?s6 = Inr (ret, ?s6\<lparr>cpu_cur_freq := fr\<rparr>)" by blast
  have "activate e t tid C T c online s = Inr (0, ?s6\<lparr>cpu_cur_freq := fr\<rparr>)"
    unfolding activate_def Let_def f bindR_Inr s4(1) prod.case s5(1) finish_reserve_def fr by simp
  moreover have "activated t c C T s (?s6\<lparr>cpu_cur_freq := fr\<rparr>)"
    using act(1) by (simp add: activated_def)
  ultimately show ?thesis using act(2) by auto
qed

text \<open>The invariant for every task but one, which is in no array.\<close>

definition sys_ok_but :: "tptr \<Rightarrow> kst \<Rightarrow> bool" where
  "sys_ok_but t s \<longleftrightarrow> all_bins_ok s \<and>
     (\<forall>c\<in>{0..3}. \<forall>u\<in>set (bin s c). u \<noteq> t \<and> u \<in> set (threads s) \<and> r_flag (reserve s u) \<noteq> 0 \<and> r_cpu (reserve s u) = c) \<and>
     (\<forall>u\<in>set (threads s). u \<noteq> t \<longrightarrow> reserved_ok s u) \<and> last_ok s \<and> known_policy s \<and> distinct (threads s)"

lemma sys_ok_but_unreserved: "sys_ok s \<Longrightarrow> r_flag (reserve s t) = 0 \<Longrightarrow> sys_ok_but t s"
  unfolding sys_ok_but_def sys_ok_def bin_members_def by blast

lemma sys_ok_but_reserved:
  assumes "sys_ok_but t s" "r_flag (reserve s t) = 0" "open_ok s"
  shows "sys_ok s"
  using assms unfolding sys_ok_but_def sys_ok_def bin_members_def reserved_ok_def by metis

lemma sys_ok_but_not_in: "sys_ok_but t s \<Longrightarrow> c \<in> {0..3} \<Longrightarrow> t \<notin> set (bin s c)"
  unfolding sys_ok_but_def by blast

lemma requested_sys_ok_but:
  assumes ok: "sys_ok_but t s"
  shows "sys_ok_but t (requested s t C T)"
proof -
  note nin = sys_ok_but_not_in [OF ok]
  have "all_bins_ok (requested s t C T) = all_bins_ok s"
    using nin by (intro bins_numbers(2)) (auto simp: requested_frame)
  moreover have "reserved_ok (requested s t C T) u" if "u \<in> set (threads s)" "u \<noteq> t" for u
    using ok that by (auto simp: sys_ok_but_def reserved_ok_def requested_frame)
  ultimately show ?thesis
    using ok unfolding sys_ok_but_def
    by (auto simp: last_ok_def known_policy_def policy_char_def requested_frame)
qed

text \<open>Joining an array and becoming active restores the invariant.\<close>

lemma joined_activated:
  assumes ok: "sys_ok_but t s" and j: "joined t c s s1" and k: "kept s1 s2" and a: "activated t c C T s2 s'"
    and c: "c \<in> {0..3}" and t: "t \<in> set (threads s)" "r_period (reserve s t) = to_millis T" "0 < to_millis T"
  shows "sys_ok s' \<and> (\<forall>d\<in>{0..3}. bin s' d = (if d = c then insert_by_period s t (bin s c) else bin s d)) \<and>
    (\<forall>u. u \<noteq> t \<longrightarrow> core (reserve s' u) = core (reserve s u)) \<and>
    threads s' = threads s \<and> partition_policy s' = partition_policy s"
proof -
  obtain x n y l where s1: "s1 = s\<lparr>cpu_tasks := x, cpu_tasks_length := n, cpu_util := y, lastCpuID_create := l\<rparr>"
    "l \<in> {0..3}" "all_bins_ok s1"
    and b1: "\<And>d. d \<in> {0..3} \<Longrightarrow> bin s1 d = (if d = c then insert_by_period s t (bin s c) else bin s d)"
    using j by (auto simp: joined_def)
  have r1: "reserve s1 u = reserve s u" for u by (simp add: s1(1) reserve_def)
  have "bin s' = bin s2" using a by (intro ext) (simp add: activated_def bin_def)
  then have b': "bin s' = bin s1" using kept_core(10) [OF k] by simp
  have num: "numbers (reserve s' u) = numbers (reserve s1 u)" for u
  proof (cases "u = t")
    case True
    then show ?thesis using a kept_core(3-5) [OF k] by (simp add: activated_def numbers_def)
  next
    case False
    then have "core (reserve s' u) = core (reserve s2 u)" using a by (simp add: activated_def)
    then show ?thesis using kept_core(3-5) [OF k] by (simp add: numbers_def core_def)
  qed
  have oth: "core (reserve s' u) = core (reserve s u)" if "u \<noteq> t" for u
    using a k that r1 by (simp add: activated_def kept_def)
  have thr: "threads s' = threads s" using a k by (simp add: activated_def kept_def s1(1))
  have "all_bins_ok s' = all_bins_ok s1"
    using a kept_fields_eq [OF k] num by (intro bins_numbers(2)) (simp_all add: activated_def)
  moreover have "bin_members s'"
    unfolding bin_members_def
  proof (intro ballI)
    fix d u assume d: "d \<in> {0..3::int}" and u: "u \<in> set (bin s' d)"
    show "u \<in> set (threads s') \<and> r_flag (reserve s' u) \<noteq> 0 \<and> r_cpu (reserve s' u) = d"
    proof (cases "u = t")
      case True
      with u d b1 sys_ok_but_not_in [OF ok d] have "d = c" unfolding b' by (auto split: if_splits)
      with True a t(1) thr show ?thesis by (simp add: activated_def)
    next
      case False
      with u d b1 have "u \<in> set (bin s d)" unfolding b' by (auto split: if_splits)
      with ok d oth [OF False] thr show ?thesis by (simp add: sys_ok_but_def core_def)
    qed
  qed
  moreover have "reserved_ok s' u" if u: "u \<in> set (threads s)" for u
  proof (cases "u = t")
    case True
    have "r_period (reserve s' t) = to_millis T" using num [of t] r1 t(2) by (simp add: numbers_def)
    then show ?thesis
      using True a c b1 [OF c] b' t(3) to_millis_ts_millis [of T] by (simp add: reserved_ok_def activated_def)
  next
    case False
    have "reserved_ok s u" using ok u False by (simp add: sys_ok_but_def)
    with oth [OF False] b1 show ?thesis unfolding reserved_ok_def b' by (auto simp: core_def)
  qed
  moreover have "open_ok s'" using a by (simp add: open_ok_def activated_def update_open_def)
  ultimately show ?thesis
    using ok a k s1(2,3) thr b1 b' oth
    by (simp add: sys_ok_def sys_ok_but_def last_ok_def known_policy_def policy_char_def activated_def kept_def s1(1))
qed

lemma set_affinity_ok:
  assumes "c \<in> {0..3}" "e_setaffinity e tid [c] = 0"
  shows "\<exists>online s'. set_affinity e t tid c old s = Inr (0, online, s') \<and> kept s s' \<and> reserve s' t = reserve s t \<and>
    kallocd s' = kallocd s"
  using assms by (auto simp: set_affinity_def Let_def cpu_up_def intro: kept_intros)

lemma init_flags_mem:
  "r_flag (reserve (init_flags t s) t) = r_flag (reserve s t)" "dir_ok (init_flags t s) t = dir_ok s t"
  "timers_idle (init_flags t s) t = timers_idle s t"
  by (simp_all add: init_flags_def dir_ok_def timers_idle_def)

text \<open>From a successful binding to the return.\<close>

lemma activate_after_join:
  assumes ok: "sys_ok_but t s" and j: "joined t c s s1" and c: "c \<in> {0..3}"
    and t: "t \<in> set (threads s)" "r_period (reserve s t) = to_millis T" "0 < to_millis T"
    and e: "files_ok e" "e_setaffinity e tid [c] = 0" and d: "dir_ok s t"
    and ti: "r_flag (reserve s t) = 0 \<or> timers_idle s t" and room: "\<forall>d\<in>{0..3}. length (bin s d) < 100"
  shows "\<exists>s'. bindR (set_affinity e t tid c old (init_flags t s1)) (\<lambda>(r, online, s2).
        if r \<noteq> 0 then Inr (r, s2) else activate e t tid C T c online s2) = Inr (0, s') \<and> sys_ok s' \<and>
      (\<forall>d\<in>{0..3}. bin s' d = (if d = c then insert_by_period s t (bin s c) else bin s d)) \<and>
      (\<forall>u. u \<noteq> t \<longrightarrow> core (reserve s' u) = core (reserve s u)) \<and>
      r_flag (reserve s' t) = 1 \<and> r_cpu (reserve s' t) = c \<and> r_C (reserve s' t) = C \<and> r_T (reserve s' t) = T \<and>
      r_p_timer (reserve s' t) = period_timer (e_now e) T \<and>
      threads s' = threads s \<and> partition_policy s' = partition_policy s"
proof -
  obtain online s2 where s2: "set_affinity e t tid c old (init_flags t s1) = Inr (0, online, s2)"
    "kept (init_flags t s1) s2" "reserve s2 t = reserve (init_flags t s1) t" "kallocd s2 = kallocd (init_flags t s1)"
    using set_affinity_ok [OF c e(2)] by blast
  have k: "kept s1 s2" using kept_init_flags s2(2) by (rule kept_trans)
  have s1: "reserve s1 t = reserve s t" "kallocd s1 = kallocd s" using j by (auto simp: joined_def reserve_def)
  have d2: "dir_ok s2 t" "r_flag (reserve s2 t) = 0 \<or> timers_idle s2 t"
    using d ti s1 s2(3,4) init_flags_mem [of t s1] by (simp_all add: dir_ok_def timers_idle_def)
  note fin = joined_activated [OF ok j k _ c t]
  have "\<forall>d\<in>{0..3}. clock_room s' d" if a: "activated t c C T s2 s'" for s'
  proof
    fix d :: int assume d: "d \<in> {0..3}"
    have "length (bin s d) < 100" "length (bin s c) < 100" using room d c by blast+
    then have "length (bin s' d) \<le> 100" using fin [OF a] d by simp
    then show "clock_room s' d" using fin [OF a] d by (intro sys_ok_clock_room) simp_all
  qed
  from activate_spec [OF e(1) d2 this, where tid = tid and online = online] obtain s' where
    s': "activate e t tid C T c online s2 = Inr (0, s')" "activated t c C T s2 s'"
      "r_p_timer (reserve s' t) = period_timer (e_now e) T" by blast
  with fin [OF s'(2)] s2(1) show ?thesis by (auto simp: activated_def)
qed

subsection \<open>Cancelling\<close>

text \<open>The blocks that a reservation owns are live and distinct.\<close>

definition mem_ok :: "kst \<Rightarrow> tptr \<Rightarrow> bool" where
  "mem_ok s t \<longleftrightarrow>
     (let r = reserve s t;
          file = (if util_kobj s \<noteq> 0 then [r_tid_name r, r_periods r] else []);
          dir = (if r_pid_kobj r \<noteq> 0 then [r_energy_attr r, r_pid_kobj r] else [])
      in distinct (file @ dir) \<and> (\<forall>p\<in>set (file @ dir). p \<noteq> 0 \<and> p \<in> kallocd s))"

lemma stop_timers_ok:
  assumes "timers_idle s t"
  shows "\<exists>ct pt. stop_timers t s = Inr (upd_reserve t (\<lambda>r. r\<lparr>r_c_timer := ct, r_p_timer := pt\<rparr>) s) \<and>
    \<not> hr_enqueued ct \<and> \<not> hr_enqueued pt"
proof -
  have "\<exists>a ct b pt. hrtimer_cancel (r_c_timer (reserve s t)) = Inr (a, ct) \<and>
      hrtimer_cancel (r_p_timer (reserve s t)) = Inr (b, pt)"
    using assms unfolding timers_idle_def by (metis hrtimer_cancel_idle surj_pair)
  then obtain a ct b pt where "hrtimer_cancel (r_c_timer (reserve s t)) = Inr (a, ct)"
    "hrtimer_cancel (r_p_timer (reserve s t)) = Inr (b, pt)" by blast
  then show ?thesis using hrtimer_cancel_dequeues by (fastforce simp: stop_timers_def)
qed

definition left_bin :: "tptr \<Rightarrow> int \<Rightarrow> kst \<Rightarrow> kst \<Rightarrow> bool" where
  "left_bin t c s s' \<longleftrightarrow> (\<exists>a n u o1 o2. s' = s\<lparr>cpu_tasks := a, cpu_tasks_length := n, cpu_util := u, cpu_open := o1, cpu_online := o2\<rparr>) \<and>
     all_bins_ok s' \<and> open_ok s' \<and> (\<forall>d\<in>{0..3}. bin s' d = (if d = c then remove1 t (bin s c) else bin s d))"

lemma leave_bin_ok:
  assumes ok: "all_bins_ok s" "open_ok s" and c: "r_cpu (reserve s t) = c" "c \<in> {0..3}" and t: "t \<in> set (bin s c)"
  shows "\<exists>s'. leave_bin e t s = Inr s' \<and> left_bin t c s s'"
proof -
  have "bin_ok s c" using ok(1) c(2) by (simp add: all_bins_ok_def)
  with unbind_spec [of c s t] c(2) t obtain s1 where s1: "unbind s t c = Inr s1" "bin_frame c s s1"
    "bin s1 c = remove1 t (bin s c)" "bin_ok s1 c" "cpu_util s1 c = cpu_util s c - r_util (reserve s t)" by auto
  obtain a n u where a: "s1 = set_bin c a n u s" using s1(2) by (auto simp: bin_frame_def)
  have other: "bin_ok s1 d" if "d \<in> {0..3}" "d \<noteq> c" for d
  proof -
    have "bin_ok s1 d = bin_ok s d" using bin_frame_other [OF s1(2)] that(2) by (intro bin_ok_cong) auto
    then show ?thesis using ok(1) that(1) by (simp add: all_bins_ok_def)
  qed
  have ab: "all_bins_ok s1" unfolding all_bins_ok_def using other s1(4) by blast
  have "0 \<le> cpu_util s1 c" using cpu_util_range [OF ab c(2)] by simp
  moreover have "0 \<le> r_util (reserve s t)" using \<open>bin_ok s c\<close> t by (auto simp: bin_ok_def task_ok_def)
  ultimately have pos: "cpu_open s c \<noteq> 0" if "cpu_util s1 c \<noteq> 0"
    using that s1(5) ok(2) c(2) unfolding open_ok_def by fastforce
  let ?o = "if cpu_util s1 c = 0 then (cpu_open s1)(c := 0) else cpu_open s1"
  let ?s2 = "s1\<lparr>cpu_open := ?o\<rparr>"
  let ?on = "if cpu_open ?s2 c = 0 \<and> c \<noteq> 0 \<and> e_cpu_down e c then (cpu_online s1)(c := False) else cpu_online s1"
  let ?s3 = "s1\<lparr>cpu_open := ?o, cpu_online := ?on\<rparr>"
  have "leave_bin e t s = Inr ?s3"
    by (simp add: leave_bin_def Let_def c(1) s1(1) cpu_down_def)
  moreover have "?s3 = s\<lparr>cpu_tasks := (cpu_tasks s)(c := a), cpu_tasks_length := (cpu_tasks_length s)(c := n),
      cpu_util := (cpu_util s)(c := u), cpu_open := ?o, cpu_online := ?on\<rparr>"
    unfolding a set_bin_def by simp
  moreover have b3: "bin ?s3 = bin s1" by (simp add: bin_def fun_eq_iff)
  moreover have "all_bins_ok ?s3 = all_bins_ok s1" by (intro bins_numbers(2)) simp_all
  moreover have "open_ok ?s3"
    unfolding open_ok_def
  proof
    fix d :: int assume d: "d \<in> {0..3}"
    have "cpu_util s1 d = cpu_util s d" if "d \<noteq> c" using bin_frame_other(1) [OF s1(2) that] by simp
    moreover have "cpu_open s1 = cpu_open s" using bin_frame_other(3) [OF s1(2)] by simp
    ultimately show "(cpu_open ?s3 d \<noteq> 0) = (cpu_util ?s3 d \<noteq> 0)"
      using ok(2) d pos by (cases "d = c") (simp_all add: open_ok_def)
  qed
  moreover have "\<forall>d\<in>{0..3}. bin s1 d = (if d = c then remove1 t (bin s c) else bin s d)"
    using s1(3) bin_frame_other(1) [OF s1(2)] by simp
  ultimately show ?thesis unfolding left_bin_def using ab by metis
qed

lemma mem_ok_cong:
  assumes "r_tid_name (reserve s' t) = r_tid_name (reserve s t)" "r_periods (reserve s' t) = r_periods (reserve s t)"
    "r_energy_attr (reserve s' t) = r_energy_attr (reserve s t)" "r_pid_kobj (reserve s' t) = r_pid_kobj (reserve s t)"
    "util_kobj s' = util_kobj s" "kallocd s' = kallocd s"
  shows "mem_ok s' t = mem_ok s t"
  unfolding mem_ok_def Let_def assms by (rule refl)

lemma remove_util_file_ok:
  assumes m: "mem_ok s t"
  shows "\<exists>s'. remove_util_file t s = Inr s' \<and> kept s s' \<and> dir_ok s' t \<and>
    stale_reads s' = stale_reads s + (if util_kobj s \<noteq> 0 then 1 else 0) \<and> reserve s' = reserve s"
proof (cases "util_kobj s = 0")
  case True
  with m show ?thesis by (auto simp: remove_util_file_def mem_ok_def dir_ok_def Let_def split: if_splits)
next
  case False
  let ?p = "r_tid_name (reserve s t)" and ?q = "r_periods (reserve s t)"
  have pq: "?p \<noteq> 0" "?q \<noteq> 0" "?p \<noteq> ?q" "?p \<in> kallocd s" "?q \<in> kallocd s"
    using m False by (auto simp: mem_ok_def Let_def)
  let ?s1 = "s\<lparr>kallocd := kallocd s - {?p} - {?q}\<rparr>"
  let ?s2 = "sysfs_remove_file (util_kobj s) (kstr s ?p) (?s1\<lparr>stale_reads := Suc (stale_reads s)\<rparr>)"
  have "remove_util_file t s = Inr ?s2"
    using False pq by (simp add: remove_util_file_def kfree_def sysfs_remove_ptr_def)
  moreover have "kept s ?s2"
    by (rule kept_trans [OF kept_fields(4) kept_trans [OF kept_fields(6) kept_sysfs_remove]])
  moreover have "reserve ?s2 = reserve s" by (simp add: sysfs_remove_file_def fun_eq_iff)
  moreover have "dir_ok ?s2 t"
    using m False by (auto simp: mem_ok_def dir_ok_def Let_def sysfs_remove_file_def split: if_splits)
  moreover have "stale_reads ?s2 = Suc (stale_reads s)" by (simp add: sysfs_remove_file_def)
  ultimately show ?thesis using False by auto
qed

lemma drop_energy_dir_ok:
  assumes "dir_ok s t"
  shows "\<exists>s'. drop_energy_dir t s = Inr s' \<and> kept s s' \<and> stale_reads s' = stale_reads s"
proof (cases "tasks_kobj s \<noteq> 0 \<and> r_pid_kobj (reserve s t) \<noteq> 0")
  case True
  with remove_energy_dir_ok [OF assms] obtain s1 where s1: "remove_energy_dir t s = Inr s1" by blast
  have "stale_reads s1 = stale_reads s"
    using s1 by (auto simp: remove_energy_dir_def bindR_eq_Inr kfree_def kobject_put_def sysfs_remove_file_def
        Let_def upd_reserve_def upd_task_def split: if_splits)
  moreover have "kept s (upd_reserve t (\<lambda>r. r\<lparr>r_tracking_energy := 0\<rparr>) s1)"
    using kept_remove_energy_dir [OF s1] by (rule kept_trans) (rule kept_upd, simp add: core_def)
  ultimately show ?thesis using True s1 by (simp add: drop_energy_dir_def upd_reserve_def upd_task_def)
qed (auto simp: drop_energy_dir_def)

text \<open>What \<^verbatim>\<open>cancel_reserve\<close> does to a reserved task.\<close>

definition cancelled :: "tptr \<Rightarrow> int \<Rightarrow> kst \<Rightarrow> kst \<Rightarrow> bool" where
  "cancelled t c s s' \<longleftrightarrow> r_flag (reserve s' t) = 0 \<and> \<not> hr_enqueued (r_c_timer (reserve s' t)) \<and>
     \<not> hr_enqueued (r_p_timer (reserve s' t)) \<and> (\<forall>u. u \<noteq> t \<longrightarrow> core (reserve s' u) = core (reserve s u)) \<and>
     (\<forall>d\<in>{0..3}. bin s' d = (if d = c then remove1 t (bin s c) else bin s d)) \<and>
     stale_reads s' = stale_reads s + (if util_kobj s \<noteq> 0 then 1 else 0)"

lemma left_sys_ok_but:
  assumes ok: "sys_ok s" and c: "r_cpu (reserve s t) = c" "c \<in> {0..3}" "t \<in> set (bin s c)"
    and core: "\<And>u. u \<noteq> t \<Longrightarrow> core (reserve s0 u) = core (reserve s u)"
    and fr: "threads s0 = threads s" "bin s0 = bin s" "lastCpuID_create s0 = lastCpuID_create s"
      "lastCpuID_revise s0 = lastCpuID_revise s" "partition_policy s0 = partition_policy s"
    and l: "left_bin t c s0 s'"
  shows "sys_ok_but t s' \<and> open_ok s'"
proof -
  obtain a n u o1 o2 where s': "s' = s0\<lparr>cpu_tasks := a, cpu_tasks_length := n, cpu_util := u, cpu_open := o1, cpu_online := o2\<rparr>"
    and b: "\<And>d. d \<in> {0..3} \<Longrightarrow> bin s' d = (if d = c then remove1 t (bin s c) else bin s d)"
    and l': "all_bins_ok s'" "open_ok s'"
    using l fr(2) unfolding left_bin_def by auto
  have r: "reserve s' u = reserve s0 u" for u by (simp add: s' reserve_def)
  have "u \<noteq> t \<and> u \<in> set (threads s') \<and> r_flag (reserve s' u) \<noteq> 0 \<and> r_cpu (reserve s' u) = d"
    if d: "d \<in> {0..3}" and u: "u \<in> set (bin s' d)" for d u
  proof -
    have dist: "distinct (bin s c)" using ok c(2) by (simp add: sys_ok_def all_bins_ok_def bin_ok_def)
    have mem: "u \<in> set (bin s d)" using u b [OF d] set_remove1_subset [of t "bin s c"] by (auto split: if_splits)
    then have sd: "u \<in> set (threads s)" "r_flag (reserve s u) \<noteq> 0" "r_cpu (reserve s u) = d"
      using ok d by (auto simp: sys_ok_def bin_members_def)
    have "u \<noteq> t" using u b [OF d] sd(3) c(1) dist by (auto split: if_splits)
    then show ?thesis using core [of u] sd r fr(1) by (simp add: core_def s')
  qed
  moreover have "reserved_ok s' u" if u: "u \<in> set (threads s')" "u \<noteq> t" for u
  proof -
    have "reserved_ok s u" using ok u fr(1) by (simp add: sys_ok_def s')
    moreover have "core (reserve s' u) = core (reserve s u)" using core u(2) r by simp
    ultimately show ?thesis using b u(2) by (auto simp: reserved_ok_def core_def)
  qed
  ultimately have "sys_ok_but t s'"
    unfolding sys_ok_but_def using l'(1) ok fr
    by (auto simp: s' sys_ok_def last_ok_def known_policy_def policy_char_def)
  with l'(2) show ?thesis by simp
qed

lemma left_bin_frame:
  assumes "left_bin t c s s'"
  shows "reserve s' u = reserve s u" "stale_reads s' = stale_reads s" "util_kobj s' = util_kobj s" "kallocd s' = kallocd s"
proof -
  obtain a n w o1 o2 where s': "s' = s\<lparr>cpu_tasks := a, cpu_tasks_length := n, cpu_util := w, cpu_open := o1, cpu_online := o2\<rparr>"
    using assms unfolding left_bin_def by blast
  show "reserve s' u = reserve s u" "stale_reads s' = stale_reads s" "util_kobj s' = util_kobj s" "kallocd s' = kallocd s"
    unfolding s' by (simp_all add: reserve_def)
qed

lemma cancel_ok:
  assumes ok: "sys_ok s" and f: "find_task_by_vpid s tid = Some t" "r_flag (reserve s t) \<noteq> 0"
    and e: "e_setaffinity e tid [0, 1, 2, 3] = 0" and m: "mem_ok s t" and ti: "timers_idle s t"
    and room: "\<forall>d\<in>{0..3}. length (bin s d) \<le> 100"
  shows "\<exists>s'. cancel_reserve e s tid = Inr (0, s') \<and> sys_ok s' \<and> cancelled t (r_cpu (reserve s t)) s s'"
proof -
  let ?c = "r_cpu (reserve s t)"
  have "t \<in> set (threads s)" using find_task_by_vpid_SomeD [OF f(1)] by simp
  then have c: "?c \<in> {0..3}" "t \<in> set (bin s ?c)" using ok f(2) by (auto simp: sys_ok_def reserved_ok_def)
  obtain ct pt where st: "stop_timers t s = Inr (upd_reserve t (\<lambda>r. r\<lparr>r_c_timer := ct, r_p_timer := pt\<rparr>) s)"
    "\<not> hr_enqueued ct" "\<not> hr_enqueued pt" using stop_timers_ok [OF ti] by blast
  let ?s1 = "upd_reserve t (\<lambda>r. r\<lparr>r_c_timer := ct, r_p_timer := pt\<rparr>) s"
  let ?s2 = "upd_reserve t (\<lambda>r. r\<lparr>r_flag := 0\<rparr>) ?s1"
  have b2: "bin ?s2 = bin s" "all_bins_ok ?s2 = all_bins_ok s" "open_ok ?s2 = open_ok s"
    using bins_numbers [of ?s2 s] by (auto simp: numbers_def open_ok_def)
  from leave_bin_ok [of ?s2 t ?c e] b2 ok c obtain s3 where
    s3: "leave_bin e t ?s2 = Inr s3" "left_bin t ?c ?s2 s3" by (auto simp: sys_ok_def)
  have "sys_ok_but t s3 \<and> open_ok s3" by (rule left_sys_ok_but [OF ok refl c _ _ _ _ _ _ s3(2)]) (simp_all add: b2)
  then have ok3: "sys_ok s3" using left_bin_frame(1) [OF s3(2)] by (intro sys_ok_but_reserved [of t]) simp_all
  have b3: "\<forall>d\<in>{0..3}. bin s3 d = (if d = ?c then remove1 t (bin s ?c) else bin s d)"
    using s3(2) unfolding left_bin_def b2(1) by (elim conjE)
  note r3 = left_bin_frame [OF s3(2)]
  have "mem_ok s3 t = mem_ok s t" by (rule mem_ok_cong) (simp_all add: r3)
  with m have "mem_ok s3 t" by simp
  from remove_util_file_ok [OF this] obtain s4 where
    s4: "remove_util_file t s3 = Inr s4" "kept s3 s4" "dir_ok s4 t"
      "stale_reads s4 = stale_reads s3 + (if util_kobj s3 \<noteq> 0 then 1 else 0)" by blast
  from drop_energy_dir_ok [OF s4(3)] obtain s5 where
    s5: "drop_energy_dir t s4 = Inr s5" "kept s4 s5" "stale_reads s5 = stale_reads s4" by blast
  have k: "kept s3 s5" using s4(2) s5(2) by (rule kept_trans)
  have b5: "bin s5 = bin s3" using kept_core(10) [OF k] .
  have ok5: "sys_ok s5" using kept_sys_ok [OF k] ok3 by simp
  have "\<forall>d\<in>{0..3}. clock_room s5 d"
  proof
    fix d :: int assume d: "d \<in> {0..3}"
    have "length (bin s5 d) \<le> length (bin s d)" using b3 d b5 by (simp add: length_remove1)
    with room d have "length (bin s5 d) \<le> 100" by (meson le_trans)
    with ok5 d show "clock_room s5 d" by (rule sys_ok_clock_room)
  qed
  then obtain ret fr where fr: "sysclock_set_frequency e s5 = Inr (ret, s5\<lparr>cpu_cur_freq := fr\<rparr>)"
    using sysclock_set_frequency_total by blast
  have "cancel_reserve e s tid = Inr (0, s5\<lparr>cpu_cur_freq := fr\<rparr>)"
    using f(2) unfolding cancel_reserve_def f(1) Let_def by (simp add: st(1) e s3(1) s4(1) s5(1) fr)
  moreover have "kept s5 (s5\<lparr>cpu_cur_freq := fr\<rparr>)" by (rule kept_fields)
  moreover from this have "sys_ok (s5\<lparr>cpu_cur_freq := fr\<rparr>)" using kept_sys_ok ok5 by blast
  moreover have "cancelled t ?c s (s5\<lparr>cpu_cur_freq := fr\<rparr>)"
    unfolding cancelled_def kept_core(10) [OF calculation(2)] b5
    using k s4(4) s5(3) b3 st(2,3) by (simp add: kept_def core_def r3)
  ultimately show ?thesis by blast
qed

subsection \<open>Reserving for the first time\<close>

lemma set_reserve_create:
  assumes "find_task_by_vpid s tid = Some t" "r_flag (reserve s t) = 0" "args_ok C T" "-1 \<le> cpuid" "cpuid \<le> 3"
    and b: "create_bind (requested s t C T) t cpuid = Inr (r, c, s1)"
  shows "set_reserve e s tid (Some C) (Some T) cpuid =
     (if r \<noteq> 0 then Inr (r, s1)
      else bindR (set_affinity e t tid c (reserve s t) (init_flags t s1)) (\<lambda>(r, online, s2).
             if r \<noteq> 0 then Inr (r, s2) else activate e t tid C T c online s2))"
  using assms by (simp add: set_reserve_def reserve_util_ok(1) bind_task_def Let_def requested_def)

lemma create_ok:
  assumes ok: "sys_ok s" and f: "find_task_by_vpid s tid = Some t" "r_flag (reserve s t) = 0"
    and a: "args_ok C T" "-1 \<le> cpuid" "cpuid \<le> 3" and e: "files_ok e" "\<forall>c\<in>{0..3}. e_setaffinity e tid [c] = 0"
    and d: "dir_ok s t" and room: "\<forall>d\<in>{0..3}. length (bin s d) < 100"
  shows "case create_choice (requested s t C T) t cpuid of
      Some c \<Rightarrow> c \<in> {0..3} \<and> (\<exists>s'. set_reserve e s tid (Some C) (Some T) cpuid = Inr (0, s') \<and> sys_ok s' \<and>
        (\<forall>d\<in>{0..3}. bin s' d = (if d = c then insert_by_period (requested s t C T) t (bin s c) else bin s d)) \<and>
        (\<forall>u. u \<noteq> t \<longrightarrow> core (reserve s' u) = core (reserve s u)) \<and>
        r_flag (reserve s' t) = 1 \<and> r_cpu (reserve s' t) = c \<and> r_C (reserve s' t) = C \<and> r_T (reserve s' t) = T \<and>
        r_p_timer (reserve s' t) = period_timer (e_now e) T \<and>
        threads s' = threads s \<and> partition_policy s' = partition_policy s)
    | None \<Rightarrow> (\<exists>s'. set_reserve e s tid (Some C) (Some T) cpuid = Inr (EBUSY, s') \<and> sys_ok s' \<and>
        (\<forall>d\<in>{0..3}. bin s' d = bin s d) \<and> r_flag (reserve s' t) = 0 \<and>
        (\<forall>u. u \<noteq> t \<longrightarrow> core (reserve s' u) = core (reserve s u)) \<and>
        threads s' = threads s \<and> partition_policy s' = partition_policy s)"
proof -
  let ?s = "requested s t C T"
  have but: "sys_ok_but t ?s" by (rule requested_sys_ok_but [OF sys_ok_but_unreserved [OF ok f(2)]])
  have t: "t \<in> set (threads s)" using find_task_by_vpid_SomeD [OF f(1)] by simp
  have spec: "case create_choice ?s t cpuid of
      Some c \<Rightarrow> c \<in> {0..3} \<and> (\<exists>s'. create_bind ?s t cpuid = Inr (0, c, s') \<and> joined t c ?s s')
    | None \<Rightarrow> \<exists>k s'. create_bind ?s t cpuid = Inr (EBUSY, k, s') \<and> refused ?s s'"
    using but a(2,3) requested_task_ok [OF a(1)] sys_ok_but_not_in [OF but]
    by (intro create_bind_spec) (simp_all add: sys_ok_but_def)
  show ?thesis
  proof (cases "create_choice ?s t cpuid")
    case None
    with spec obtain k s1 where s1: "create_bind ?s t cpuid = Inr (EBUSY, k, s1)" "refused ?s s1" by auto
    have "sys_ok s1" using s1(2) requested_sys_ok [OF ok f(2)] by (rule refused_sys_ok)
    moreover have "\<forall>d\<in>{0..3}. bin s1 d = bin s d" using s1(2) by (simp add: refused_def requested_frame)
    moreover have "r_flag (reserve s1 t) = 0"
      using s1(2) f(2) requested_frame(1) [of s t C T t] by (auto simp: refused_def reserve_def)
    moreover have "core (reserve s1 u) = core (reserve s u)" if "u \<noteq> t" for u
      using s1(2) that requested_frame(1) [of s t C T u] by (auto simp: refused_def reserve_def)
    moreover have "threads s1 = threads s" "partition_policy s1 = partition_policy s"
      using s1(2) by (auto simp: refused_def requested_frame)
    ultimately show ?thesis
      using None set_reserve_create [OF f a s1(1)] by (simp add: errno_defs)
  next
    case (Some c)
    with spec obtain s1 where c: "c \<in> {0..3}" and s1: "create_bind ?s t cpuid = Inr (0, c, s1)" "joined t c ?s s1" by auto
    have t': "t \<in> set (threads ?s)" "r_period (reserve ?s t) = to_millis T" "0 < to_millis T"
      using t a(1) by (simp_all add: requested_frame args_ok_def)
    have d': "dir_ok ?s t" "r_flag (reserve ?s t) = 0 \<or> timers_idle ?s t" "\<forall>d\<in>{0..3}. length (bin ?s d) < 100"
      using d f(2) room by (simp_all add: dir_ok_def requested_frame) (simp add: requested_def set_numbers_def)
    have "e_setaffinity e tid [c] = 0" using e(2) c by blast
    from activate_after_join [OF but s1(2) c t' e(1) this d', where old = "reserve s t" and C = C] Some c
    show ?thesis
      unfolding set_reserve_create [OF f a s1(1)] requested_frame(12) by (simp add: requested_frame(1,2,7))
  qed
qed

subsection \<open>Revising a reservation\<close>

lemma unbind_sys_ok_but:
  assumes ok: "sys_ok s" and t: "t \<in> set (threads s)" "r_flag (reserve s t) \<noteq> 0" "r_cpu (reserve s t) = c"
  shows "\<exists>s0. unbind s t c = Inr s0 \<and> sys_ok_but t s0 \<and> bin_frame c s s0 \<and> bin s0 c = remove1 t (bin s c)"
proof -
  have c: "c \<in> {0..3}" "t \<in> set (bin s c)" and bo: "bin_ok s c"
    using ok t by (auto simp: sys_ok_def reserved_ok_def all_bins_ok_def)
  with unbind_spec [of c s t] obtain s0 where s0: "unbind s t c = Inr s0" "bin_frame c s s0"
    "bin s0 c = remove1 t (bin s c)" "bin_ok s0 c" by auto
  note fr = bin_frame_other [OF s0(2)]
  have "bin_ok s0 d" if "d \<in> {0..3}" for d
  proof (cases "d = c")
    case False
    then have "bin_ok s0 d = bin_ok s d" using fr by (intro bin_ok_cong) auto
    then show ?thesis using ok that by (simp add: sys_ok_def all_bins_ok_def)
  qed (simp add: s0(4))
  moreover have "u \<noteq> t \<and> u \<in> set (threads s) \<and> r_flag (reserve s u) \<noteq> 0 \<and> r_cpu (reserve s u) = d"
    if d: "d \<in> {0..3}" and u: "u \<in> set (bin s0 d)" for d u
  proof -
    have b: "bin s0 d = (if d = c then remove1 t (bin s c) else bin s d)" using s0(3) fr(1) by simp
    then have "u \<in> set (bin s d)" using u set_remove1_subset [of t "bin s c"] by (auto split: if_splits)
    moreover have "distinct (bin s c)" using bo by (simp add: bin_ok_def)
    ultimately show ?thesis using ok d u b t(3) by (auto simp: sys_ok_def bin_members_def split: if_splits)
  qed
  moreover have "reserved_ok s0 u" if "u \<in> set (threads s)" "u \<noteq> t" for u
  proof -
    have "reserved_ok s u" using ok that(1) by (simp add: sys_ok_def)
    moreover have "bin s0 d = (if d = c then remove1 t (bin s c) else bin s d)" for d using s0(3) fr(1) by simp
    ultimately show ?thesis using that(2) fr(2) by (auto simp: reserved_ok_def)
  qed
  moreover have "last_ok s0 = last_ok s" "known_policy s0 = known_policy s"
    using s0(2) by (auto simp: bin_frame_def set_bin_def last_ok_def known_policy_def policy_char_def)
  ultimately have "sys_ok_but t s0"
    using ok fr(2,3) unfolding sys_ok_but_def all_bins_ok_def sys_ok_def by simp
  with s0 show ?thesis by blast
qed

lemma revise_unbind_same:
  assumes "unbind s t c = Inr s0"
  shows "revise_unbind (requested s t C T) t c c (r_util (reserve s t)) = Inr (requested s0 t C T)"
  using assms
  by (auto simp: unbind_def revise_unbind_def requested_def set_numbers_def upd_reserve_def upd_task_def
      set_bin_def Let_def split: if_splits)

lemma set_reserve_revise_same:
  assumes f: "find_task_by_vpid s tid = Some t" "r_flag (reserve s t) \<noteq> 0" "r_cpu (reserve s t) = c" "c \<in> {0..3}"
    and a: "args_ok C T" and u: "unbind s t c = Inr s0" and b: "try_bind (requested s0 t C T) t c = Inr (0, s1)"
  shows "set_reserve e s tid (Some C) (Some T) c =
      bindR (set_affinity e t tid c (reserve s t) (init_flags t s1)) (\<lambda>(r, online, s2).
             if r \<noteq> 0 then Inr (r, s2) else activate e t tid C T c online s2)"
  using f a b revise_unbind_same [OF u, of C T]
  by (simp add: set_reserve_def reserve_util_ok(1) bind_task_def revise_bind_def Let_def flip: requested_def)

lemma revise_ok:
  assumes ok: "sys_ok s" and f: "find_task_by_vpid s tid = Some t" "r_flag (reserve s t) \<noteq> 0" "r_cpu (reserve s t) = c"
    and a: "args_ok C T" and e: "files_ok e" "e_setaffinity e tid [c] = 0" and d: "dir_ok s t" "timers_idle s t"
    and room: "\<forall>d\<in>{0..3}. length (bin s d) < 100"
    and u: "unbind s t c = Inr s0" "admits (requested s0 t C T) t c"
  shows "\<exists>s'. set_reserve e s tid (Some C) (Some T) c = Inr (0, s') \<and> sys_ok s' \<and>
      bin s' c = insert_by_period (requested s0 t C T) t (remove1 t (bin s c)) \<and>
      (\<forall>d\<in>{0..3}. d \<noteq> c \<longrightarrow> bin s' d = bin s d) \<and>
      r_flag (reserve s' t) = 1 \<and> r_cpu (reserve s' t) = c \<and> r_C (reserve s' t) = C \<and> r_T (reserve s' t) = T \<and>
      r_p_timer (reserve s' t) = period_timer (e_now e) T \<and>
      (\<forall>v. v \<noteq> t \<longrightarrow> core (reserve s' v) = core (reserve s v)) \<and>
      threads s' = threads s \<and> partition_policy s' = partition_policy s"
proof -
  let ?s = "requested s0 t C T"
  have t: "t \<in> set (threads s)" using find_task_by_vpid_SomeD [OF f(1)] by simp
  have c: "c \<in> {0..3}" using ok t f by (auto simp: sys_ok_def reserved_ok_def)
  from unbind_sys_ok_but [OF ok t f(2,3)] u(1) have s0: "sys_ok_but t s0" "bin_frame c s s0" "bin s0 c = remove1 t (bin s c)"
    by auto
  note fr = bin_frame_other [OF s0(2)]
  have but: "sys_ok_but t ?s" using s0(1) by (rule requested_sys_ok_but)
  have to: "task_ok (reserve ?s t)" using a by (rule requested_task_ok)
  have b0: "bin_ok ?s c" using but c by (simp add: sys_ok_but_def all_bins_ok_def)
  from try_bind_spec [OF _ _ b0 to] c u(2) obtain s1 where
    s1: "try_bind ?s t c = Inr (0, s1)" "bound ?s t c s1" by auto
  have "placed_in t ?s c s1" using s1(2) same_bins_refl unfolding placed_in_def by blast
  then have "joined t c ?s (s1\<lparr>lastCpuID_create := lastCpuID_create ?s\<rparr>)"
    using but c to sys_ok_but_not_in [OF but c] u(2)
    by (intro placed_joined) (simp_all add: sys_ok_but_def last_ok_def)
  moreover have "lastCpuID_create s1 = lastCpuID_create ?s"
    using s1(2) by (auto simp: bound_def bin_frame_def set_bin_def)
  then have "s1\<lparr>lastCpuID_create := lastCpuID_create ?s\<rparr> = s1" by (cases s1) simp
  ultimately have j: "joined t c ?s s1" by simp
  have t': "t \<in> set (threads ?s)" "r_period (reserve ?s t) = to_millis T" "0 < to_millis T"
    using t a fr(3) by (simp_all add: requested_frame args_ok_def)
  have k0: "kallocd s0 = kallocd s" "partition_policy s0 = partition_policy s" using s0(2) by (auto simp: bin_frame_def set_bin_def)
  have d': "dir_ok ?s t" "r_flag (reserve ?s t) = 0 \<or> timers_idle ?s t"
    using d fr(2) k0 by (simp_all add: dir_ok_def timers_idle_def requested_frame) (simp add: requested_def set_numbers_def)
  have "length (bin ?s x) < 100" if "x \<in> {0..3}" for x
  proof -
    have "length (bin s x) < 100" using room that by blast
    then show ?thesis
      using fr(1) [of x] s0(3) by (cases "x = c") (auto simp: requested_frame length_remove1)
  qed
  with activate_after_join [OF but j c t' e d', where old = "reserve s t" and C = C]
  show ?thesis
    unfolding set_reserve_revise_same [OF f c a u(1) s1(1)] requested_frame(12)
    using s0(3) fr c k0(2) by (auto simp: requested_frame(1,2,7))
qed

text \<open>A refused revision: the old numbers are restored and the thread is put back into its array, behind the
  tasks of the same period. The code ignores whether that succeeds, so it is a premise here.\<close>

lemma restored_numbers:
  assumes "reserve s0 t = old"
  shows "set_numbers t (r_util old) (r_period old) (r_budget old) ((requested s0 t C T)\<lparr>cpu_tasks := a\<rparr>) = s0\<lparr>cpu_tasks := a\<rparr>"
  using assms by (simp add: requested_def set_numbers_def upd_reserve_def upd_task_def reserve_def fun_upd_idem)

lemma rejoined_sys_ok:
  assumes ok: "sys_ok s" and t: "t \<in> set (threads s)" "r_flag (reserve s t) \<noteq> 0" "r_cpu (reserve s t) = c"
    and s0: "bin_frame c s s0" "bin s0 c = remove1 t (bin s c)" and j: "joined t c s0 s2"
  shows "sys_ok s2"
proof -
  have c: "c \<in> {0..3}" "t \<in> set (bin s c)" using ok t by (auto simp: sys_ok_def reserved_ok_def)
  note fr = bin_frame_other [OF s0(1)]
  obtain a n u l where s2: "s2 = s0\<lparr>cpu_tasks := a, cpu_tasks_length := n, cpu_util := u, lastCpuID_create := l\<rparr>"
    "l \<in> {0..3}" "all_bins_ok s2"
    and b2: "\<And>d. d \<in> {0..3} \<Longrightarrow> bin s2 d = (if d = c then insert_by_period s0 t (bin s0 c) else bin s0 d)"
    using j by (auto simp: joined_def)
  have r: "reserve s2 v = reserve s v" for v using fr(2) [of v] by (simp add: s2(1) reserve_def)
  have f: "threads s2 = threads s" "cpu_open s2 = cpu_open s" "lastCpuID_revise s2 = lastCpuID_revise s" "partition_policy s2 = partition_policy s"
    using s0(1) by (auto simp: s2(1) bin_frame_def set_bin_def)
  have m: "mset (bin s2 d) = mset (bin s d)" if "d \<in> {0..3}" for d
    using b2 [OF that] s0(2) fr(1) [of d] c(2) by (auto simp: mset_insert_by_period)
  have st: "set (bin s2 d) = set (bin s d)" if "d \<in> {0..3}" for d
    using arg_cong [OF m [OF that], of set_mset] by simp
  have "cpu_util s2 d = cpu_util s d" if d: "d \<in> {0..3}" for d
  proof -
    have "util_sum s2 (bin s2 d) = util_sum s (bin s d)"
      using m [OF d] by (simp add: util_sum_mset r)
    with s2(3) ok d show ?thesis by (simp add: all_bins_ok_def bin_ok_def sys_ok_def)
  qed
  then have "open_ok s2" using ok by (simp add: open_ok_def f sys_ok_def)
  moreover have "bin_members s2" using ok st by (simp add: bin_members_def sys_ok_def f r)
  moreover have "reserved_ok s2 v" if "v \<in> set (threads s)" for v
    using ok st that by (simp add: reserved_ok_def sys_ok_def r)
  ultimately show ?thesis
    using ok s2(2,3) by (simp add: sys_ok_def f last_ok_def known_policy_def policy_char_def) (simp add: s2(1))
qed

lemma revise_refused:
  assumes ok: "sys_ok s" and f: "find_task_by_vpid s tid = Some t" "r_flag (reserve s t) \<noteq> 0" "r_cpu (reserve s t) = c"
    and a: "args_ok C T" and u: "unbind s t c = Inr s0" "\<not> admits (requested s0 t C T) t c" "admits s0 t c"
  shows "\<exists>s'. set_reserve e s tid (Some C) (Some T) c = Inr (EBUSY, s') \<and> sys_ok s' \<and> reserve s' = reserve s \<and>
    threads s' = threads s \<and> partition_policy s' = partition_policy s"
proof -
  let ?s = "requested s0 t C T"
  have t: "t \<in> set (threads s)" using find_task_by_vpid_SomeD [OF f(1)] by simp
  have c: "c \<in> {0..3}" "t \<in> set (bin s c)" using ok t f by (auto simp: sys_ok_def reserved_ok_def)
  from unbind_sys_ok_but [OF ok t f(2,3)] u(1) have s0: "sys_ok_but t s0" "bin_frame c s s0" "bin s0 c = remove1 t (bin s c)"
    by auto
  note fr = bin_frame_other [OF s0(2)]
  have but: "sys_ok_but t ?s" using s0(1) by (rule requested_sys_ok_but)
  have b0: "bin_ok ?s c" using but c by (simp add: sys_ok_but_def all_bins_ok_def)
  from try_bind_spec [OF _ _ b0 requested_task_ok [OF a]] c u(2) obtain s1 where
    s1: "try_bind ?s t c = Inr (EBUSY, s1)" "untouched ?s c s1" by auto
  from untouched_same_bins [OF s1(2)] obtain x where x: "s1 = ?s\<lparr>cpu_tasks := x\<rparr>" "\<forall>d\<in>{0..3}. bin s1 d = bin ?s d"
    unfolding same_bins_def by blast
  let ?s1 = "s0\<lparr>cpu_tasks := x\<rparr>"
  have "bin ?s1 = bin s1" by (simp add: x(1) bin_def fun_eq_iff requested_frame)
  with x(2) have sb: "same_bins s0 ?s1" unfolding same_bins_def by (auto simp: requested_frame)
  have to: "task_ok (reserve s0 t)" using ok c fr(2) by (auto simp: sys_ok_def all_bins_ok_def bin_ok_def)
  have ok1: "bin_ok ?s1 c" "admits ?s1 t c"
    using s0(1) sb c(1) u(3) by (auto simp: same_bins_bin_ok [OF sb] sys_ok_but_def all_bins_ok_def admits_cong [of ?s1 s0] same_bins_frame)
  from try_bind_spec [OF _ _ ok1(1), of t] ok1(2) to c(1) obtain s2 where
    s2: "try_bind ?s1 t c = Inr (0, s2)" "bound ?s1 t c s2" by auto
  have "placed_in t s0 c s2" using s2(2) sb unfolding placed_in_def by blast
  then have "joined t c s0 (s2\<lparr>lastCpuID_create := lastCpuID_create s0\<rparr>)"
    using s0(1) c(1) to sys_ok_but_not_in [OF s0(1) c(1)] u(3)
    by (intro placed_joined) (simp_all add: sys_ok_but_def last_ok_def)
  moreover have e2: "lastCpuID_create s2 = lastCpuID_create s0" "reserve s2 = reserve s" "threads s2 = threads s"
    "partition_policy s2 = partition_policy s"
    using s2(2) s0(2) by (auto simp: bound_def bin_frame_def set_bin_def reserve_def fun_eq_iff)
  then have "s2\<lparr>lastCpuID_create := lastCpuID_create s0\<rparr> = s2" by (cases s2) simp
  ultimately have "sys_ok s2" using rejoined_sys_ok [OF ok t f(2,3) s0(2,3)] by simp
  moreover have "put_back t (reserve s t) s1 = Inr s2"
    using s2(1) f(3) restored_numbers [of s0 t "reserve s t" x C T] fr(2) by (simp add: put_back_def x(1))
  then have "set_reserve e s tid (Some C) (Some T) c = Inr (EBUSY, s2)"
    using f a s1(1) c(1) revise_unbind_same [OF u(1), of C T]
    by (simp add: set_reserve_def reserve_util_ok(1) bind_task_def revise_bind_def Let_def errno_defs flip: requested_def)
  ultimately show ?thesis using e2 by blast
qed

section \<open>Properties\<close>


lemma boot_sys_ok: "distinct ps \<Longrightarrow> sys_ok (boot_state ps)"
  by (simp add: sys_ok_def boot_state_def all_bins_ok_code bin_ok_def bin_def bin_members_code reserved_ok_def
      reserve_def init_task_def init_reserve_def open_ok_code last_ok_code known_policy_def policy_char_def
      by_period_def util_sum_def reserve_consts)




text \<open>C21. Revising a reservation on the processor it is on replaces it: when the array without the
  thread admits the new numbers, the call returns 0, the thread has its new place in the same array and
  its new budget and period, and the invariant holds.\<close>

theorem set_reserve_revises:
  assumes ok: "sys_ok s" and f: "find_task_by_vpid s tid = Some t" "r_flag (reserve s t) \<noteq> 0" "r_cpu (reserve s t) = c"
    and a: "args_ok C T" and e: "files_ok e" "e_setaffinity e tid [c] = 0" and d: "dir_ok s t" "timers_idle s t"
    and room: "\<forall>d\<in>{0..3}. length (bin s d) < 100"
    and u: "unbind s t c = Inr s0" "admits (requested s0 t C T) t c"
  shows "\<exists>s'. set_reserve e s tid (Some C) (Some T) c = Inr (0, s') \<and> sys_ok s' \<and>
      bin s' c = insert_by_period (requested s0 t C T) t (remove1 t (bin s c)) \<and>
      (\<forall>d\<in>{0..3}. d \<noteq> c \<longrightarrow> bin s' d = bin s d) \<and>
      r_flag (reserve s' t) = 1 \<and> r_cpu (reserve s' t) = c \<and> r_C (reserve s' t) = C \<and> r_T (reserve s' t) = T \<and>
      r_p_timer (reserve s' t) = period_timer (e_now e) T \<and>
      (\<forall>v. v \<noteq> t \<longrightarrow> core (reserve s' v) = core (reserve s v)) \<and>
      threads s' = threads s \<and> partition_policy s' = partition_policy s"
  by (rule revise_ok [OF assms])

text \<open>A thread reserved on processor 0 with 10 ms every 100 ms.\<close>

definition one_reserved :: kst where
  "one_reserved = upd_reserve 7 (\<lambda>r. r\<lparr>r_flag := 1, r_cpu := 0, r_budget := 10, r_period := 100, r_util := 1000,
       r_C := millis 10, r_T := millis 100\<rparr>) (boot_state [7])
     \<lparr>cpu_tasks := (\<lambda>_ _. 7), cpu_tasks_length := (\<lambda>c. if c = 0 then 1 else 0),
      cpu_util := (\<lambda>c. if c = 0 then 1000 else 0), cpu_open := (\<lambda>c. if c = 0 then 1 else 0)\<rparr>"

lemma one_reserved_facts:
  "sys_ok one_reserved" "find_task_by_vpid one_reserved 7 = Some 7" "r_flag (reserve one_reserved 7) = 1"
  "r_cpu (reserve one_reserved 7) = 0" "dir_ok one_reserved 7" "timers_idle one_reserved 7" "mem_ok one_reserved 7"
  "length (bin one_reserved 0) < 100" "length (bin one_reserved 1) < 100" "length (bin one_reserved 2) < 100"
  "length (bin one_reserved 3) < 100" "bin one_reserved 0 = [7]"
  by code_simp+

theorem set_reserve_revises_witness:
  "\<exists>s'. set_reserve one_cpu_env one_reserved 7 (Some (millis 20)) (Some (millis 50)) 0 = Inr (0, s') \<and> sys_ok s' \<and>
     bin s' 0 = [7] \<and> r_T (reserve s' 7) = millis 50"
proof -
  from unbind_sys_ok_but [of one_reserved 7 0] obtain s0 where s0: "unbind one_reserved 7 0 = Inr s0"
    using one_reserved_facts find_task_by_vpid_SomeD by fastforce
  have "case unbind one_reserved 7 0 of Inl _ \<Rightarrow> False | Inr s0 \<Rightarrow>
      (case try_bind (requested s0 7 (millis 20) (millis 50)) 7 0 of Inl _ \<Rightarrow> False | Inr (r, _) \<Rightarrow> r = 0) \<and>
      bin_ok (requested s0 7 (millis 20) (millis 50)) 0 \<and> task_ok (reserve (requested s0 7 (millis 20) (millis 50)) 7)"
    by code_simp
  then have "admits (requested s0 7 (millis 20) (millis 50)) 7 0"
    using s0 try_bind_spec [of 0 "requested s0 7 (millis 20) (millis 50)" 7]
    by (auto simp: errno_defs split: if_splits)
  moreover have "args_ok (millis 20) (millis 50)" by code_simp
  ultimately show ?thesis
    using set_reserve_revises [of one_reserved 7 7 0 "millis 20" "millis 50" one_cpu_env s0] s0 one_reserved_facts
    by (auto simp: one_cpu_env_def files_ok_def four_cpus insert_by_period_def)
qed

text \<open>Asking for automatic placement of a thread that already has a reservation reads the task array
  at index -1.\<close>

lemma set_reserve_revise_auto_faults:
  assumes ok: "sys_ok s" and f: "find_task_by_vpid s tid = Some t" "r_flag (reserve s t) \<noteq> 0" and a: "args_ok C T"
  shows "set_reserve e s tid (Some C) (Some T) (-1) = Inl OutOfBounds"
proof -
  have "t \<in> set (threads s)" using find_task_by_vpid_SomeD [OF f(1)] by simp
  then have c: "0 \<le> r_cpu (reserve s t)" "r_cpu (reserve s t) \<le> 3" "t \<in> set (bin s (r_cpu (reserve s t)))"
    using ok f(2) by (auto simp: sys_ok_def reserved_ok_def)
  then have "0 < cpu_tasks_length s (r_cpu (reserve s t))" by (auto simp: bin_def arr_list_def)
  with c f a show ?thesis
    by (simp add: set_reserve_def reserve_util_ok(1) bind_task_def revise_unbind_def Let_def set_numbers_def)
qed

text \<open>Threads 1 and 3 reserved on processor 0 and thread 2 on processor 1.\<close>

definition three_reserved :: kst where
  "three_reserved = fold (\<lambda>(t, c, p). upd_reserve t (\<lambda>r. r\<lparr>r_flag := 1, r_cpu := c, r_budget := 10, r_period := p,
       r_util := 100000 div p, r_C := millis 10, r_T := millis p\<rparr>)) [(1, 0, 100), (2, 1, 100), (3, 0, 200)] (boot_state [1, 2, 3])
     \<lparr>cpu_tasks := (\<lambda>c i. if c = 1 then 2 else if i = 0 then 1 else 3),
      cpu_tasks_length := (\<lambda>c. if c = 0 then 2 else if c = 1 then 1 else 0),
      cpu_util := (\<lambda>c. if c = 0 then 1500 else if c = 1 then 1000 else 0), cpu_open := (\<lambda>c. if c = 0 \<or> c = 1 then 1 else 0)\<rparr>"


text \<open>C23. Cancelling a reservation returns 0, stops both timers, takes the thread out of its array and
  clears its flag, leaves every other reservation and array alone and keeps the invariant. When the
  monitoring directory exists the name of the thread's file is read once after it has been freed.\<close>

theorem cancel_reserve_releases:
  assumes "sys_ok s" "find_task_by_vpid s tid = Some t" "r_flag (reserve s t) \<noteq> 0"
    and "e_setaffinity e tid [0, 1, 2, 3] = 0" "mem_ok s t" "timers_idle s t" "\<forall>d\<in>{0..3}. length (bin s d) \<le> 100"
  shows "\<exists>s'. cancel_reserve e s tid = Inr (0, s') \<and> sys_ok s' \<and> r_flag (reserve s' t) = 0 \<and>
     \<not> hr_enqueued (r_c_timer (reserve s' t)) \<and> \<not> hr_enqueued (r_p_timer (reserve s' t)) \<and>
     (\<forall>u. u \<noteq> t \<longrightarrow> core (reserve s' u) = core (reserve s u)) \<and>
     (\<forall>d\<in>{0..3}. bin s' d = (if d = r_cpu (reserve s t) then remove1 t (bin s d) else bin s d)) \<and>
     stale_reads s' = stale_reads s + (if util_kobj s \<noteq> 0 then 1 else 0)"
  using cancel_ok [OF assms] by (auto simp: cancelled_def)

theorem cancel_reserve_releases_witness:
  "\<exists>s'. cancel_reserve one_cpu_env one_reserved 7 = Inr (0, s') \<and> sys_ok s' \<and> bin s' 0 = [] \<and> r_flag (reserve s' 7) = 0"
  using cancel_reserve_releases [of one_reserved 7 7 one_cpu_env] one_reserved_facts
  by (auto simp: one_cpu_env_def four_cpus)

text \<open>A second \<^verbatim>\<open>cancel_reserve\<close>, or one for a thread whose pointers were already freed, frees the
  name of its file again.\<close>

lemma cancel_reserve_double_free:
  assumes "find_task_by_vpid s tid = Some t" "r_flag (reserve s t) = 0" "util_kobj s \<noteq> 0"
    and "r_tid_name (reserve s t) \<noteq> 0" "r_tid_name (reserve s t) \<notin> kallocd s"
  shows "cancel_reserve e s tid = Inl BadFree"
  using assms by (simp add: cancel_reserve_def remove_util_file_def kfree_def)

end
