(* ===== verification/Timers.thy ===== *)
theory Timers
  imports Reserve
begin

text \<open>
  The two timer callbacks of \<^verbatim>\<open>rtes/kernel/reserve.c\<close>. While a reserved thread runs, \<^verbatim>\<open>c_timer_callback\<close>
  adds a tick to its accumulators and suspends it when the budget is used up; \<^verbatim>\<open>p_timer_callback\<close> ends a
  period: it records the utilization of the period for the monitor, clears the accumulator, wakes the
  thread and forwards the timer.
  \<^item> A critical section of a spin lock is one step of the model.
  \<^item> \<open>run_c_timer\<close> and \<open>run_p_timer\<close> are the callbacks as \<^verbatim>\<open>__run_hrtimer\<close> calls them.
\<close>

section \<open>The code\<close>

definition KHZ_PER_MHZ :: int where "KHZ_PER_MHZ = 1000"

definition add_tick :: "timespec \<Rightarrow> timespec" where
  "add_tick acc =
     (let nsec = s32 (tv_nsec acc + RESERVE_INCREMENT_NS)
      in if nsec > NS_PER_S then \<lparr>tv_sec = s32 (tv_sec acc + 1), tv_nsec = nsec - NS_PER_S\<rparr>
         else acc\<lparr>tv_nsec := nsec\<rparr>)"

definition over_budget :: "timespec \<Rightarrow> timespec \<Rightarrow> bool" where
  "over_budget acc C \<longleftrightarrow> tv_sec acc > tv_sec C \<or> (tv_sec acc = tv_sec C \<and> tv_nsec acc > tv_nsec C)"

definition suspend_task :: "tptr \<Rightarrow> kst \<Rightarrow> kst" where
  "suspend_task t s =
     (if r_suspend (reserve s t) = 0
      then upd_reserve t (\<lambda>r. r\<lparr>r_suspend := 1\<rparr>)
             (upd_task t (\<lambda>x. x\<lparr>t_state := TASK_UNINTERRUPTIBLE, t_need_resched := True\<rparr>) s)
      else s)"

definition c_timer_callback :: "kenv \<Rightarrow> tptr \<Rightarrow> kst \<Rightarrow> (hrtimer_restart \<times> kst) res" where
  "c_timer_callback e t s =
     (let s1 = upd_reserve t (\<lambda>r. r\<lparr>r_acc_single_run := add_tick (r_acc_single_run r), r_acc := add_tick (r_acc r)\<rparr>) s;
          r = reserve s1 t
      in if over_budget (r_acc r) (r_C r) then Inr (HRTIMER_NORESTART, suspend_task t s1)
         else
           bindR (hrtimer_forward (e_resolution e) (r_c_timer r) (e_now e) (ktime_set 0 RESERVE_INTERVAL_NS)) (\<lambda>(_, timer).
             Inr (HRTIMER_RESTART, upd_reserve t (\<lambda>r. r\<lparr>r_c_timer := timer\<rparr>) s1)))"

text \<open>The ring buffer of samples: \<^verbatim>\<open>start\<close> and \<^verbatim>\<open>end\<close> are \<^verbatim>\<open>short\<close>, the comparison with \<^verbatim>\<open>BUF_LENGTH\<close>
  is unsigned.\<close>

definition ring_next :: "int \<Rightarrow> int" where
  "ring_next i = (let j = s16 (i + 1) in if u32 j \<ge> BUF_LENGTH then s16 (j - BUF_LENGTH) else j)"

definition acc_millis :: "timespec \<Rightarrow> int" where
  "acc_millis acc = s32 (s32 (1000 * tv_sec acc) + tv_nsec acc sdiv 1000000)"

definition record_sample :: "tptr \<Rightarrow> kst \<Rightarrow> kst res" where
  "record_sample t s =
     (let r = reserve s t; p = r_periods r; end = ring_next (r_end r) in
      if p = 0 then Inl NullDeref
      else if end < 0 \<or> BUF_LENGTH \<le> end then Inl OutOfBounds
      else
        let full = (end = r_start r \<and> karray s p (r_start r) \<noteq> 0) in
        bindR (c_div (s32 (acc_millis (r_acc r) * 100)) (r_period r)) (\<lambda>util.
          Inr ((upd_reserve t (\<lambda>r. r\<lparr>r_end := end,
                  r_buffer_full := (if full then 1 else r_buffer_full r),
                  r_start := (if full then ring_next (r_start r) else r_start r),
                  r_taskmon_enabled := (if r_taskmon_enabled r \<noteq> 0 \<and> r_end r \<noteq> -1 then r_taskmon_enabled r else 1),
                  r_utilization := (r_utilization r)(end := util)\<rparr>) s)
               \<lparr>karray := (karray s)(p := (karray s p)(end := taskmon_acc_time s))\<rparr>)))"

definition wake_up_process :: "tptr \<Rightarrow> kst \<Rightarrow> kst" where
  "wake_up_process t s =
     (if t_state (task s t) \<noteq> TASK_RUNNING then upd_task t (\<lambda>x. x\<lparr>t_state := TASK_RUNNING\<rparr>) s else s)"

definition update_freqs :: "kenv \<Rightarrow> kst \<Rightarrow> kst" where
  "update_freqs e s =
     s\<lparr>cpu_freq := (\<lambda>c. if 0 \<le> c \<and> c \<le> 3 \<and> cpu_online s c then e_cpufreq_get e c div KHZ_PER_MHZ else cpu_freq s c)\<rparr>"

definition end_period :: "tptr \<Rightarrow> kst \<Rightarrow> kst" where
  "end_period t s =
     upd_reserve t (\<lambda>r. r\<lparr>r_sig_sent := 0, r_num_p := u64 (r_num_p r + 1), r_total_time := u64 (r_total_time r + r_period r)\<rparr>) s"

definition resume_task :: "tptr \<Rightarrow> kst \<Rightarrow> kst" where
  "resume_task t s =
     (if r_suspend (reserve s t) \<noteq> 0 then upd_reserve t (\<lambda>r. r\<lparr>r_suspend := 0\<rparr>) (wake_up_process t s) else s)"

definition p_timer_callback :: "kenv \<Rightarrow> tptr \<Rightarrow> kst \<Rightarrow> (hrtimer_restart \<times> kst) res" where
  "p_timer_callback e t s =
     (let s1 = end_period t (update_freqs e s) in
      bindR (if taskmon_attr_set s1 \<and> taskmon_enabled s1 \<noteq> 0 then record_sample t s1
             else Inr (upd_reserve t (\<lambda>r. r\<lparr>r_taskmon_enabled := 0\<rparr>) s1)) (\<lambda>s2.
      let s3 = upd_reserve t (\<lambda>r. r\<lparr>r_acc := zero_time\<rparr>) s2 in
      bindR (if rtes_kobj s3 = 0 \<and> r_pid_kobj (reserve s3 t) \<noteq> 0
             then bindR (remove_energy_dir t s3) (\<lambda>s4. Inr (upd_reserve t (\<lambda>r. r\<lparr>r_tracking_energy := 0\<rparr>) s4))
             else Inr s3) (\<lambda>s5.
      let s6 = resume_task t s5; r = reserve s6 t in
      bindR (hrtimer_forward (e_resolution e) (r_p_timer r) (e_now e) (ktime_set (tv_sec (r_T r)) (tv_nsec (r_T r)))) (\<lambda>(_, timer).
        Inr (HRTIMER_RESTART, upd_reserve t (\<lambda>r. r\<lparr>r_p_timer := timer\<rparr>) s6)))))"

text \<open>A timer whose time has come: \<^verbatim>\<open>__run_hrtimer\<close> around the callback.\<close>

definition run_c_timer :: "kenv \<Rightarrow> tptr \<Rightarrow> kst \<Rightarrow> kst res" where
  "run_c_timer e t s =
     bindR (c_timer_callback e t (upd_reserve t (\<lambda>r. r\<lparr>r_c_timer := run_hrtimer_begin (r_c_timer r)\<rparr>) s)) (\<lambda>(restart, s1).
       Inr (upd_reserve t (\<lambda>r. r\<lparr>r_c_timer := run_hrtimer_end restart (r_c_timer r)\<rparr>) s1))"

definition run_p_timer :: "kenv \<Rightarrow> tptr \<Rightarrow> kst \<Rightarrow> kst res" where
  "run_p_timer e t s =
     bindR (p_timer_callback e t (upd_reserve t (\<lambda>r. r\<lparr>r_p_timer := run_hrtimer_begin (r_p_timer r)\<rparr>) s)) (\<lambda>(restart, s1).
       Inr (upd_reserve t (\<lambda>r. r\<lparr>r_p_timer := run_hrtimer_end restart (r_p_timer r)\<rparr>) s1))"

section \<open>The budget\<close>

definition ns :: "timespec \<Rightarrow> int" where
  "ns ts = tv_sec ts * NS_PER_S + tv_nsec ts"

text \<open>An accumulator holds at most one whole second in its nanoseconds, because the carry is taken above
  and not at it.\<close>

definition acc_ok :: "timespec \<Rightarrow> bool" where
  "acc_ok ts \<longleftrightarrow> 0 \<le> tv_sec ts \<and> tv_sec ts < 2147483647 \<and> 0 \<le> tv_nsec ts \<and> tv_nsec ts \<le> NS_PER_S"

definition budget_ok :: "timespec \<Rightarrow> bool" where
  "budget_ok ts \<longleftrightarrow> 0 \<le> tv_sec ts \<and> tv_sec ts < 2147483646 \<and> 0 \<le> tv_nsec ts \<and> tv_nsec ts < NS_PER_S"

lemma add_tick_ns:
  assumes "acc_ok acc"
  shows "ns (add_tick acc) = ns acc + RESERVE_INCREMENT_NS"
    and "0 \<le> tv_nsec (add_tick acc) \<and> tv_nsec (add_tick acc) \<le> NS_PER_S \<and> 0 \<le> tv_sec (add_tick acc)"
proof -
  have "s32 (tv_nsec acc + 495000) = tv_nsec acc + 495000" "s32 (tv_sec acc + 1) = tv_sec acc + 1"
    using assms by (simp_all add: acc_ok_def reserve_consts s32_id)
  then show "ns (add_tick acc) = ns acc + RESERVE_INCREMENT_NS"
    "0 \<le> tv_nsec (add_tick acc) \<and> tv_nsec (add_tick acc) \<le> NS_PER_S \<and> 0 \<le> tv_sec (add_tick acc)"
    using assms by (simp_all add: add_tick_def ns_def acc_ok_def reserve_consts Let_def)
qed

text \<open>The comparison of seconds and nanoseconds is that of the times, the late carry notwithstanding.\<close>

lemma over_budget_iff:
  assumes "0 \<le> tv_nsec acc" "tv_nsec acc \<le> NS_PER_S" "0 \<le> tv_nsec C" "tv_nsec C < NS_PER_S"
  shows "over_budget acc C \<longleftrightarrow> ns C < ns acc"
proof -
  consider "tv_sec acc < tv_sec C" | "tv_sec acc = tv_sec C" | "tv_sec C + 1 \<le> tv_sec acc" by linarith
  then show ?thesis
  proof cases
    case 1
    then have "(tv_sec acc + 1) * NS_PER_S \<le> tv_sec C * NS_PER_S" by (intro mult_right_mono) (simp_all add: reserve_consts)
    then show ?thesis using 1 assms by (simp add: over_budget_def ns_def algebra_simps)
  next
    case 2
    then show ?thesis by (simp add: over_budget_def ns_def)
  next
    case 3
    then have "(tv_sec C + 1) * NS_PER_S \<le> tv_sec acc * NS_PER_S" by (intro mult_right_mono) (simp_all add: reserve_consts)
    then show ?thesis using 3 assms by (simp add: over_budget_def ns_def algebra_simps)
  qed
qed

lemma under_budget_acc_ok:
  assumes "acc_ok acc" "budget_ok C" "ns (add_tick acc) \<le> ns C"
  shows "acc_ok (add_tick acc)"
proof -
  have "tv_sec (add_tick acc) \<le> tv_sec C"
  proof (rule ccontr)
    assume "\<not> ?thesis"
    then have "(tv_sec C + 1) * NS_PER_S \<le> tv_sec (add_tick acc) * NS_PER_S"
      by (intro mult_right_mono) (simp_all add: reserve_consts)
    then show False using assms(2,3) add_tick_ns(2) [OF assms(1)] by (simp add: ns_def budget_ok_def algebra_simps)
  qed
  then show ?thesis using add_tick_ns(2) [OF assms(1)] assms(2) by (simp add: acc_ok_def budget_ok_def)
qed

text \<open>A moment at which a timer may run: it has expired, and the times are below 36 years.\<close>

definition due :: "kenv \<Rightarrow> hrtimer \<Rightarrow> bool" where
  "due e timer \<longleftrightarrow> hr_enqueued timer \<and> 0 \<le> hr_expires timer \<and> hr_expires timer \<le> e_now e \<and> e_now e < 2 ^ 60 \<and>
     0 < e_resolution e \<and> e_resolution e \<le> RESERVE_INTERVAL_NS"

lemma reserve_upd_task [simp]:
  "(\<And>x. t_reserve (f x) = t_reserve x) \<Longrightarrow> reserve (upd_task t f s) u = reserve s u"
  by (simp add: reserve_def upd_task_def)

lemma suspend_task_reserve:
  "reserve (suspend_task t s) u = (if u = t \<and> r_suspend (reserve s t) = 0 then (reserve s t)\<lparr>r_suspend := 1\<rparr> else reserve s u)"
  by (simp add: suspend_task_def)

text \<open>One tick.\<close>

definition ticked :: "tptr \<Rightarrow> kst \<Rightarrow> kst \<Rightarrow> bool" where
  "ticked t s s' \<longleftrightarrow> r_acc (reserve s' t) = add_tick (r_acc (reserve s t)) \<and>
     r_acc_single_run (reserve s' t) = add_tick (r_acc_single_run (reserve s t)) \<and>
     r_C (reserve s' t) = r_C (reserve s t) \<and> same_res s s' \<and> (\<forall>u. u \<noteq> t \<longrightarrow> reserve s' u = reserve s u)"

lemma same_res_suspend: "same_res s (suspend_task t s)"
  by (simp add: same_res_def suspend_task_reserve) (simp add: suspend_task_def)

lemma run_c_timer_spec:
  assumes acc: "acc_ok (r_acc (reserve s t))" and C: "budget_ok (r_C (reserve s t))" and d: "due e (r_c_timer (reserve s t))"
  shows "\<exists>s'. run_c_timer e t s = Inr s' \<and> ticked t s s' \<and>
    (if ns (r_C (reserve s t)) < ns (r_acc (reserve s t)) + RESERVE_INCREMENT_NS
     then r_suspend (reserve s' t) \<noteq> 0 \<and> \<not> hr_enqueued (r_c_timer (reserve s' t)) \<and>
       (r_suspend (reserve s t) = 0 \<longrightarrow> t_state (task s' t) = TASK_UNINTERRUPTIBLE \<and> t_need_resched (task s' t))
     else r_suspend (reserve s' t) = r_suspend (reserve s t) \<and> hr_enqueued (r_c_timer (reserve s' t)) \<and>
       t_state (task s' t) = t_state (task s t) \<and> acc_ok (r_acc (reserve s' t)) \<and>
       e_now e < hr_expires (r_c_timer (reserve s' t)) \<and>
       hr_expires (r_c_timer (reserve s' t)) \<le> e_now e + RESERVE_INTERVAL_NS)"
proof -
  let ?r = "reserve s t"
  let ?enter = "\<lambda>r. r\<lparr>r_c_timer := run_hrtimer_begin (r_c_timer r)\<rparr>"
  let ?acc = "\<lambda>r. r\<lparr>r_acc_single_run := add_tick (r_acc_single_run r), r_acc := add_tick (r_acc r)\<rparr>"
  let ?s1 = "upd_reserve t ?acc (upd_reserve t ?enter s)"
  have ns: "ns (add_tick (r_acc ?r)) = ns (r_acc ?r) + RESERVE_INCREMENT_NS" using add_tick_ns(1) [OF acc] .
  have over: "over_budget (add_tick (r_acc ?r)) (r_C ?r) \<longleftrightarrow> ns (r_C ?r) < ns (r_acc ?r) + RESERVE_INCREMENT_NS"
    unfolding ns [symmetric] using add_tick_ns(2) [OF acc] C by (intro over_budget_iff) (simp_all add: budget_ok_def)
  have b: "same_res s ?s1" by (rule same_res_trans [OF same_res_upd same_res_upd]) simp_all
  show ?thesis
  proof (cases "ns (r_C ?r) < ns (r_acc ?r) + RESERVE_INCREMENT_NS")
    case True
    let ?s2 = "suspend_task t ?s1"
    let ?s3 = "upd_reserve t (\<lambda>r. r\<lparr>r_c_timer := run_hrtimer_end HRTIMER_NORESTART (r_c_timer r)\<rparr>) ?s2"
    have "run_c_timer e t s = Inr ?s3" using True over by (simp add: run_c_timer_def c_timer_callback_def Let_def)
    moreover have "same_res s ?s3"
      by (rule same_res_trans [OF b same_res_trans [OF same_res_suspend same_res_upd]]) simp_all
    moreover have "r_suspend ?r = 0 \<longrightarrow> t_state (task ?s3 t) = TASK_UNINTERRUPTIBLE \<and> t_need_resched (task ?s3 t)"
      by (simp add: suspend_task_def) (simp add: upd_reserve_def upd_task_def)
    ultimately show ?thesis
      using True by (intro exI [of _ ?s3]) (simp add: ticked_def suspend_task_reserve run_hrtimer_begin_def run_hrtimer_end_def)
  next
    case False
    let ?tm = "run_hrtimer_begin (r_c_timer ?r)"
    have iv: "ktime_set 0 RESERVE_INTERVAL_NS = RESERVE_INTERVAL_NS" by (simp add: ktime_set_id reserve_consts)
    have p: "0 \<le> hr_expires ?tm" "hr_expires ?tm \<le> e_now e" "e_now e < 2 ^ 60" "0 < e_resolution e"
      "e_resolution e \<le> RESERVE_INTERVAL_NS" "RESERVE_INTERVAL_NS < 2 ^ 60"
      using d by (simp_all add: due_def run_hrtimer_begin_def reserve_consts)
    obtain n t' where f: "hrtimer_forward (e_resolution e) ?tm (e_now e) RESERVE_INTERVAL_NS = Inr (n, t')"
      "e_now e < hr_expires t'" "RESERVE_INTERVAL_NS < 4294967296 \<longrightarrow> hr_expires t' \<le> e_now e + RESERVE_INTERVAL_NS"
      by (rule hrtimer_forward_spec [OF p])
    let ?s2 = "upd_reserve t (\<lambda>r. r\<lparr>r_c_timer := t'\<rparr>) ?s1"
    let ?s3 = "upd_reserve t (\<lambda>r. r\<lparr>r_c_timer := run_hrtimer_end HRTIMER_RESTART (r_c_timer r)\<rparr>) ?s2"
    have "run_c_timer e t s = Inr ?s3"
      using False over f(1) by (simp add: run_c_timer_def c_timer_callback_def Let_def iv)
    moreover have "same_res s ?s3"
      by (rule same_res_trans [OF b same_res_trans [OF same_res_upd same_res_upd]]) simp_all
    moreover have "acc_ok (add_tick (r_acc ?r))" using False ns by (intro under_budget_acc_ok [OF acc C]) simp
    moreover have "t_state (task ?s3 t) = t_state (task s t)" by (simp add: upd_reserve_def upd_task_def)
    ultimately show ?thesis
      using False f(2,3) by (intro exI [of _ ?s3]) (simp add: ticked_def run_hrtimer_end_def enqueue_hrtimer_def reserve_consts)
  qed
qed

text \<open>Successive ticks at times at least one interval apart.\<close>

fun run_ticks :: "kenv list \<Rightarrow> tptr \<Rightarrow> kst \<Rightarrow> kst res" where
  "run_ticks [] t s = Inr s"
| "run_ticks (e # es) t s = bindR (run_c_timer e t s) (run_ticks es t)"

fun tick_times :: "int \<Rightarrow> kenv list \<Rightarrow> bool" where
  "tick_times x [] \<longleftrightarrow> True"
| "tick_times x (e # es) \<longleftrightarrow> x \<le> e_now e \<and> e_now e < 2 ^ 60 \<and> 0 < e_resolution e \<and>
     e_resolution e \<le> RESERVE_INTERVAL_NS \<and> tick_times (e_now e + RESERVE_INTERVAL_NS) es"

lemma tick_times_mono: "tick_times x es \<Longrightarrow> y \<le> x \<Longrightarrow> tick_times y es"
  by (cases es) auto

lemma run_ticks_spec:
  assumes "acc_ok (r_acc (reserve s t))" "budget_ok (r_C (reserve s t))" "r_suspend (reserve s t) = 0"
    "hr_enqueued (r_c_timer (reserve s t))" "0 \<le> hr_expires (r_c_timer (reserve s t))"
    "tick_times (hr_expires (r_c_timer (reserve s t))) es"
    "es \<noteq> [] \<longrightarrow> ns (r_acc (reserve s t)) + (int (length es) - 1) * RESERVE_INCREMENT_NS \<le> ns (r_C (reserve s t))"
  shows "\<exists>s'. run_ticks es t s = Inr s' \<and> same_res s s' \<and>
    (if es = [] \<or> ns (r_acc (reserve s t)) + int (length es) * RESERVE_INCREMENT_NS \<le> ns (r_C (reserve s t))
     then r_suspend (reserve s' t) = 0 \<and> t_state (task s' t) = t_state (task s t)
     else r_suspend (reserve s' t) \<noteq> 0 \<and> t_state (task s' t) = TASK_UNINTERRUPTIBLE \<and>
       \<not> hr_enqueued (r_c_timer (reserve s' t)))"
  using assms
proof (induction es arbitrary: s)
  case Nil
  then show ?case by (simp add: same_res_def)
next
  case (Cons e es)
  let ?A = "ns (r_acc (reserve s t))" and ?C = "ns (r_C (reserve s t))"
  have d: "due e (r_c_timer (reserve s t))" using Cons.prems by (simp add: due_def)
  from run_c_timer_spec [OF Cons.prems(1,2) d] obtain s1 where s1: "run_c_timer e t s = Inr s1" "ticked t s s1"
    and br: "if ?C < ?A + RESERVE_INCREMENT_NS
     then r_suspend (reserve s1 t) \<noteq> 0 \<and> \<not> hr_enqueued (r_c_timer (reserve s1 t)) \<and>
       (r_suspend (reserve s t) = 0 \<longrightarrow> t_state (task s1 t) = TASK_UNINTERRUPTIBLE \<and> t_need_resched (task s1 t))
     else r_suspend (reserve s1 t) = r_suspend (reserve s t) \<and> hr_enqueued (r_c_timer (reserve s1 t)) \<and>
       t_state (task s1 t) = t_state (task s t) \<and> acc_ok (r_acc (reserve s1 t)) \<and>
       e_now e < hr_expires (r_c_timer (reserve s1 t)) \<and>
       hr_expires (r_c_timer (reserve s1 t)) \<le> e_now e + RESERVE_INTERVAL_NS" by blast
  have len: "?A + int (length es) * RESERVE_INCREMENT_NS \<le> ?C" using Cons.prems(7) by simp
  have inc: "RESERVE_INCREMENT_NS = 495000" by (simp add: reserve_consts)
  show ?case
  proof (cases "?C < ?A + RESERVE_INCREMENT_NS")
    case True
    then have "es = []" using len by (cases es) (simp_all add: inc)
    then show ?thesis using True br s1 Cons.prems(3) by (simp add: ticked_def)
  next
    case False
    have A1: "ns (r_acc (reserve s1 t)) = ?A + RESERVE_INCREMENT_NS" "r_C (reserve s1 t) = r_C (reserve s t)"
      using s1(2) add_tick_ns(1) [OF Cons.prems(1)] by (simp_all add: ticked_def)
    have "0 \<le> e_now e" using d by (simp add: due_def)
    moreover have "tick_times (hr_expires (r_c_timer (reserve s1 t))) es"
      using Cons.prems(6) br False by (auto intro: tick_times_mono)
    ultimately obtain s' where s': "run_ticks es t s1 = Inr s'" "same_res s1 s'"
      "if es = [] \<or> ns (r_acc (reserve s1 t)) + int (length es) * RESERVE_INCREMENT_NS \<le> ns (r_C (reserve s1 t))
       then r_suspend (reserve s' t) = 0 \<and> t_state (task s' t) = t_state (task s1 t)
       else r_suspend (reserve s' t) \<noteq> 0 \<and> t_state (task s' t) = TASK_UNINTERRUPTIBLE \<and>
         \<not> hr_enqueued (r_c_timer (reserve s' t))"
      using Cons.IH [of s1] Cons.prems(2,3) br False len A1 by (auto simp: inc)
    have "same_res s s'" using s1(2) s'(2) same_res_trans by (auto simp: ticked_def)
    then show ?thesis using s1(1) s'(1,3) A1 br False by (auto simp: inc split: if_splits)
  qed
qed

section \<open>The end of a period\<close>

definition monitor_ok :: "kst \<Rightarrow> tptr \<Rightarrow> bool" where
  "monitor_ok s t \<longleftrightarrow> (taskmon_attr_set s \<and> taskmon_enabled s \<noteq> 0 \<longrightarrow> r_periods (reserve s t) \<noteq> 0 \<and>
     -1 \<le> r_end (reserve s t) \<and> r_end (reserve s t) < BUF_LENGTH)"

lemma ring_next_eq: "-1 \<le> i \<Longrightarrow> i < BUF_LENGTH \<Longrightarrow> ring_next i = (if i + 1 = BUF_LENGTH then 0 else i + 1)"
  by (auto simp: ring_next_def Let_def s16_id u32_id reserve_consts)

text \<open>The reservation members that the bookkeeping stages of the callback leave alone.\<close>

definition rest :: "reserve_t \<Rightarrow> int \<times> hrtimer \<times> int \<times> nat \<times> nat \<times> timespec \<times> hrtimer" where
  "rest r = (r_suspend r, r_p_timer r, r_num_p r, r_pid_kobj r, r_energy_attr r, r_C r, r_c_timer r)"

definition booked :: "kst \<Rightarrow> kst \<Rightarrow> bool" where
  "booked s s' \<longleftrightarrow> same_res s s' \<and> (\<forall>u. rest (reserve s' u) = rest (reserve s u) \<and> t_state (task s' u) = t_state (task s u)) \<and>
     kallocd s' = kallocd s \<and> rtes_kobj s' = rtes_kobj s"

lemma booked_trans: "booked s s' \<Longrightarrow> booked s' s'' \<Longrightarrow> booked s s''"
  using same_res_trans by (auto simp: booked_def)

lemma upd_reserve_state [simp]: "t_state (task (upd_reserve t f s) u) = t_state (task s u)"
  by (simp add: upd_reserve_def upd_task_def)

lemma booked_upd:
  assumes "\<And>r. r_flag (f r) = r_flag r" "\<And>r. r_cpu (f r) = r_cpu r" "\<And>r. r_util (f r) = r_util r"
    "\<And>r. r_period (f r) = r_period r" "\<And>r. r_budget (f r) = r_budget r" "\<And>r. r_T (f r) = r_T r" "\<And>r. rest (f r) = rest r"
  shows "booked s (upd_reserve t f s)"
  using same_res_upd [of f s t] assms by (simp add: booked_def)

lemma record_sample_ok:
  assumes "r_periods (reserve s t) \<noteq> 0" "-1 \<le> r_end (reserve s t)" "r_end (reserve s t) < BUF_LENGTH" "r_period (reserve s t) \<noteq> 0"
  shows "\<exists>s'. record_sample t s = Inr s' \<and> booked s s'"
proof -
  have e: "0 \<le> ring_next (r_end (reserve s t))" "ring_next (r_end (reserve s t)) < BUF_LENGTH"
    using assms(2,3) by (auto simp: ring_next_eq reserve_consts)
  then obtain f a where f: "record_sample t s = Inr ((upd_reserve t f s)\<lparr>karray := a\<rparr>)"
    "\<And>r. r_flag (f r) = r_flag r" "\<And>r. r_cpu (f r) = r_cpu r" "\<And>r. r_util (f r) = r_util r"
    "\<And>r. r_period (f r) = r_period r" "\<And>r. r_budget (f r) = r_budget r" "\<And>r. r_T (f r) = r_T r" "\<And>r. rest (f r) = rest r"
    using assms(1,4) by (simp add: record_sample_def Let_def c_div_def rest_def)
  have "booked s (upd_reserve t f s)" using f(2-8) by (rule booked_upd)
  moreover have "booked x (x\<lparr>karray := a\<rparr>)" for x by (simp add: booked_def same_res_def)
  ultimately show ?thesis using f(1) booked_trans by blast
qed

lemma resume_task_spec:
  "reserve (resume_task t s) u = (if u = t \<and> r_suspend (reserve s t) \<noteq> 0 then (reserve s t)\<lparr>r_suspend := 0\<rparr> else reserve s u)"
  "same_res s (resume_task t s)"
  "r_suspend (reserve s t) \<noteq> 0 \<Longrightarrow> t_state (task (resume_task t s) t) = TASK_RUNNING"
  "r_suspend (reserve s t) = 0 \<Longrightarrow> resume_task t s = s"
proof -
  have w: "reserve (wake_up_process t s) u = reserve s u" for u by (simp add: wake_up_process_def)
  show r: "reserve (resume_task t s) u = (if u = t \<and> r_suspend (reserve s t) \<noteq> 0 then (reserve s t)\<lparr>r_suspend := 0\<rparr> else reserve s u)" for u
    by (simp add: resume_task_def w)
  show "same_res s (resume_task t s)"
    by (simp add: same_res_def r) (simp add: resume_task_def wake_up_process_def)
  show "r_suspend (reserve s t) \<noteq> 0 \<Longrightarrow> t_state (task (resume_task t s) t) = TASK_RUNNING"
    by (simp add: resume_task_def wake_up_process_def) (simp add: upd_task_def)
  show "r_suspend (reserve s t) = 0 \<Longrightarrow> resume_task t s = s" by (simp add: resume_task_def)
qed

text \<open>A period that the timer arithmetic represents exactly.\<close>

definition period_due :: "kenv \<Rightarrow> reserve_t \<Rightarrow> bool" where
  "period_due e r \<longleftrightarrow> 0 \<le> tv_sec (r_T r) \<and> tv_sec (r_T r) < 1000000000 \<and> 0 \<le> tv_nsec (r_T r) \<and> tv_nsec (r_T r) < NS_PER_S \<and>
     0 \<le> hr_expires (r_p_timer r) \<and> hr_expires (r_p_timer r) \<le> e_now e \<and> e_now e < 2 ^ 60 \<and>
     0 < e_resolution e \<and> e_resolution e \<le> ns (r_T r)"

lemma booked_begin:
  "same_res s (end_period t (update_freqs e s))" "kallocd (end_period t (update_freqs e s)) = kallocd s"
  "rtes_kobj (end_period t (update_freqs e s)) = rtes_kobj s"
  "t_state (task (end_period t (update_freqs e s)) u) = t_state (task s u)"
  "reserve (end_period t (update_freqs e s)) u =
     (if u = t then (reserve s t)\<lparr>r_sig_sent := 0, r_num_p := u64 (r_num_p (reserve s t) + 1),
        r_total_time := u64 (r_total_time (reserve s t) + r_period (reserve s t))\<rparr> else reserve s u)"
proof -
  have u: "reserve (update_freqs e s) u = reserve s u" for u by (simp add: update_freqs_def)
  show "reserve (end_period t (update_freqs e s)) u =
     (if u = t then (reserve s t)\<lparr>r_sig_sent := 0, r_num_p := u64 (r_num_p (reserve s t) + 1),
        r_total_time := u64 (r_total_time (reserve s t) + r_period (reserve s t))\<rparr> else reserve s u)" for u
    by (simp add: end_period_def u)
  have "same_res s (update_freqs e s)" by (simp add: same_res_def u) (simp add: update_freqs_def)
  then show "same_res s (end_period t (update_freqs e s))"
    unfolding end_period_def by (rule same_res_trans) (rule same_res_upd; simp)
  show "kallocd (end_period t (update_freqs e s)) = kallocd s"
    "rtes_kobj (end_period t (update_freqs e s)) = rtes_kobj s"
    "t_state (task (end_period t (update_freqs e s)) u) = t_state (task s u)"
    by (simp_all add: end_period_def update_freqs_def)
qed

text \<open>The stages up to the clearing of the accumulator, and the removal of the energy files.\<close>

definition sample_stage :: "tptr \<Rightarrow> kst \<Rightarrow> kst res" where
  "sample_stage t s =
     (if taskmon_attr_set s \<and> taskmon_enabled s \<noteq> 0 then record_sample t s
      else Inr (upd_reserve t (\<lambda>r. r\<lparr>r_taskmon_enabled := 0\<rparr>) s))"

definition dir_stage :: "tptr \<Rightarrow> kst \<Rightarrow> kst res" where
  "dir_stage t s =
     (if rtes_kobj s = 0 \<and> r_pid_kobj (reserve s t) \<noteq> 0
      then bindR (remove_energy_dir t s) (\<lambda>s4. Inr (upd_reserve t (\<lambda>r. r\<lparr>r_tracking_energy := 0\<rparr>) s4))
      else Inr s)"

lemma sample_stage_ok:
  assumes "monitor_ok s t" "r_period (reserve s t) \<noteq> 0"
  shows "\<exists>s'. sample_stage t s = Inr s' \<and> booked s s'"
proof (cases "taskmon_attr_set s \<and> taskmon_enabled s \<noteq> 0")
  case True
  with assms record_sample_ok [of s t] show ?thesis by (simp add: sample_stage_def monitor_ok_def)
next
  case False
  have "booked s (upd_reserve t (\<lambda>r. r\<lparr>r_taskmon_enabled := 0\<rparr>) s)" by (rule booked_upd) (simp_all add: rest_def)
  with False show ?thesis by (auto simp: sample_stage_def)
qed

lemma dir_stage_ok:
  assumes "dir_ok s t"
  shows "\<exists>s'. dir_stage t s = Inr s' \<and> kept s s' \<and> r_suspend (reserve s' t) = r_suspend (reserve s t) \<and>
    r_num_p (reserve s' t) = r_num_p (reserve s t) \<and> r_acc (reserve s' t) = r_acc (reserve s t) \<and>
    t_state (task s' t) = t_state (task s t) \<and> (rtes_kobj s = 0 \<longrightarrow> r_pid_kobj (reserve s' t) = 0)"
proof (cases "rtes_kobj s = 0 \<and> r_pid_kobj (reserve s t) \<noteq> 0")
  case True
  with remove_energy_dir_ok [OF assms] obtain s1 where s1: "remove_energy_dir t s = Inr s1" by blast
  let ?s2 = "upd_reserve t (\<lambda>r. r\<lparr>r_tracking_energy := 0\<rparr>) s1"
  have "kept s ?s2" using kept_remove_energy_dir [OF s1] by (rule kept_trans) (rule kept_upd, simp add: core_def)
  moreover have "reserve s1 t = (reserve s t)\<lparr>r_pid_kobj := 0\<rparr> \<and> t_state (task s1 t) = t_state (task s t)"
    using s1 by (auto simp: remove_energy_dir_def bindR_eq_Inr kfree_def kobject_put_def sysfs_remove_file_def Let_def
        split: if_splits)
  ultimately show ?thesis using True s1 by (simp add: dir_stage_def)
next
  case False
  then show ?thesis by (auto simp: dir_stage_def)
qed

lemma p_timer_callback_stages:
  "p_timer_callback e t s =
     bindR (sample_stage t (end_period t (update_freqs e s))) (\<lambda>s2.
     bindR (dir_stage t (upd_reserve t (\<lambda>r. r\<lparr>r_acc := zero_time\<rparr>) s2)) (\<lambda>s5.
       let s6 = resume_task t s5; r = reserve s6 t in
       bindR (hrtimer_forward (e_resolution e) (r_p_timer r) (e_now e) (ktime_set (tv_sec (r_T r)) (tv_nsec (r_T r)))) (\<lambda>(_, timer).
         Inr (HRTIMER_RESTART, upd_reserve t (\<lambda>r. r\<lparr>r_p_timer := timer\<rparr>) s6))))"
  by (simp only: p_timer_callback_def sample_stage_def dir_stage_def Let_def)

lemma run_p_timer_spec:
  assumes m: "monitor_ok s t" "r_period (reserve s t) \<noteq> 0" "dir_ok s t" and d: "period_due e (reserve s t)"
  shows "\<exists>s' n. run_p_timer e t s = Inr s' \<and> same_res s s' \<and> r_acc (reserve s' t) = zero_time \<and>
    r_suspend (reserve s' t) = 0 \<and> r_num_p (reserve s' t) = u64 (r_num_p (reserve s t) + 1) \<and>
    (r_suspend (reserve s t) \<noteq> 0 \<longrightarrow> t_state (task s' t) = TASK_RUNNING) \<and>
    (r_suspend (reserve s t) = 0 \<longrightarrow> t_state (task s' t) = t_state (task s t)) \<and>
    hr_enqueued (r_p_timer (reserve s' t)) \<and> 1 \<le> n \<and>
    hr_expires (r_p_timer (reserve s' t)) = hr_expires (r_p_timer (reserve s t)) + n * ns (r_T (reserve s t)) \<and>
    e_now e < hr_expires (r_p_timer (reserve s' t)) \<and> r_C (reserve s' t) = r_C (reserve s t)"
proof -
  let ?r = "reserve s t"
  let ?s0 = "upd_reserve t (\<lambda>r. r\<lparr>r_p_timer := run_hrtimer_begin (r_p_timer r)\<rparr>) s"
  let ?s1 = "end_period t (update_freqs e ?s0)"
  note b1 = booked_begin [where s = ?s0 and t = t and e = e]
  have fl: "taskmon_attr_set ?s1 = taskmon_attr_set s" "taskmon_enabled ?s1 = taskmon_enabled s"
    by (simp_all add: end_period_def update_freqs_def)
  have "monitor_ok ?s1 t" using m(1) by (simp add: monitor_ok_def fl b1(5))
  then obtain s2 where s2: "sample_stage t ?s1 = Inr s2" "booked ?s1 s2" using sample_stage_ok m(2) b1(5) by fastforce
  let ?s3 = "upd_reserve t (\<lambda>r. r\<lparr>r_acc := zero_time\<rparr>) s2"
  have r2: "rest (reserve s2 t) = rest (reserve ?s1 t)" "kallocd s2 = kallocd s" "t_state (task s2 t) = t_state (task s t)"
    using s2(2) b1(2,4) by (simp_all add: booked_def)
  have "dir_ok ?s3 t" using m(3) r2 b1(5) by (simp add: dir_ok_def rest_def)
  then obtain s5 where s5: "dir_stage t ?s3 = Inr s5" "kept ?s3 s5" "r_suspend (reserve s5 t) = r_suspend (reserve ?s3 t)"
    "r_num_p (reserve s5 t) = r_num_p (reserve ?s3 t)" "r_acc (reserve s5 t) = r_acc (reserve ?s3 t)"
    "t_state (task s5 t) = t_state (task ?s3 t)" using dir_stage_ok by blast
  let ?s6 = "resume_task t s5"
  have sr: "same_res s ?s6"
  proof -
    have 1: "same_res s ?s0" by (rule same_res_upd) simp_all
    have 2: "same_res ?s1 s2" using s2(2) unfolding booked_def by (elim conjE)
    have 3: "same_res s2 ?s3" by (rule same_res_upd) simp_all
    show ?thesis
      by (rule same_res_trans [OF same_res_trans [OF same_res_trans [OF same_res_trans [OF same_res_trans [OF 1 b1(1)] 2] 3]
            kept_same_res [OF s5(2)]] resume_task_spec(2)])
  qed
  have r5: "r_p_timer (reserve s5 t) = run_hrtimer_begin (r_p_timer ?r)" "r_T (reserve s5 t) = r_T ?r"
    "r_C (reserve s5 t) = r_C ?r" "r_suspend (reserve s5 t) = r_suspend ?r" "r_num_p (reserve s5 t) = u64 (r_num_p ?r + 1)"
    using kept_core [OF s5(2)] s5(3,4) r2(1) b1(5) s2(2) sr by (simp_all add: rest_def booked_def same_res_def)
  have r6: "r_p_timer (reserve ?s6 t) = run_hrtimer_begin (r_p_timer ?r)" "r_T (reserve ?s6 t) = r_T ?r"
    "r_C (reserve ?s6 t) = r_C ?r" "r_suspend (reserve ?s6 t) = 0" "r_num_p (reserve ?s6 t) = u64 (r_num_p ?r + 1)"
    "r_acc (reserve ?s6 t) = zero_time"
    using r5 s5(5) by (simp_all add: resume_task_spec(1))
  have iv: "ktime_set (tv_sec (r_T ?r)) (tv_nsec (r_T ?r)) = ns (r_T ?r)"
    using d by (subst ktime_set_id) (simp_all add: period_due_def ns_def reserve_consts)
  have p: "0 \<le> hr_expires (run_hrtimer_begin (r_p_timer ?r))" "hr_expires (run_hrtimer_begin (r_p_timer ?r)) \<le> e_now e"
    "e_now e < 2 ^ 60" "0 < e_resolution e" "e_resolution e \<le> ns (r_T ?r)" "ns (r_T ?r) < 2 ^ 60"
    using d by (simp_all add: period_due_def run_hrtimer_begin_def ns_def reserve_consts)
  obtain n t' where f: "hrtimer_forward (e_resolution e) (run_hrtimer_begin (r_p_timer ?r)) (e_now e) (ns (r_T ?r)) = Inr (n, t')"
    "1 \<le> n" "hr_expires t' = hr_expires (run_hrtimer_begin (r_p_timer ?r)) + n * ns (r_T ?r)" "e_now e < hr_expires t'"
    by (rule hrtimer_forward_spec [OF p])
  let ?s7 = "upd_reserve t (\<lambda>r. r\<lparr>r_p_timer := t'\<rparr>) ?s6"
  let ?s8 = "upd_reserve t (\<lambda>r. r\<lparr>r_p_timer := run_hrtimer_end HRTIMER_RESTART (r_p_timer r)\<rparr>) ?s7"
  have "run_p_timer e t s = Inr ?s8"
    unfolding run_p_timer_def p_timer_callback_stages s2(1) bindR_Inr s5(1) Let_def r6(1,2) iv f(1) by simp
  moreover have "same_res s ?s8"
    by (rule same_res_trans [OF sr same_res_trans [OF same_res_upd same_res_upd]]) simp_all
  moreover have "(r_suspend ?r \<noteq> 0 \<longrightarrow> t_state (task ?s6 t) = TASK_RUNNING) \<and>
      (r_suspend ?r = 0 \<longrightarrow> t_state (task ?s6 t) = t_state (task s t))"
    using resume_task_spec(3,4) [of s5 t] r5(4) s5(6) r2(3) by simp
  ultimately show ?thesis
    using f(2-4) r6 by (intro exI [of _ ?s8] exI [of _ n])
      (simp add: run_hrtimer_end_def enqueue_hrtimer_def run_hrtimer_begin_def)
qed

section \<open>Properties\<close>

text \<open>C24. A thread that starts a period is suspended exactly when it has been charged more than its
  budget: after every number of ticks up to \<open>C div 495000\<close> nanoseconds it still runs, and after one more
  tick it is suspended and its budget timer is off. The reservations and arrays are not touched.\<close>

theorem budget_enforced:
  assumes "r_acc (reserve s t) = zero_time" "budget_ok (r_C (reserve s t))" "r_suspend (reserve s t) = 0"
    and "hr_enqueued (r_c_timer (reserve s t))" "0 \<le> hr_expires (r_c_timer (reserve s t))"
    and "tick_times (hr_expires (r_c_timer (reserve s t))) es"
    and "int (length es) \<le> ns (r_C (reserve s t)) div RESERVE_INCREMENT_NS + 1"
  shows "\<exists>s'. run_ticks es t s = Inr s' \<and> same_res s s' \<and>
    (if int (length es) \<le> ns (r_C (reserve s t)) div RESERVE_INCREMENT_NS
     then r_suspend (reserve s' t) = 0 \<and> t_state (task s' t) = t_state (task s t)
     else r_suspend (reserve s' t) \<noteq> 0 \<and> t_state (task s' t) = TASK_UNINTERRUPTIBLE \<and>
       \<not> hr_enqueued (r_c_timer (reserve s' t)))"
proof -
  let ?C = "ns (r_C (reserve s t))"
  have pos: "0 < RESERVE_INCREMENT_NS" "ns zero_time = 0" "acc_ok zero_time"
    by (simp_all add: reserve_consts ns_def zero_time_def acc_ok_def)
  have le: "k * RESERVE_INCREMENT_NS \<le> ?C \<longleftrightarrow> k \<le> ?C div RESERVE_INCREMENT_NS" for k
    using le_div_iff_int [OF pos(1)] by simp
  have "0 \<le> ?C" using assms(2) by (simp add: budget_ok_def ns_def reserve_consts)
  then have "0 \<le> ?C div RESERVE_INCREMENT_NS" using pos(1) by (simp add: pos_imp_zdiv_nonneg_iff)
  with run_ticks_spec [of s t es] assms pos le [of "int (length es)"] le [of "int (length es) - 1"]
  show ?thesis by (auto split: if_splits)
qed

definition ticking :: kst where
  "ticking = upd_reserve 7 (\<lambda>r. r\<lparr>r_C := millis 1, r_c_timer := (r_c_timer r)\<lparr>hr_enqueued := True\<rparr>\<rparr>) one_reserved"

theorem budget_enforced_witness:
  "\<exists>s1 s2. run_ticks (map (\<lambda>k. one_cpu_env\<lparr>e_now := k\<rparr>) [0, 500000]) 7 ticking = Inr s1 \<and> r_suspend (reserve s1 7) = 0 \<and>
     run_ticks (map (\<lambda>k. one_cpu_env\<lparr>e_now := k\<rparr>) [0, 500000, 1000000]) 7 ticking = Inr s2 \<and>
     t_state (task s2 7) = TASK_UNINTERRUPTIBLE"
proof -
  have h: "r_acc (reserve ticking 7) = zero_time" "budget_ok (r_C (reserve ticking 7))" "r_suspend (reserve ticking 7) = 0"
    "hr_enqueued (r_c_timer (reserve ticking 7))" "hr_expires (r_c_timer (reserve ticking 7)) = 0"
    "ns (r_C (reserve ticking 7)) div RESERVE_INCREMENT_NS = 2" by code_simp+
  have "tick_times 0 (map (\<lambda>k. one_cpu_env\<lparr>e_now := k\<rparr>) [0, 500000])"
    "tick_times 0 (map (\<lambda>k. one_cpu_env\<lparr>e_now := k\<rparr>) [0, 500000, 1000000])"
    by (simp_all add: one_cpu_env_def reserve_consts)
  with budget_enforced [of ticking 7 "map (\<lambda>k. one_cpu_env\<lparr>e_now := k\<rparr>) [0, 500000]"]
    budget_enforced [of ticking 7 "map (\<lambda>k. one_cpu_env\<lparr>e_now := k\<rparr>) [0, 500000, 1000000]"] h
  show ?thesis by (auto split: if_splits)
qed

text \<open>C25. The end of a period: the accumulator is cleared, a suspended thread runs again, the period is
  counted, the timer is armed again a whole number of periods later and after the current time, and the
  invariant of the reservations is kept.\<close>

theorem p_timer_replenishes:
  assumes "monitor_ok s t" "r_period (reserve s t) \<noteq> 0" "dir_ok s t" "period_due e (reserve s t)"
  shows "\<exists>s' n. run_p_timer e t s = Inr s' \<and> sys_ok s' = sys_ok s \<and> r_acc (reserve s' t) = zero_time \<and>
    r_suspend (reserve s' t) = 0 \<and> r_num_p (reserve s' t) = u64 (r_num_p (reserve s t) + 1) \<and>
    t_state (task s' t) = (if r_suspend (reserve s t) \<noteq> 0 then TASK_RUNNING else t_state (task s t)) \<and>
    hr_enqueued (r_p_timer (reserve s' t)) \<and> 1 \<le> n \<and>
    hr_expires (r_p_timer (reserve s' t)) = hr_expires (r_p_timer (reserve s t)) + n * ns (r_T (reserve s t)) \<and>
    e_now e < hr_expires (r_p_timer (reserve s' t))"
  using run_p_timer_spec [OF assms] same_res_sys_ok by force

theorem p_timer_replenishes_witness:
  "\<exists>s'. run_p_timer (one_cpu_env\<lparr>e_now := 120000000\<rparr>) 7 (suspend_task 7 one_reserved) = Inr s' \<and> sys_ok s' \<and>
     t_state (task s' 7) = TASK_RUNNING \<and> 120000000 < hr_expires (r_p_timer (reserve s' 7))"
proof -
  have "monitor_ok (suspend_task 7 one_reserved) 7" "r_period (reserve (suspend_task 7 one_reserved) 7) \<noteq> 0"
    "dir_ok (suspend_task 7 one_reserved) 7" "r_suspend (reserve (suspend_task 7 one_reserved) 7) \<noteq> 0"
    "sys_ok (suspend_task 7 one_reserved)" by code_simp+
  moreover have "period_due (one_cpu_env\<lparr>e_now := 120000000\<rparr>) (reserve (suspend_task 7 one_reserved) 7)" by code_simp
  ultimately show ?thesis
    using p_timer_replenishes [of "suspend_task 7 one_reserved" 7 "one_cpu_env\<lparr>e_now := 120000000\<rparr>"] by force
qed

text \<open>C26. \<^verbatim>\<open>end_job\<close> of a reserved thread that is not suspended puts it to sleep, and the end of the period
  wakes it; without a reservation it returns -1 and changes nothing.\<close>

theorem end_job_until_next_period:
  assumes "monitor_ok s t" "r_period (reserve s t) \<noteq> 0" "dir_ok s t" "period_due e (reserve s t)" "r_suspend (reserve s t) = 0"
  shows "if r_flag (reserve s t) = 0 then end_job t s = (-1, s)
    else \<exists>s1 s2. end_job t s = (0, s1) \<and> t_state (task s1 t) = TASK_UNINTERRUPTIBLE \<and>
      run_p_timer e t s1 = Inr s2 \<and> t_state (task s2 t) = TASK_RUNNING \<and> r_suspend (reserve s2 t) = 0 \<and> same_res s s2"
proof (cases "r_flag (reserve s t) = 0")
  case False
  let ?s0 = "upd_task t (\<lambda>x. x\<lparr>t_state := TASK_UNINTERRUPTIBLE\<rparr>) s"
  let ?s1 = "upd_reserve t (\<lambda>r. r\<lparr>r_suspend := 1\<rparr>) ?s0"
  have j: "end_job t s = (0, ?s1)" using False assms(5) by (simp add: end_job_def)
  have "monitor_ok ?s1 t" "r_period (reserve ?s1 t) \<noteq> 0" "dir_ok ?s1 t" "period_due e (reserve ?s1 t)"
    using assms by (simp_all add: monitor_ok_def dir_ok_def period_due_def)
  from run_p_timer_spec [OF this] obtain s2 where s2: "run_p_timer e t ?s1 = Inr s2" "same_res ?s1 s2"
    "t_state (task s2 t) = TASK_RUNNING" "r_suspend (reserve s2 t) = 0" by auto
  have "same_res s ?s0" by (simp add: same_res_def)
  then have "same_res s ?s1" by (rule same_res_trans) (rule same_res_upd; simp)
  then have "same_res s s2" using s2(2) by (rule same_res_trans)
  moreover have "t_state (task ?s1 t) = TASK_UNINTERRUPTIBLE" by (simp add: upd_task_def)
  ultimately show ?thesis using False j s2 by auto
qed (simp add: end_job_def)

theorem end_job_until_next_period_witness:
  "\<exists>s1 s2. end_job 7 one_reserved = (0, s1) \<and> run_p_timer (one_cpu_env\<lparr>e_now := 120000000\<rparr>) 7 s1 = Inr s2 \<and>
     t_state (task s2 7) = TASK_RUNNING"
proof -
  have "monitor_ok one_reserved 7" "r_period (reserve one_reserved 7) \<noteq> 0" "r_suspend (reserve one_reserved 7) = 0"
    "period_due (one_cpu_env\<lparr>e_now := 120000000\<rparr>) (reserve one_reserved 7)" by code_simp+
  with end_job_until_next_period [of one_reserved 7 "one_cpu_env\<lparr>e_now := 120000000\<rparr>"] one_reserved_facts
  show ?thesis by auto
qed

text \<open>A thread reserved before the monitor was loaded has no sample buffer: once monitoring is
  enabled, the end of its next period writes through a NULL pointer.\<close>

lemma p_timer_null_buffer:
  assumes "taskmon_attr_set s" "taskmon_enabled s \<noteq> 0" "r_periods (reserve s t) = 0"
  shows "run_p_timer e t s = Inl NullDeref"
  using assms booked_begin(5) [where s = "upd_reserve t (\<lambda>r. r\<lparr>r_p_timer := run_hrtimer_begin (r_p_timer r)\<rparr>) s" and t = t and e = e]
  by (simp add: run_p_timer_def p_timer_callback_def record_sample_def Let_def)
    (simp add: end_period_def update_freqs_def)

end
