(* ===== verification/Monitor.thy ===== *)
theory Monitor
  imports Timers
begin

text \<open>
  The sample buffer of a reservation: \<^verbatim>\<open>p_timer_callback\<close> puts the utilization of every period into it
  (\<open>record_sample\<close>) and \<^verbatim>\<open>tid_show\<close> of \<^verbatim>\<open>rtes/kernel/reserve.c\<close> prints it when the file
  \<^verbatim>\<open>/sys/rtes/taskmon/util/<tid>\<close> is read.
  \<^item> The text is the list of characters written to the page so far. Every \<^verbatim>\<open>scnprintf\<close> is told that a
    whole page is left, so a write that does not fit is a fault.
  \<^item> \<open>sample_log\<close> is the interface a monitor relies on; the model is shown to provide it for the samples of
    the first lap of the buffer.
\<close>

section \<open>The code\<close>

definition emit :: "string \<Rightarrow> string \<Rightarrow> string res" where
  "emit buf str =
     (let (_, stored) = scnprintf PAGE_SIZE str
      in if int (length buf) + int (length stored) + 1 > PAGE_SIZE then Inl OutOfBounds else Inr (buf @ stored))"

function take_hundreds :: "int \<Rightarrow> int \<Rightarrow> int \<times> int" where
  "take_hundreds u integer_part =
     (if u \<ge> 100 then take_hundreds (u - 100) (s32 (integer_part + 1)) else (u, integer_part))"
  by pat_completeness auto
termination
  by (relation "measure (\<lambda>(u, _). nat u)") auto

declare take_hundreds.simps [simp del]

definition newline :: string where "newline = [CHR 0x0A]"

definition show_util :: "int \<Rightarrow> int \<Rightarrow> int \<times> int \<times> string" where
  "show_util u integer_part =
     (if u < 10 then (u, integer_part, ''0.0'' @ fmt_d u @ newline)
      else if u < 100 then (u, integer_part, ''0.'' @ fmt_d u @ newline)
      else let (u, integer_part) = take_hundreds u integer_part
           in (u, integer_part, fmt_d integer_part @ ''.'' @ fmt_d u @ newline))"

definition tid_pending :: "reserve_t \<Rightarrow> bool" where
  "tid_pending r \<longleftrightarrow> r_start r \<noteq> r_end r + 1 \<or> r_buffer_full r \<noteq> 0"

definition tid_step :: "tptr \<Rightarrow> kst \<Rightarrow> string \<Rightarrow> int \<Rightarrow> (kst \<times> string \<times> int) res" where
  "tid_step t s buf integer_part =
     (let r = reserve s t; p = r_periods r; i = r_start r in
      if p = 0 then Inl NullDeref
      else if i < 0 \<or> BUF_LENGTH \<le> i then Inl OutOfBounds
      else
        bindR (emit buf (fmt_u (karray s p i) @ '' '')) (\<lambda>buf1.
          let (u, integer_part, txt) = show_util (r_utilization r i) integer_part in
          bindR (emit buf1 txt) (\<lambda>buf2.
            Inr (upd_reserve t (\<lambda>r. r\<lparr>r_utilization := (r_utilization r)(i := u), r_start := ring_next i,
                   r_buffer_full := 0\<rparr>) s, buf2, integer_part))))"

partial_function (option) tid_loop :: "tptr \<Rightarrow> kst \<Rightarrow> string \<Rightarrow> int \<Rightarrow> (kst \<times> string) res option" where
  "tid_loop t s buf integer_part =
     (if tid_pending (reserve s t) then
        (case tid_step t s buf integer_part of
           Inl e \<Rightarrow> Some (Inl e)
         | Inr (s1, buf1, integer_part1) \<Rightarrow> tid_loop t s1 buf1 integer_part1)
      else Some (Inr (s, buf)))"

declare tid_loop.simps [code]

definition tid_show :: "string \<Rightarrow> kst \<Rightarrow> (int \<times> string \<times> kst) res" where
  "tid_show name s =
     (case find_task_by_vpid s (fst (simple_strtol name 10)) of
        None \<Rightarrow> Inr (ESRCH, [], s)
      | Some t \<Rightarrow> bindR (the_loop (tid_loop t s [] 0)) (\<lambda>(s1, buf). Inr (int (length buf), buf, s1)))"

section \<open>Reading always ends\<close>

lemma emit_longer: "emit buf str = Inr buf' \<Longrightarrow> length buf \<le> length buf' \<and> length buf' < 4096"
  by (auto simp: emit_def scnprintf_def snprintf_def Let_def reserve_consts split: if_splits)

lemma emit_nonempty: "emit buf str = Inr buf' \<Longrightarrow> str \<noteq> [] \<Longrightarrow> length buf < length buf'"
  by (cases str) (auto simp: emit_def scnprintf_def snprintf_def Let_def reserve_consts split: if_splits)

lemma tid_step_longer:
  assumes "tid_step t s buf i = Inr (s1, buf1, i1)"
  shows "length buf < length buf1 \<and> length buf1 < 4096"
proof -
  obtain u ip str where sh: "show_util (r_utilization (reserve s t) (r_start (reserve s t))) i = (u, ip, str)"
    by (cases "show_util (r_utilization (reserve s t) (r_start (reserve s t))) i")
  obtain b1 where b1: "emit buf (fmt_u (karray s (r_periods (reserve s t)) (r_start (reserve s t))) @ '' '') = Inr b1"
    and b2: "emit b1 str = Inr buf1"
    using assms by (auto simp: tid_step_def Let_def bindR_eq_Inr sh split: if_splits)
  show ?thesis using emit_nonempty [OF b1] emit_longer [OF b2] by simp
qed

lemma tid_loop_total: "\<exists>x. tid_loop t s buf i = Some x"
proof (induction "4096 - length buf" arbitrary: s buf i rule: less_induct)
  case less
  show ?case
  proof (cases "tid_step t s buf i")
    case (Inr y)
    obtain s1 buf1 i1 where y: "y = (s1, buf1, i1)" by (cases y)
    have "length buf < length buf1 \<and> length buf1 < 4096" using Inr y by (intro tid_step_longer) simp
    then have "4096 - length buf1 < 4096 - length buf" by arith
    from less [OF this] Inr y show ?thesis by (subst tid_loop.simps) simp
  qed (subst tid_loop.simps, simp)
qed

section \<open>What is printed\<close>

definition sample_line :: "int \<times> int \<Rightarrow> string" where
  "sample_line x = decimal (fst x) @ '' '' @ (if snd x < 10 then ''0.0'' else ''0.'') @ decimal (snd x) @ newline"

definition sample_ok :: "int \<times> int \<Rightarrow> bool" where
  "sample_ok x \<longleftrightarrow> 0 \<le> fst x \<and> fst x < 2 ^ 64 \<and> 0 \<le> snd x \<and> snd x < 100"

definition sample_at :: "kst \<Rightarrow> tptr \<Rightarrow> int \<Rightarrow> int \<times> int" where
  "sample_at s t i = (karray s (r_periods (reserve s t)) i, r_utilization (reserve s t) i)"

definition samples :: "kst \<Rightarrow> tptr \<Rightarrow> (int \<times> int) list" where
  "samples s t = map (sample_at s t) [r_start (reserve s t)..r_end (reserve s t)]"

lemma emit_short:
  assumes "length str < 4096"
  shows "emit buf str = (if length buf + length str < 4096 then Inr (buf @ str) else Inl OutOfBounds)"
  using assms by (auto simp: emit_def scnprintf_def snprintf_def Let_def reserve_consts)

lemma decimal_short:
  assumes "0 \<le> n" "n < 2 ^ 64"
  shows "length (decimal n) \<le> 20"
  using length_decimal [of n 20] assms by simp

lemma tid_step_sample:
  assumes "r_periods (reserve s t) \<noteq> 0" "0 \<le> r_start (reserve s t)" "r_start (reserve s t) < 4095"
    and ok: "sample_ok (sample_at s t (r_start (reserve s t)))"
  shows "tid_step t s buf i =
    (let b = buf @ sample_line (sample_at s t (r_start (reserve s t))) in
     if length b < 4096
     then Inr (upd_reserve t (\<lambda>r. r\<lparr>r_start := r_start r + 1, r_buffer_full := 0\<rparr>) s, b, i) else Inl OutOfBounds)"
proof -
  let ?r = "reserve s t"
  let ?tm = "karray s (r_periods ?r) (r_start ?r)" and ?u = "r_utilization ?r (r_start ?r)"
  have tm: "0 \<le> ?tm" "?tm < 2 ^ 64" and u: "0 \<le> ?u" "?u < 100" using ok by (simp_all add: sample_ok_def sample_at_def)
  have f: "fmt_u ?tm = decimal ?tm" "fmt_d ?u = decimal ?u" using tm u by (simp_all add: fmt_u_decimal fmt_d_decimal)
  have l: "length (decimal ?tm) \<le> 20" "length (decimal ?u) \<le> 20"
    using decimal_short [OF tm] decimal_short [of ?u] u by simp_all
  let ?txt = "(if ?u < 10 then ''0.0'' else ''0.'') @ decimal ?u @ newline"
  have sh: "show_util ?u i = (?u, i, ?txt)" using u f(2) by (simp add: show_util_def)
  have n: "ring_next (r_start ?r) = r_start ?r + 1" using assms(2,3) by (subst ring_next_eq) (simp_all add: reserve_consts)
  have e1: "emit buf (decimal ?tm @ '' '') =
      (if length buf + length (decimal ?tm) + 1 < 4096 then Inr (buf @ decimal ?tm @ '' '') else Inl OutOfBounds)"
    using l by (subst emit_short) simp_all
  have e2: "emit b ?txt = (if length b + length ?txt < 4096 then Inr (b @ ?txt) else Inl OutOfBounds)" for b
    using l by (intro emit_short) (simp add: newline_def)
  have up: "upd_reserve t (\<lambda>r. r\<lparr>r_utilization := (r_utilization r)(r_start ?r := ?u), r_start := r_start ?r + 1, r_buffer_full := 0\<rparr>) s =
      upd_reserve t (\<lambda>r. r\<lparr>r_start := r_start r + 1, r_buffer_full := 0\<rparr>) s"
    by (simp add: upd_reserve_def upd_task_def reserve_def)
  have line: "sample_line (sample_at s t (r_start ?r)) = (decimal ?tm @ '' '') @ ?txt" by (simp add: sample_line_def sample_at_def)
  show ?thesis
    using assms(1-3) unfolding tid_step_def Let_def f(1) e1 line n
    by (simp add: sh e2 up reserve_consts del: append_assoc)
qed

lemma upd_reserve_id:
  assumes "f (reserve s t) = reserve s t"
  shows "upd_reserve t f s = s"
proof -
  have "(task s t)\<lparr>t_reserve := f (t_reserve (task s t))\<rparr> = task s t" using assms by (simp add: reserve_def)
  then show ?thesis by (simp add: upd_reserve_def upd_task_def)
qed

lemma tid_loop_samples:
  assumes "r_periods (reserve s t) \<noteq> 0" "0 \<le> r_start (reserve s t)" "r_end (reserve s t) < 4095"
    "r_end (reserve s t) + 1 - r_start (reserve s t) = int n" "r_buffer_full (reserve s t) = 0" "\<forall>x\<in>set (samples s t). sample_ok x"
  shows "tid_loop t s buf i =
    (let b = buf @ concat (map sample_line (samples s t)) in
     Some (if samples s t = [] \<or> length b < 4096
       then Inr (upd_reserve t (\<lambda>r. r\<lparr>r_start := r_end r + 1, r_buffer_full := 0\<rparr>) s, b) else Inl OutOfBounds))"
  using assms
proof (induction n arbitrary: s buf)
  case 0
  then have "samples s t = []" "\<not> tid_pending (reserve s t)" by (simp_all add: samples_def tid_pending_def)
  moreover have "upd_reserve t (\<lambda>r. r\<lparr>r_start := r_end r + 1, r_buffer_full := 0\<rparr>) s = s"
    using "0.prems"(4,5) by (intro upd_reserve_id) simp
  ultimately show ?case by (subst tid_loop.simps) simp
next
  case (Suc n)
  let ?r = "reserve s t"
  let ?s1 = "upd_reserve t (\<lambda>r. r\<lparr>r_start := r_start r + 1, r_buffer_full := 0\<rparr>) s"
  have st: "r_start ?r \<le> r_end ?r" "r_start ?r < 4095" using Suc.prems by simp_all
  have at: "sample_at ?s1 t = sample_at s t" by (rule ext) (simp add: sample_at_def)
  have sm: "samples s t = sample_at s t (r_start ?r) # samples ?s1 t"
    using st(1) by (simp add: samples_def at upto_rec1)
  have pend: "tid_pending ?r" using st by (simp add: tid_pending_def)
  have step: "tid_step t s buf i = (let b = buf @ sample_line (sample_at s t (r_start ?r)) in
     if length b < 4096 then Inr (?s1, b, i) else Inl OutOfBounds)"
    using Suc.prems(6) sm by (intro tid_step_sample [OF Suc.prems(1,2) st(2)]) simp
  have fin: "upd_reserve t (\<lambda>r. r\<lparr>r_start := r_end r + 1, r_buffer_full := 0\<rparr>) ?s1 =
      upd_reserve t (\<lambda>r. r\<lparr>r_start := r_end r + 1, r_buffer_full := 0\<rparr>) s"
    by (simp add: upd_reserve_def upd_task_def)
  have IH: "tid_loop t ?s1 b i = (let b' = b @ concat (map sample_line (samples ?s1 t)) in
     Some (if samples ?s1 t = [] \<or> length b' < 4096
       then Inr (upd_reserve t (\<lambda>r. r\<lparr>r_start := r_end r + 1, r_buffer_full := 0\<rparr>) ?s1, b') else Inl OutOfBounds))" for b
    using Suc.prems sm by (intro Suc.IH) simp_all
  show ?case
    by (subst tid_loop.simps) (auto simp: pend step Let_def IH fin sm)
qed

section \<open>A log of samples\<close>

text \<open>What a monitor relies on: samples put since the last reading come out in order, rendered, and
  reading empties the log. \<open>ok n\<close> says that there is room for \<open>n\<close> more.\<close>

datatype 'x log_op = Put 'x | Get

fun run_ops :: "('x \<Rightarrow> 's \<Rightarrow> 's res) \<Rightarrow> ('s \<Rightarrow> ('o \<times> 's) res) \<Rightarrow> 'x log_op list \<Rightarrow> 's \<Rightarrow> ('o list \<times> 's) res" where
  "run_ops put get [] s = Inr ([], s)"
| "run_ops put get (Put x # ops) s = bindR (put x s) (run_ops put get ops)"
| "run_ops put get (Get # ops) s = bindR (get s) (\<lambda>(y, s1). bindR (run_ops put get ops s1) (\<lambda>(ys, s2). Inr (y # ys, s2)))"

text \<open>The specification is a list: the contents of the log before every reading.\<close>

fun readings :: "('x \<Rightarrow> 'i) \<Rightarrow> 'x log_op list \<Rightarrow> 'i list \<Rightarrow> 'i list list \<times> 'i list" where
  "readings conv [] q = ([], q)"
| "readings conv (Put x # ops) q = readings conv ops (q @ [conv x])"
| "readings conv (Get # ops) q = (let (qs, q') = readings conv ops [] in (q # qs, q'))"

fun puts :: "'x log_op list \<Rightarrow> 'x list" where
  "puts [] = []"
| "puts (Put x # ops) = x # puts ops"
| "puts (Get # ops) = puts ops"

locale sample_log =
  fixes put :: "'x \<Rightarrow> 's \<Rightarrow> 's res" and get :: "'s \<Rightarrow> ('o \<times> 's) res" and ok :: "nat \<Rightarrow> 's \<Rightarrow> bool"
    and contents :: "'s \<Rightarrow> 'i list" and conv :: "'x \<Rightarrow> 'i" and render :: "'i list \<Rightarrow> 'o"
    and good :: "'x \<Rightarrow> bool" and fits :: "'i list \<Rightarrow> bool"
  assumes put_ok: "ok (Suc n) s \<Longrightarrow> good x \<Longrightarrow> \<exists>s'. put x s = Inr s' \<and> ok n s' \<and> contents s' = contents s @ [conv x]"
    and get_ok: "ok n s \<Longrightarrow> fits (contents s) \<Longrightarrow> \<exists>s'. get s = Inr (render (contents s), s') \<and> ok n s' \<and> contents s' = []"
begin

lemma refines:
  assumes "ok n s" "length (puts ops) \<le> n" "\<forall>x\<in>set (puts ops). good x"
    "\<forall>q\<in>set (fst (readings conv ops (contents s))). fits q"
  shows "\<exists>s'. run_ops put get ops s = Inr (map render (fst (readings conv ops (contents s))), s') \<and>
    contents s' = snd (readings conv ops (contents s))"
  using assms
proof (induction ops arbitrary: n s rule: puts.induct)
  case (2 x ops)
  then obtain m where n: "n = Suc m" by (cases n) auto
  with 2 put_ok [of m s x] obtain s1 where "put x s = Inr s1" "ok m s1" "contents s1 = contents s @ [conv x]" by auto
  with 2 n show ?case by (auto dest: "2.IH" [of m s1])
next
  case (3 ops)
  obtain qs q' where q: "readings conv ops [] = (qs, q')" by (cases "readings conv ops []")
  with 3 get_ok [of n s] obtain s1 where s1: "get s = Inr (render (contents s), s1)" "ok n s1" "contents s1 = []" by auto
  with 3 q "3.IH" [of n s1] show ?case by auto
qed simp

end

text \<open>The code as such a log: a sample is the time and the accumulated running time at the end of a period.\<close>

definition put_sample :: "tptr \<Rightarrow> int \<times> timespec \<Rightarrow> kst \<Rightarrow> kst res" where
  "put_sample t x s = record_sample t (upd_reserve t (\<lambda>r. r\<lparr>r_acc := snd x\<rparr>) (s\<lparr>taskmon_acc_time := fst x\<rparr>))"

definition get_samples :: "tptr \<Rightarrow> kst \<Rightarrow> (string \<times> kst) res" where
  "get_samples t s = bindR (the_loop (tid_loop t s [] 0)) (\<lambda>(s1, buf). Inr (buf, s1))"

definition sample_of :: "int \<Rightarrow> int \<times> timespec \<Rightarrow> int \<times> int" where
  "sample_of P x = (fst x, acc_millis (snd x) * 100 div P)"

definition good_sample :: "int \<Rightarrow> int \<times> timespec \<Rightarrow> bool" where
  "good_sample P x \<longleftrightarrow> 0 \<le> acc_millis (snd x) \<and> acc_millis (snd x) \<le> 10000000 \<and> sample_ok (sample_of P x)"

definition fits_page :: "(int \<times> int) list \<Rightarrow> bool" where
  "fits_page xs \<longleftrightarrow> length (concat (map sample_line xs)) < 4096"

definition ring_ok :: "int \<Rightarrow> tptr \<Rightarrow> nat \<Rightarrow> kst \<Rightarrow> bool" where
  "ring_ok P t n s \<longleftrightarrow>
     (let r = reserve s t in
      0 < P \<and> r_period r = P \<and> r_periods r \<noteq> 0 \<and> 0 \<le> r_start r \<and> r_start r \<le> r_end r + 1 \<and>
      r_end r + 1 + int n \<le> 4095 \<and> r_buffer_full r = 0 \<and>
      (\<forall>i\<in>set [r_end r + 1..4095]. karray s (r_periods r) i = 0) \<and> (\<forall>x\<in>set (samples s t). sample_ok x))"

lemma reserve_time [simp]: "reserve (s\<lparr>taskmon_acc_time := x\<rparr>) u = reserve s u"
  by (simp add: reserve_def)

lemma put_sample_ok:
  assumes ok: "ring_ok P t (Suc n) s" and good: "good_sample P x"
  shows "\<exists>s'. put_sample t x s = Inr s' \<and> ring_ok P t n s' \<and> samples s' t = samples s t @ [sample_of P x]"
proof -
  let ?r = "reserve s t" and ?p = "r_periods (reserve s t)"
  let ?e = "r_end ?r + 1"
  have r: "0 < P" "r_period ?r = P" "?p \<noteq> 0" "0 \<le> r_start ?r" "r_start ?r \<le> ?e" "?e + int n < 4095" "r_buffer_full ?r = 0"
    "\<And>i. ?e \<le> i \<Longrightarrow> i \<le> 4095 \<Longrightarrow> karray s ?p i = 0" "\<And>y. y \<in> set (samples s t) \<Longrightarrow> sample_ok y"
    using ok by (auto simp: ring_ok_def Let_def)
  have ne: "ring_next (r_end ?r) = ?e" using r(4-6) by (subst ring_next_eq) (simp_all add: reserve_consts)
  have g: "0 \<le> acc_millis (snd x)" "acc_millis (snd x) * 100 < 2147483648" "sample_ok (sample_of P x)"
    using good by (simp_all add: good_sample_def)
  let ?u = "acc_millis (snd x) * 100 div P"
  have u: "c_div (s32 (acc_millis (snd x) * 100)) P = Inr ?u" using g r(1) by (simp add: s32_id c_div_nonneg)
  let ?s0 = "upd_reserve t (\<lambda>r. r\<lparr>r_acc := snd x\<rparr>) (s\<lparr>taskmon_acc_time := fst x\<rparr>)"
  let ?f = "\<lambda>r. r\<lparr>r_end := ?e, r_taskmon_enabled := (if r_taskmon_enabled r \<noteq> 0 \<and> r_end r \<noteq> -1 then r_taskmon_enabled r else 1),
     r_utilization := (r_utilization r)(?e := ?u)\<rparr>"
  let ?s1 = "(upd_reserve t ?f ?s0)\<lparr>karray := (karray s)(?p := (karray s ?p)(?e := fst x))\<rparr>"
  have r0: "reserve ?s0 t = ?r\<lparr>r_acc := snd x\<rparr>" by simp
  have k0: "karray ?s0 = karray s" "taskmon_acc_time ?s0 = fst x" by simp_all
  have z: "karray s ?p (r_start ?r) = 0" if "?e = r_start ?r" using that r(6,8) by simp
  have rec: "put_sample t x s = Inr ?s1"
    unfolding put_sample_def record_sample_def Let_def r0 k0 using r z u ne
    by (auto simp: reserve_consts upd_reserve_def upd_task_def)
  have r1: "reserve ?s1 t = ?f (?r\<lparr>r_acc := snd x\<rparr>)" using r0 by simp
  have at: "sample_at ?s1 t i = (if i = ?e then sample_of P x else sample_at s t i)" for i
    by (simp add: sample_at_def r1 sample_of_def)
  have sm: "samples ?s1 t = samples s t @ [sample_of P x]"
    using r(5) by (simp add: samples_def at r1 upto_rec2)
  have "ring_ok P t n ?s1"
    using r g(3) unfolding ring_ok_def Let_def sm by (auto simp: r1)
  then show ?thesis using rec sm by blast
qed

lemma get_samples_ok:
  assumes ok: "ring_ok P t n s" and fit: "fits_page (samples s t)"
  shows "\<exists>s'. get_samples t s = Inr (concat (map sample_line (samples s t)), s') \<and> ring_ok P t n s' \<and> samples s' t = []"
proof -
  let ?s1 = "upd_reserve t (\<lambda>r. r\<lparr>r_start := r_end r + 1, r_buffer_full := 0\<rparr>) s"
  have "tid_loop t s [] 0 = Some (Inr (?s1, concat (map sample_line (samples s t))))"
    using ok fit tid_loop_samples [of s t "nat (r_end (reserve s t) + 1 - r_start (reserve s t))" "[]" 0]
    by (auto simp: ring_ok_def fits_page_def Let_def)
  then have "get_samples t s = Inr (concat (map sample_line (samples s t)), ?s1)"
    by (simp add: get_samples_def the_loop_def)
  moreover have sm: "samples ?s1 t = []" by (simp add: samples_def)
  moreover have "ring_ok P t n ?s1" using ok unfolding ring_ok_def Let_def sm by auto
  ultimately show ?thesis by blast
qed

interpretation rb: sample_log "put_sample t" "get_samples t" "ring_ok P t" "\<lambda>s. samples s t" "sample_of P"
  "\<lambda>xs. concat (map sample_line xs)" "good_sample P" fits_page for P t
  by unfold_locales (use put_sample_ok get_samples_ok in blast)+

section \<open>Properties\<close>


definition log_state :: kst where
  "log_state = upd_reserve 7 (\<lambda>r. r\<lparr>r_periods := 5, r_end := -1\<rparr>) one_reserved"



definition second_lap :: kst where
  "second_lap = (upd_reserve 7 (\<lambda>r. r\<lparr>r_periods := 5, r_start := 10, r_end := 9\<rparr>) one_reserved)\<lparr>karray := (\<lambda>_ _. 1)\<rparr>"


text \<open>A reading whose lines do not fit one page writes past the end of the page.\<close>

lemma tid_show_overruns_page:
  assumes "ring_ok P t n s" "\<not> fits_page (samples s t)"
  shows "get_samples t s = Inl OutOfBounds"
proof -
  have "samples s t \<noteq> []" using assms(2) by (auto simp: fits_page_def)
  then have "tid_loop t s [] 0 = Some (Inl OutOfBounds)"
    using assms tid_loop_samples [of s t "nat (r_end (reserve s t) + 1 - r_start (reserve s t))" "[]" 0]
    by (auto simp: ring_ok_def fits_page_def Let_def)
  then show ?thesis by (simp add: get_samples_def the_loop_def)
qed

end
