(* ===== verification/Energy.thy ===== *)
theory Energy
  imports Monitor
begin

text \<open>
  Energy accounting: the table and the system call of \<^verbatim>\<open>rtes/kernel/energy.c\<close> and the part of
  \<^verbatim>\<open>schedule\<close> (\<^verbatim>\<open>kernel/sched.c\<close>) that runs when a reserved thread is switched out or in. Powers are in
  microwatts, energies in microjoules; all numbers are unsigned 32-bit.
\<close>

section \<open>The code\<close>

definition MIN_FREQ :: int where "MIN_FREQ = 51"
definition MAX_FREQ :: int where "MAX_FREQ = 1300"
definition MICRO_J_PER_MILLI_J :: int where "MICRO_J_PER_MILLI_J = 1000"
definition MICRO_W_PER_MILLI_W :: int where "MICRO_W_PER_MILLI_W = 1000"

lemmas energy_consts = MIN_FREQ_def MAX_FREQ_def MICRO_J_PER_MILLI_J_def MICRO_W_PER_MILLI_W_def KHZ_PER_MHZ_def

definition freq_to_power :: "int list" where
  "freq_to_power = [
     28860, 28964, 29069, 29175, 29283, 29391, 29502, 29613, 29726, 29840,
     29955, 30072, 30190, 30309, 30429, 30551, 30674, 30798, 30923, 31050,
     31177, 31306, 31437, 31568, 31701, 31834, 31969, 32105, 32243, 32381,
     32521, 32662, 32804, 32947, 33091, 33236, 33383, 33531, 33679, 33829,
     33980, 34132, 34286, 34440, 34596, 34752, 34910, 35069, 35228, 35389,
     35551, 35715, 35879, 36044, 36210, 36378, 36546, 36716, 36886, 37058,
     37230, 37404, 37579, 37755, 37932, 38109, 38288, 38468, 38649, 38831,
     39014, 39198, 39383, 39569, 39756, 39944, 40133, 40323, 40514, 40706,
     40899, 41093, 41288, 41484, 41681, 41879, 42078, 42278, 42479, 42681,
     42883, 43087, 43292, 43498, 43704, 43912, 44121, 44330, 44541, 44752,
     44964, 45178, 45392, 45607, 45823, 46040, 46258, 46477, 46697, 46918,
     47140, 47362, 47586, 47810, 48036, 48262, 48489, 48717, 48946, 49176,
     49407, 49639, 49872, 50105, 50340, 50575, 50812, 51049, 51287, 51526,
     51766, 52007, 52248, 52491, 52734, 52978, 53224, 53470, 53717, 53964,
     54213, 54463, 54713, 54964, 55217, 55470, 55724, 55978, 56234, 56491,
     56748, 57006, 57265, 57525, 57786, 58048, 58310, 58573, 58838, 59103,
     59369, 59635, 59903, 60171, 60441, 60711, 60982, 61254, 61526, 61800,
     62074, 62349, 62625, 62902, 63179, 63458, 63737, 64017, 64298, 64580,
     64863, 65146, 65430, 65715, 66001, 66288, 66575, 66863, 67153, 67442,
     67733, 68025, 68317, 68610, 68904, 69199, 69495, 69791, 70088, 70386,
     70685, 70984, 71285, 71586, 71888, 72191, 72494, 72798, 73104, 73410,
     73716, 74024, 74332, 74641, 74951, 75262, 75573, 75885, 76198, 76512,
     76827, 77142, 77458, 77775, 78093, 78411, 78730, 79050, 79371, 79692,
     80015, 80338, 80662, 80986, 81312, 81638, 81965, 82292, 82621, 82950,
     83280, 83611, 83942, 84274, 84607, 84941, 85276, 85611, 85947, 86284,
     86621, 86959, 87298, 87638, 87979, 88320, 88662, 89005, 89348, 89692,
     90037, 90383, 90730, 91077, 91425, 91774, 92123, 92473, 92824, 93176,
     93528, 93881, 94235, 94590, 94945, 95301, 95658, 96016, 96374, 96733,
     97093, 97453, 97814, 98176, 98539, 98902, 99266, 99631, 99997, 100363,
     100730, 101098, 101466, 101835, 102205, 102576, 102947, 103319, 103692, 104065,
     104440, 104814, 105190, 105566, 105943, 106321, 106700, 107079, 107459, 107839,
     108221, 108603, 108985, 109369, 109753, 110138, 110523, 110909, 111296, 111684,
     112072, 112461, 112851, 113242, 113633, 114025, 114417, 114810, 115204, 115599,
     115994, 116390, 116787, 117185, 117583, 117982, 118381, 118781, 119182, 119584,
     119986, 120389, 120793, 121197, 121602, 122008, 122414, 122821, 123229, 123637,
     124047, 124456, 124867, 125278, 125690, 126103, 126516, 126930, 127344, 127760,
     128176, 128592, 129010, 129428, 129846, 130266, 130686, 131106, 131528, 131950,
     132373, 132796, 133220, 133645, 134070, 134496, 134923, 135350, 135779, 136207,
     136637, 137067, 137498, 137929, 138361, 138794, 139227, 139662, 140096, 140532,
     140968, 141405, 141842, 142280, 142719, 143158, 143598, 144039, 144480, 144922,
     145365, 145809, 146253, 146697, 147143, 147589, 148035, 148483, 148930, 149379,
     149828, 150278, 150729, 151180, 151632, 152084, 152538, 152991, 153446, 153901,
     154357, 154813, 155270, 155728, 156186, 156645, 157105, 157565, 158026, 158488,
     158950, 159413, 159877, 160341, 160806, 161271, 161737, 162204, 162671, 163139,
     163608, 164077, 164547, 165018, 165489, 165961, 166434, 166907, 167380, 167855,
     168330, 168806, 169282, 169759, 170236, 170715, 171194, 171673, 172153, 172634,
     173115, 173597, 174080, 174563, 175047, 175532, 176017, 176503, 176989, 177476,
     177964, 178452, 178941, 179431, 179921, 180412, 180903, 181395, 181888, 182381,
     182875, 183370, 183865, 184361, 184857, 185354, 185852, 186350, 186849, 187349,
     187849, 188350, 188851, 189353, 189856, 190359, 190863, 191367, 191872, 192378,
     192885, 193391, 193899, 194407, 194916, 195425, 195936, 196446, 196957, 197469,
     197982, 198495, 199009, 199523, 200038, 200553, 201070, 201586, 202104, 202622,
     203140, 203660, 204179, 204700, 205221, 205742, 206265, 206788, 207311, 207835,
     208360, 208885, 209411, 209937, 210464, 210992, 211520, 212049, 212579, 213109,
     213640, 214171, 214703, 215235, 215769, 216302, 216837, 217371, 217907, 218443,
     218980, 219517, 220055, 220594, 221133, 221672, 222213, 222754, 223295, 223837,
     224380, 224923, 225467, 226011, 226556, 227102, 227648, 228195, 228743, 229291,
     229839, 230389, 230938, 231489, 232040, 232591, 233144, 233696, 234250, 234804,
     235358, 235913, 236469, 237025, 237582, 238140, 238698, 239256, 239816, 240375,
     240936, 241497, 242058, 242621, 243183, 243747, 244311, 244875, 245440, 246006,
     246572, 247139, 247706, 248274, 248843, 249412, 249982, 250552, 251123, 251695,
     252267, 252839, 253413, 253986, 254561, 255136, 255711, 256287, 256864, 257441,
     258019, 258598, 259177, 259756, 260337, 260917, 261499, 262081, 262663, 263246,
     263830, 264414, 264999, 265584, 266170, 266756, 267343, 267931, 268519, 269108,
     269697, 270287, 270878, 271469, 272061, 272653, 273246, 273839, 274433, 275027,
     275622, 276218, 276814, 277411, 278008, 278606, 279205, 279804, 280403, 281004,
     281604, 282206, 282807, 283410, 284013, 284616, 285221, 285825, 286431, 287036,
     287643, 288250, 288857, 289465, 290074, 290683, 291293, 291903, 292514, 293126,
     293738, 294350, 294963, 295577, 296191, 296806, 297422, 298038, 298654, 299271,
     299889, 300507, 301126, 301745, 302365, 302985, 303606, 304228, 304850, 305472,
     306096, 306719, 307344, 307969, 308594, 309220, 309846, 310474, 311101, 311729,
     312358, 312987, 313617, 314248, 314879, 315510, 316142, 316775, 317408, 318042,
     318676, 319311, 319946, 320582, 321219, 321856, 322493, 323131, 323770, 324409,
     325049, 325689, 326330, 326972, 327614, 328256, 328899, 329543, 330187, 330832,
     331477, 332123, 332769, 333416, 334063, 334711, 335360, 336009, 336659, 337309,
     337960, 338611, 339263, 339915, 340568, 341221, 341875, 342530, 343185, 343840,
     344497, 345153, 345811, 346468, 347127, 347785, 348445, 349105, 349765, 350426,
     351088, 351750, 352413, 353076, 353740, 354404, 355069, 355734, 356400, 357066,
     357733, 358401, 359069, 359737, 360406, 361076, 361746, 362417, 363088, 363760,
     364432, 365105, 365779, 366452, 367127, 367802, 368477, 369154, 369830, 370507,
     371185, 371863, 372542, 373221, 373901, 374581, 375262, 375944, 376626, 377308,
     377991, 378675, 379359, 380043, 380728, 381414, 382100, 382787, 383474, 384162,
     384850, 385539, 386228, 386918, 387609, 388300, 388991, 389683, 390376, 391069,
     391762, 392457, 393151, 393846, 394542, 395238, 395935, 396632, 397330, 398029,
     398727, 399427, 400127, 400827, 401528, 402230, 402932, 403634, 404337, 405041,
     405745, 406450, 407155, 407860, 408567, 409273, 409981, 410688, 411397, 412106,
     412815, 413525, 414235, 414946, 415657, 416369, 417082, 417795, 418508, 419222,
     419937, 420652, 421368, 422084, 422800, 423518, 424235, 424953, 425672, 426391,
     427111, 427831, 428552, 429273, 429995, 430718, 431440, 432164, 432888, 433612,
     434337, 435062, 435788, 436515, 437242, 437969, 438697, 439426, 440155, 440884,
     441615, 442345, 443076, 443808, 444540, 445273, 446006, 446739, 447474, 448208,
     448944, 449679, 450415, 451152, 451890, 452627, 453366, 454104, 454844, 455583,
     456324, 457065, 457806, 458548, 459290, 460033, 460777, 461520, 462265, 463010,
     463755, 464501, 465248, 465995, 466742, 467490, 468238, 468987, 469737, 470487,
     471238, 471989, 472740, 473492, 474245, 474998, 475751, 476505, 477260, 478015,
     478771, 479527, 480283, 481040, 481798, 482556, 483315, 484074, 484833, 485594,
     486354, 487115, 487877, 488639, 489402, 490165, 490929, 491693, 492457, 493223,
     493988, 494755, 495521, 496288, 497056, 497824, 498593, 499362, 500132, 500902,
     501673, 502444, 503216, 503988, 504760, 505534, 506307, 507082, 507856, 508631,
     509407, 510183, 510960, 511737, 512515, 513293, 514072, 514851, 515631, 516411,
     517192, 517973, 518754, 519537, 520319, 521102, 521886, 522670, 523455, 524240,
     525026, 525812, 526598, 527386, 528173, 528961, 529750, 530539, 531329, 532119,
     532910, 533701, 534492, 535284, 536077, 536870, 537664, 538458, 539252, 540047,
     540843, 541639, 542435, 543232, 544030, 544828, 545626, 546425, 547225, 548025,
     548825, 549626, 550428, 551230, 552032, 552835, 553639, 554442, 555247, 556052,
     556857, 557663, 558469, 559276, 560084, 560891, 561700, 562509, 563318, 564128,
     564938, 565749, 566560, 567372, 568184, 568997, 569810, 570624, 571438, 572252,
     573068, 573883, 574699, 575516, 576333, 577151, 577969, 578787, 579606, 580426,
     581246, 582067, 582888, 583709, 584531, 585353, 586176, 587000, 587824, 588648,
     589473, 590298, 591124, 591951, 592777, 593605, 594433, 595261, 596090, 596919,
     597749, 598579, 599409, 600241, 601072, 601904, 602737, 603570, 604404, 605238,
     606072, 606907, 607743, 608579, 609415, 610252, 611090, 611928, 612766, 613605,
     614444, 615284, 616124, 616965, 617806, 618648, 619490, 620333, 621176, 622020,
     622864, 623709, 624554, 625400, 626246, 627092, 627939, 628787, 629635, 630483,
     631332, 632182, 633031, 633882, 634733, 635584, 636436, 637288, 638141, 638994,
     639848, 640702, 641557, 642412, 643267, 644123, 644980, 645837, 646695, 647553,
     648411, 649270, 650129, 650989, 651850, 652711, 653572, 654434, 655296, 656159,
     657022, 657886, 658750, 659614, 660479, 661345, 662211, 663078, 663945, 664812,
     665680, 666548, 667417, 668287, 669157, 670027, 670898, 671769, 672641, 673513,
     674386, 675259, 676132, 677006, 677881, 678756, 679631, 680507, 681384, 682261,
     683138, 684016, 684894, 685773, 686652, 687532, 688412, 689293, 690174, 691056,
     691938, 692820, 693703, 694587, 695471, 696355, 697240, 698125, 699011, 699897,
     700784, 701671, 702559, 703447, 704336, 705225, 706114, 707004, 707895, 708786,
     709677, 710569, 711462, 712354, 713248, 714141, 715036, 715930, 716825, 717721,
     718617, 719514, 720411, 721308, 722206, 723105, 724003, 724903, 725803, 726703]"

text \<open>Reading the table at \<^verbatim>\<open>freq - MIN_FREQ\<close>, which is unsigned.\<close>

definition power_at :: "int \<Rightarrow> int res" where
  "power_at freq =
     (let i = u32 (freq - MIN_FREQ)
      in if i < int (length freq_to_power) then Inr (freq_to_power ! nat i) else Inl OutOfBounds)"

definition power_checked :: "int \<Rightarrow> int res" where
  "power_checked freq = (if freq \<ge> MIN_FREQ \<and> freq \<le> MAX_FREQ then power_at freq else Inr 0)"

definition first_online :: "kst \<Rightarrow> int option" where
  "first_online s = List.find (cpu_online s) [0, 1, 2, 3]"

definition energy_show :: "nat \<Rightarrow> kst \<Rightarrow> int \<times> string" where
  "energy_show attr s =
     scnprintf PAGE_SIZE (fmt_u (r_energy (reserve s (kattr_task s attr)) div MICRO_W_PER_MILLI_W) @ newline)"

record energy_struct =
  es_freq :: "int option"
  es_power :: "int option"
  es_energy :: "int option"

text \<open>The members reach the caller one by one; \<open>copy k\<close> is what the \<open>k\<close>-th \<^verbatim>\<open>copy_to_user\<close> returns.\<close>

definition copy_energy :: "(nat \<Rightarrow> int) \<Rightarrow> int \<Rightarrow> int \<Rightarrow> int \<Rightarrow> int \<times> energy_struct" where
  "copy_energy copy freq pow energy =
     (let i0 = \<lparr>es_freq = None, es_power = None, es_energy = None\<rparr> in
      if copy 0 \<noteq> 0 then (copy 0, i0)
      else let i1 = i0\<lparr>es_freq := Some freq\<rparr> in
        if copy 1 \<noteq> 0 then (copy 1, i1)
        else let i2 = i1\<lparr>es_power := Some pow\<rparr> in
          if copy 2 \<noteq> 0 then (copy 2, i2) else (0, i2\<lparr>es_energy := Some energy\<rparr>))"

definition get_energy_info :: "kenv \<Rightarrow> (nat \<Rightarrow> int) \<Rightarrow> int \<Rightarrow> kst \<Rightarrow> (int \<times> energy_struct) res" where
  "get_energy_info e copy tid s =
     (let none = \<lparr>es_freq = None, es_power = None, es_energy = None\<rparr> in
      if tid < 0 then Inr (EINVAL, none)
      else if tid \<noteq> 0 then
        (case find_task_by_vpid s tid of
           None \<Rightarrow> Inr (ESRCH, none)
         | Some t \<Rightarrow>
             let freq = e_cpufreq_get e (r_cpu (reserve s t)) div KHZ_PER_MHZ in
             bindR (power_checked freq) (\<lambda>p.
               Inr (copy_energy copy freq (p div MICRO_J_PER_MILLI_J) (r_energy (reserve s t) div MICRO_J_PER_MILLI_J))))
      else
        (case first_online s of
           None \<Rightarrow> Inl Uninitialised
         | Some c \<Rightarrow>
             let freq = e_cpufreq_get e c div KHZ_PER_MHZ in
             bindR (power_at freq) (\<lambda>p.
               Inr (copy_energy copy freq (u32 (p * num_online_cpus s) div MICRO_J_PER_MILLI_J)
                      (total_energy s div MICRO_J_PER_MILLI_J)))))"

text \<open>Switching out: the budget timer stops and the run that ends is charged to the thread and to the
  system.\<close>

definition run_energy :: "int \<Rightarrow> timespec \<Rightarrow> int" where
  "run_energy pow run =
     u32 (u32 (pow * tv_sec run) + u32 (pow * (tv_nsec run sdiv NS_PER_MILLI_S)) div MILLI_S_PER_S)"

definition charge_energy :: "tptr \<Rightarrow> kst \<Rightarrow> kst res" where
  "charge_energy t s =
     (let r = reserve s t in
      if r_tracking_energy r \<noteq> 0 then
        (if r_cpu r < 0 \<or> 3 < r_cpu r then Inl OutOfBounds
         else
           bindR (power_checked (cpu_freq s (r_cpu r))) (\<lambda>pow.
             let increment = run_energy pow (r_acc_single_run r)
             in Inr ((upd_reserve t (\<lambda>r. r\<lparr>r_energy := u32 (r_energy r + increment)\<rparr>) s)
                       \<lparr>total_energy := u32 (total_energy s + increment)\<rparr>)))
      else Inr s)"

definition sched_out :: "tptr \<Rightarrow> kst \<Rightarrow> kst res" where
  "sched_out t s =
     bindR (if r_flag (reserve s t) \<noteq> 0
            then bindR (hrtimer_cancel (r_c_timer (reserve s t))) (\<lambda>(_, ct).
                   Inr (upd_reserve t (\<lambda>r. r\<lparr>r_c_timer := ct\<rparr>) s))
            else Inr s) (\<lambda>s1.
     bindR (charge_energy t s1) (\<lambda>s2.
       Inr (upd_reserve t (\<lambda>r. r\<lparr>r_acc_single_run := zero_time\<rparr>) s2)))"

definition sched_in :: "kenv \<Rightarrow> tptr \<Rightarrow> kst \<Rightarrow> kst" where
  "sched_in e t s =
     (if r_flag (reserve s t) \<noteq> 0
      then upd_reserve t (\<lambda>r. r\<lparr>r_c_timer :=
             snd (hrtimer_start (e_now e) (r_c_timer r) (ktime_set 0 RESERVE_INTERVAL_NS))\<rparr>) s
      else s)"

section \<open>The table\<close>

lemma freq_to_power_length: "length freq_to_power = 1250"
  by (simp add: freq_to_power_def)

lemma freq_to_power_bounds:
  assumes "x \<in> set freq_to_power"
  shows "28860 \<le> x \<and> x \<le> 726703"
proof -
  have "list_all (\<lambda>x. 28860 \<le> x \<and> x \<le> 726703) freq_to_power" unfolding freq_to_power_def by simp
  then show ?thesis using assms by (simp add: list_all_iff)
qed

lemma freq_to_power_sorted: "sorted freq_to_power"
  unfolding freq_to_power_def by (simp del: sorted_wrt.simps add: sorted2 sorted1)

lemma power_at_in_range:
  assumes "MIN_FREQ \<le> freq" "freq \<le> MAX_FREQ"
  shows "power_at freq = Inr (freq_to_power ! nat (freq - MIN_FREQ))"
    "28860 \<le> freq_to_power ! nat (freq - MIN_FREQ)" "freq_to_power ! nat (freq - MIN_FREQ) \<le> 726703"
proof -
  have i: "u32 (freq - MIN_FREQ) = freq - MIN_FREQ" "nat (freq - MIN_FREQ) < length freq_to_power"
    using assms by (simp_all add: u32_id energy_consts freq_to_power_length)
  then show "power_at freq = Inr (freq_to_power ! nat (freq - MIN_FREQ))"
    using assms by (simp add: power_at_def freq_to_power_length energy_consts)
  show "28860 \<le> freq_to_power ! nat (freq - MIN_FREQ)" "freq_to_power ! nat (freq - MIN_FREQ) \<le> 726703"
    using freq_to_power_bounds [OF nth_mem [OF i(2)]] by simp_all
qed

text \<open>A faster clock never needs less power.\<close>

lemma power_at_mono:
  assumes "MIN_FREQ \<le> f" "f \<le> g" "g \<le> MAX_FREQ" "power_at f = Inr p" "power_at g = Inr q"
  shows "p \<le> q"
proof -
  have "nat (f - MIN_FREQ) \<le> nat (g - MIN_FREQ)" "nat (g - MIN_FREQ) < length freq_to_power"
    using assms by (simp_all add: freq_to_power_length energy_consts)
  with freq_to_power_sorted have "freq_to_power ! nat (f - MIN_FREQ) \<le> freq_to_power ! nat (g - MIN_FREQ)"
    by (rule sorted_nth_mono)
  with assms show ?thesis by (simp add: power_at_in_range(1))
qed

lemma power_checked_total: "\<exists>p. power_checked freq = Inr p \<and> 0 \<le> p \<and> p \<le> 726703"
  using power_at_in_range [of freq] by (auto simp: power_checked_def)

section \<open>Switching threads\<close>

lemma run_energy_exact:
  assumes p: "0 \<le> p" "p \<le> 726703" and run: "0 \<le> tv_sec run" "tv_sec run \<le> 5900" "0 \<le> tv_nsec run" "tv_nsec run \<le> NS_PER_S"
  shows "run_energy p run = p * (ns run div 1000000) div 1000"
proof -
  let ?ms = "tv_nsec run div 1000000"
  have ms: "0 \<le> ?ms" "?ms \<le> 1000" using run by (simp_all add: reserve_consts)
  have "ns run = tv_nsec run + 1000 * tv_sec run * 1000000" by (simp add: ns_def reserve_consts)
  then have n: "ns run div 1000000 = 1000 * tv_sec run + ?ms" by simp
  have "0 \<le> p * ?ms" "0 \<le> p * tv_sec run" using p ms run by simp_all
  moreover have "p * ?ms \<le> 726703 * 1000" by (rule mult_mono) (use p ms run in simp_all)
  moreover have "p * tv_sec run \<le> 726703 * 5900" by (rule mult_mono) (use p ms run in simp_all)
  moreover from calculation have "p * ?ms div 1000 \<le> 726703" by simp
  ultimately have u: "u32 (p * ?ms) = p * ?ms" "u32 (p * tv_sec run) = p * tv_sec run"
    "u32 (p * tv_sec run + p * ?ms div 1000) = p * tv_sec run + p * ?ms div 1000"
    by (simp_all add: u32_id pos_imp_zdiv_nonneg_iff)
  have "p * (1000 * tv_sec run + ?ms) = p * ?ms + p * tv_sec run * 1000" by (simp add: algebra_simps)
  then have "p * (1000 * tv_sec run + ?ms) div 1000 = p * tv_sec run + p * ?ms div 1000" by simp
  then show ?thesis using run by (simp add: run_energy_def u n sdiv_nonneg reserve_consts)
qed

text \<open>What switching out leaves alone, and what it charges.\<close>

definition charged :: "tptr \<Rightarrow> int \<Rightarrow> kst \<Rightarrow> kst \<Rightarrow> bool" where
  "charged t x s s' \<longleftrightarrow> same_res s s' \<and> r_acc_single_run (reserve s' t) = zero_time \<and>
     (\<forall>u. r_energy (reserve s' u) = (if u = t then u32 (r_energy (reserve s t) + x) else r_energy (reserve s u))) \<and>
     total_energy s' = u32 (total_energy s + x) \<and>
     hr_enqueued (r_c_timer (reserve s' t)) = (r_flag (reserve s t) = 0 \<and> hr_enqueued (r_c_timer (reserve s t)))"

lemma sched_out_spec:
  assumes idle: "r_flag (reserve s t) \<noteq> 0 \<Longrightarrow> \<not> hr_callback (r_c_timer (reserve s t))"
    and cpu: "r_tracking_energy (reserve s t) \<noteq> 0 \<Longrightarrow> r_cpu (reserve s t) \<in> {0..3}"
    and rng: "0 \<le> r_energy (reserve s t)" "r_energy (reserve s t) < 2 ^ 32" "0 \<le> total_energy s" "total_energy s < 2 ^ 32"
  shows "\<exists>p s'. power_checked (cpu_freq s (r_cpu (reserve s t))) = Inr p \<and> sched_out t s = Inr s' \<and>
    charged t (if r_tracking_energy (reserve s t) \<noteq> 0 then run_energy p (r_acc_single_run (reserve s t)) else 0) s s'"
proof -
  obtain p where p: "power_checked (cpu_freq s (r_cpu (reserve s t))) = Inr p" using power_checked_total by blast
  obtain a ct where ct: "remove_hrtimer (r_c_timer (reserve s t)) = (a, ct)" by force
  let ?s1 = "if r_flag (reserve s t) \<noteq> 0 then upd_reserve t (\<lambda>r. r\<lparr>r_c_timer := ct\<rparr>) s else s"
  have q: "\<not> hr_enqueued ct" using ct by (auto simp: remove_hrtimer_def split: if_splits)
  have s1: "sched_out t s = bindR (charge_energy t ?s1) (\<lambda>s2. Inr (upd_reserve t (\<lambda>r. r\<lparr>r_acc_single_run := zero_time\<rparr>) s2))"
    using idle by (simp add: sched_out_def hrtimer_cancel_idle ct)
  have u: "u32 (r_energy (reserve s t)) = r_energy (reserve s t)" "u32 (total_energy s) = total_energy s"
    using rng by (simp_all add: u32_id)
  show ?thesis
  proof (cases "r_tracking_energy (reserve s t) = 0")
    case True
    then have "sched_out t s = Inr (upd_reserve t (\<lambda>r. r\<lparr>r_acc_single_run := zero_time\<rparr>) ?s1)"
      unfolding s1 by (simp add: charge_energy_def)
    with p True q show ?thesis by (simp add: charged_def same_res_def u)
  next
    case False
    have c: "\<not> (r_cpu (reserve s t) < 0 \<or> 3 < r_cpu (reserve s t))" using cpu False by auto
    let ?x = "run_energy p (r_acc_single_run (reserve s t))"
    let ?s2 = "(upd_reserve t (\<lambda>r. r\<lparr>r_energy := u32 (r_energy r + ?x)\<rparr>) ?s1)\<lparr>total_energy := u32 (total_energy s + ?x)\<rparr>"
    have "charge_energy t ?s1 = Inr ?s2" using False c p by (simp add: charge_energy_def Let_def)
    then have "sched_out t s = Inr (upd_reserve t (\<lambda>r. r\<lparr>r_acc_single_run := zero_time\<rparr>) ?s2)"
      unfolding s1 by simp
    then show ?thesis using p False q by (simp add: charged_def same_res_def)
  qed
qed

text \<open>The system's counter and the threads' counters move together: their difference stays the same
  modulo the width of the counters, whatever the lengths of the runs.\<close>

definition energy_gap :: "tptr list \<Rightarrow> kst \<Rightarrow> int" where
  "energy_gap ts s = (total_energy s - (\<Sum>t\<leftarrow>ts. r_energy (reserve s t))) mod 2 ^ 32"

lemma charged_gap:
  assumes ch: "charged t x s s'" and t: "t \<in> set ts" "distinct ts"
  shows "energy_gap ts s' = energy_gap ts s"
proof -
  obtain as bs where ts: "ts = as @ t # bs" using t(1) by (auto simp: in_set_conv_decomp)
  have "(\<Sum>u\<leftarrow>us. r_energy (reserve s' u)) = (\<Sum>u\<leftarrow>us. r_energy (reserve s u))" if "t \<notin> set us" for us
    using ch that by (intro arg_cong [where f = sum_list] map_cong) (auto simp: charged_def)
  then have eq: "(\<Sum>u\<leftarrow>ts. r_energy (reserve s' u)) =
      (\<Sum>u\<leftarrow>as. r_energy (reserve s u)) + u32 (r_energy (reserve s t) + x) + (\<Sum>u\<leftarrow>bs. r_energy (reserve s u))"
    using ch t(2) by (simp add: ts charged_def)
  define A where "A = (\<Sum>u\<leftarrow>as. r_energy (reserve s u)) + (\<Sum>u\<leftarrow>bs. r_energy (reserve s u))"
  have "energy_gap ts s' = (u32 (total_energy s + x) - (A + u32 (r_energy (reserve s t) + x))) mod 2 ^ 32"
    unfolding energy_gap_def eq A_def using ch by (simp add: charged_def algebra_simps)
  also have "\<dots> = ((total_energy s + x) - (A + (r_energy (reserve s t) + x))) mod 2 ^ 32"
    unfolding u32_def by (rule mod_diff_cong) (simp_all add: mod_add_right_eq)
  finally show ?thesis by (simp add: energy_gap_def ts A_def algebra_simps)
qed

lemma sched_out_idle:
  assumes "sched_out t s = Inr s'"
  shows "r_flag (reserve s t) \<noteq> 0 \<Longrightarrow> \<not> hr_callback (r_c_timer (reserve s t))"
    "r_tracking_energy (reserve s t) \<noteq> 0 \<Longrightarrow> r_cpu (reserve s t) \<in> {0..3}"
  using assms
  by (auto simp: sched_out_def hrtimer_cancel_def hrtimer_try_to_cancel_def bindR_eq_Inr charge_energy_def Let_def
      split: if_splits)

definition energy_range :: "kst \<Rightarrow> bool" where
  "energy_range s \<longleftrightarrow> 0 \<le> total_energy s \<and> total_energy s < 2 ^ 32 \<and>
     (\<forall>t. 0 \<le> r_energy (reserve s t) \<and> r_energy (reserve s t) < 2 ^ 32)"

lemma charged_range: "charged t x s s' \<Longrightarrow> energy_range s \<Longrightarrow> energy_range s'"
  using u32_range by (auto simp: charged_def energy_range_def)

fun run_outs :: "tptr list \<Rightarrow> kst \<Rightarrow> kst res" where
  "run_outs [] s = Inr s"
| "run_outs (t # ts) s = bindR (sched_out t s) (run_outs ts)"

lemma run_outs_gap:
  assumes "run_outs us s = Inr s'" "set us \<subseteq> set ts" "distinct ts" "energy_range s"
  shows "energy_gap ts s' = energy_gap ts s \<and> energy_range s'"
  using assms
proof (induction us arbitrary: s)
  case (Cons u us)
  then obtain s1 where s1: "sched_out u s = Inr s1" "run_outs us s1 = Inr s'" by (auto simp: bindR_eq_Inr)
  obtain x where ch: "charged u x s s1"
    using sched_out_spec [of s u] sched_out_idle [OF s1(1)] s1(1) Cons.prems(4) by (auto simp: energy_range_def)
  have "energy_gap ts s1 = energy_gap ts s" using charged_gap [OF ch] Cons.prems by simp
  moreover have "energy_gap ts s' = energy_gap ts s1 \<and> energy_range s'"
    using s1(2) Cons.prems(2,3) charged_range [OF ch Cons.prems(4)] by (intro Cons.IH) simp_all
  ultimately show ?case by simp
qed simp

section \<open>Properties\<close>

text \<open>C32. When a tracked thread is switched out after a run of less than 5900 s, its budget timer is stopped,
  and its energy counter and the system's both grow by the power of its processor's frequency times the run
  in milliseconds, divided by 1000 and rounded down only once; the reservations stay as they are.\<close>

theorem sched_out_charges:
  assumes "r_tracking_energy (reserve s t) \<noteq> 0" "r_flag (reserve s t) \<noteq> 0" "\<not> hr_callback (r_c_timer (reserve s t))"
    and "r_cpu (reserve s t) \<in> {0..3}" "cpu_freq s (r_cpu (reserve s t)) = f" "MIN_FREQ \<le> f" "f \<le> MAX_FREQ"
    and "energy_range s" "acc_ok (r_acc_single_run (reserve s t))" "tv_sec (r_acc_single_run (reserve s t)) \<le> 5900"
  shows "\<exists>s'. sched_out t s = Inr s' \<and> same_res s s' \<and> \<not> hr_enqueued (r_c_timer (reserve s' t)) \<and>
    r_acc_single_run (reserve s' t) = zero_time \<and>
    (let x = freq_to_power ! nat (f - MIN_FREQ) * (ns (r_acc_single_run (reserve s t)) div 1000000) div 1000
     in r_energy (reserve s' t) = u32 (r_energy (reserve s t) + x) \<and> total_energy s' = u32 (total_energy s + x))"
proof -
  note p = power_at_in_range [OF assms(6,7)]
  let ?p = "freq_to_power ! nat (f - MIN_FREQ)"
  have "power_checked (cpu_freq s (r_cpu (reserve s t))) = Inr ?p" using assms(5-7) p(1) by (simp add: power_checked_def)
  with sched_out_spec [of s t] assms obtain s' where "sched_out t s = Inr s'"
    "charged t (run_energy ?p (r_acc_single_run (reserve s t))) s s'" by (auto simp: energy_range_def)
  moreover have "run_energy ?p (r_acc_single_run (reserve s t)) = ?p * (ns (r_acc_single_run (reserve s t)) div 1000000) div 1000"
    using p(2,3) assms(9,10) by (intro run_energy_exact) (simp_all add: acc_ok_def)
  ultimately show ?thesis using assms(2) by (auto simp: charged_def)
qed

definition metered :: kst where
  "metered = upd_reserve 7 (\<lambda>r. r\<lparr>r_flag := 1, r_tracking_energy := 1, r_acc_single_run := \<lparr>tv_sec = 2, tv_nsec = 500000000\<rparr>\<rparr>)
     ((boot_state [7])\<lparr>cpu_freq := (\<lambda>_. 51)\<rparr>)"

lemma metered_facts:
  "reserve metered t = (if t = 7 then init_reserve\<lparr>r_flag := 1, r_tracking_energy := 1, r_acc_single_run := \<lparr>tv_sec = 2, tv_nsec = 500000000\<rparr>\<rparr>
     else init_reserve)" "total_energy metered = 0" "cpu_freq metered = (\<lambda>_. 51)"
proof -
  have "reserve ((boot_state [7])\<lparr>cpu_freq := (\<lambda>_. 51)\<rparr>) u = init_reserve" for u
    by (simp add: boot_state_def reserve_def init_task_def)
  then show "reserve metered t = (if t = 7 then init_reserve\<lparr>r_flag := 1, r_tracking_energy := 1,
      r_acc_single_run := \<lparr>tv_sec = 2, tv_nsec = 500000000\<rparr>\<rparr> else init_reserve)" by (simp add: metered_def)
qed (simp_all add: metered_def boot_state_def)

lemma metered_range: "energy_range metered"
  by (simp add: energy_range_def metered_facts init_reserve_def)

lemma power_51: "freq_to_power ! 0 = 28860" "power_checked 51 = Inr 28860"
proof -
  show "freq_to_power ! 0 = 28860" by (simp add: freq_to_power_def)
  then show "power_checked 51 = Inr 28860"
    using power_at_in_range(1) [of 51] by (simp add: power_checked_def energy_consts)
qed

theorem sched_out_charges_witness:
  "\<exists>s'. sched_out 7 metered = Inr s' \<and> r_energy (reserve s' 7) = 72150 \<and> total_energy s' = 72150"
  using sched_out_charges [of metered 7 51] metered_range
  by (auto simp: metered_facts init_reserve_def init_timer_def acc_ok_def ns_def reserve_consts
      energy_consts u32_id power_51)

text \<open>C33. Energy is conserved: over any sequence of switches among a set of threads, the system's counter
  minus the sum of the threads' counters does not change, modulo the width of the counters.\<close>

theorem energy_conserved:
  assumes "run_outs us s = Inr s'" "set us \<subseteq> set ts" "distinct ts" "energy_range s"
  shows "energy_gap ts s' = energy_gap ts s"
  using run_outs_gap [OF assms] by simp

theorem energy_conserved_witness:
  "\<exists>s'. run_outs [7, 8, 7] metered = Inr s' \<and> energy_gap [7, 8] s' = 0"
proof -
  obtain s' where s': "run_outs [7, 8, 7] metered = Inr s'"
    by (auto simp: sched_out_def metered_facts init_reserve_def init_timer_def hrtimer_cancel_idle remove_hrtimer_def
        charge_energy_def power_51 Let_def)
  from energy_conserved [OF s', of "[7, 8]"] metered_range show ?thesis
    using s' by (simp add: energy_gap_def metered_facts init_reserve_def)
qed

text \<open>The system call reports in milliwatts and millijoules; without a frequency in the range of the table it
  reads outside it for the system but not for a thread.\<close>

lemma get_energy_info_thread:
  assumes "0 < tid" "find_task_by_vpid s tid = Some t"
  shows "\<exists>r. get_energy_info e copy tid s = Inr r"
proof -
  obtain p where "power_checked (e_cpufreq_get e (r_cpu (reserve s t)) div KHZ_PER_MHZ) = Inr p" using power_checked_total by blast
  then show ?thesis using assms by (simp add: get_energy_info_def Let_def)
qed

lemma get_energy_info_system_overrun:
  assumes "first_online s = Some c" "e_cpufreq_get e c = 49000"
  shows "get_energy_info e copy 0 s = Inl OutOfBounds"
  using assms by (simp add: get_energy_info_def power_at_def energy_consts freq_to_power_length u32_def)

end
