(* ===== verification/Lifecycle.thy ===== *)
theory Lifecycle
  imports Energy
begin

text \<open>
  The life of a thread as far as reservations are concerned: what \<^verbatim>\<open>copy_process\<close> (\<^verbatim>\<open>kernel/fork.c\<close>) gives
  a new thread and what \<^verbatim>\<open>do_exit\<close> (\<^verbatim>\<open>kernel/exit.c\<close>) takes from a dying one. The rest of the two functions
  does not touch the reservation. A child is a copy of its parent with the flag cleared, so it keeps the
  pointers of the parent's files.
\<close>

section \<open>The code\<close>

definition arch_dup_task_struct :: "tptr \<Rightarrow> tptr \<Rightarrow> kst \<Rightarrow> kst" where
  "arch_dup_task_struct dst src s = s\<lparr>task := (task s)(dst := task s src)\<rparr>"

definition clear_flag :: "tptr \<Rightarrow> kst \<Rightarrow> kst" where
  "clear_flag p s = upd_reserve p (\<lambda>r. r\<lparr>r_flag := 0\<rparr>) s"

definition set_ids :: "tptr \<Rightarrow> int \<Rightarrow> bool \<Rightarrow> int \<Rightarrow> kst \<Rightarrow> kst" where
  "set_ids p pid clone_thread current_tgid s =
     upd_task p (\<lambda>x. x\<lparr>t_pid := pid, t_tgid := (if clone_thread then current_tgid else pid)\<rparr>) s"

definition copy_process :: "tptr \<Rightarrow> tptr \<Rightarrow> int \<Rightarrow> bool \<Rightarrow> kst \<Rightarrow> kst" where
  "copy_process p current pid clone_thread s =
     (let s1 = set_ids p pid clone_thread (t_tgid (task s current)) (clear_flag p (arch_dup_task_struct p current s))
      in s1\<lparr>threads := threads s1 @ [p]\<rparr>)"

definition exit_reserve :: "kenv \<Rightarrow> tptr \<Rightarrow> kst \<Rightarrow> kst res" where
  "exit_reserve e t s =
     (if r_flag (reserve s t) \<noteq> 0
      then bindR (stop_timers t s) (\<lambda>s1. bindR (remove_util_file t s1) (\<lambda>s2. bindR (drop_energy_dir t s2) (leave_bin e t)))
      else Inr s)"

definition unhash_process :: "tptr \<Rightarrow> kst \<Rightarrow> kst" where
  "unhash_process t s = s\<lparr>threads := remove1 t (threads s)\<rparr>"

definition do_exit :: "kenv \<Rightarrow> tptr \<Rightarrow> kst \<Rightarrow> kst res" where
  "do_exit e t s = bindR (exit_reserve e t s) (\<lambda>s1. Inr (unhash_process t s1))"

section \<open>Leaving and joining the system\<close>

text \<open>The stages of cancelling, whatever the kernel answers, as long as they return.\<close>

lemma kept_remove_util_file: "remove_util_file t s = Inr s' \<Longrightarrow> kept s s'"
  by (auto simp: remove_util_file_def bindR_eq_Inr split: if_splits
      intro: kept_trans [OF kept_kfree kept_trans [OF kept_kfree kept_sysfs_remove_ptr]])

lemma kept_drop_energy_dir: "drop_energy_dir t s = Inr s' \<Longrightarrow> kept s s'"
  by (auto simp: drop_energy_dir_def bindR_eq_Inr core_def split: if_splits
      intro: kept_trans [OF kept_remove_energy_dir kept_upd])

lemma stop_timers_InrD:
  assumes "stop_timers t s = Inr s'"
  shows "\<exists>ct pt. s' = upd_reserve t (\<lambda>r. r\<lparr>r_c_timer := ct, r_p_timer := pt\<rparr>) s"
  using assms by (auto simp: stop_timers_def bindR_eq_Inr)

lemma kept_set_frequency:
  assumes "sysclock_set_frequency e s = Inr (r, s')"
  shows "kept s s'"
proof -
  have "kept s s'" if "set_frequency_loop e cs ret s = Inr (r, s')" for cs ret
    using that
  proof (induction cs arbitrary: ret s)
    case (Cons c cs)
    have "kept s s1" if "cpufreq_set e p f s = (x, s1)" for p f x s1
      using that by (auto simp: cpufreq_set_def Let_def split: if_splits option.splits intro: kept_intros)
    note set = this
    show ?case
    proof (cases "cpu_online s c \<and> (\<exists>p. e_cpufreq_policy e c = Some (p, ''sysclock''))")
      case True
      then obtain p where p: "cpu_online s c" "e_cpufreq_policy e c = Some (p, ''sysclock'')" by blast
      with Cons.prems obtain f where f: "sysclock_compute s = Inr f" by (auto simp: bindR_eq_Inr)
      obtain x s1 where x: "cpufreq_set e p f s = (x, s1)" by fastforce
      with Cons.prems p f have "set_frequency_loop e cs x s1 = Inr (r, s')" by simp
      from set [OF x] Cons.IH [OF this] show ?thesis by (rule kept_trans)
    next
      case False
      then have "set_frequency_loop e cs ret s = Inr (r, s')"
        using Cons.prems by (cases "e_cpufreq_policy e c") (auto split: if_splits)
      then show ?thesis by (rule Cons.IH)
    qed
  qed simp
  with assms show ?thesis unfolding sysclock_set_frequency_def by blast
qed

text \<open>The other threads' reservations and the packing policy are what they were.\<close>

definition others :: "tptr \<Rightarrow> kst \<Rightarrow> kst \<Rightarrow> bool" where
  "others t s s' \<longleftrightarrow> partition_policy s' = partition_policy s \<and>
     (\<forall>u. u \<noteq> t \<longrightarrow> core (reserve s' u) = core (reserve s u))"

lemma kept_others: "kept s s' \<Longrightarrow> others t s s'"
  by (simp add: kept_def others_def)

lemma others_trans: "others t s s' \<Longrightarrow> others t s' s'' \<Longrightarrow> others t s s''"
  by (simp add: others_def)

lemma others_upd: "others t s (upd_reserve t f s)"
  by (simp add: others_def)

lemma left_ok:
  assumes ok: "sys_ok s" and t: "t \<in> set (threads s)" "r_flag (reserve s t) \<noteq> 0"
    and k: "kept (upd_reserve t f s) s0" and f: "\<And>r. r_cpu (f r) = r_cpu r" "\<And>r. numbers (f r) = numbers r"
    and l: "leave_bin e t s0 = Inr s'"
  shows "sys_ok_but t s' \<and> open_ok s' \<and> threads s' = threads s \<and> others t s s' \<and> reserve s' t = reserve s0 t"
proof -
  let ?c = "r_cpu (reserve s t)" and ?s1 = "upd_reserve t f s"
  have c: "?c \<in> {0..3}" "t \<in> set (bin s ?c)" using ok t by (auto simp: sys_ok_def reserved_ok_def)
  note e1 = kept_fields_eq [OF k] and e2 = kept_core [OF k]
  have b1: "bin ?s1 = bin s" "all_bins_ok ?s1 = all_bins_ok s" by (intro bins_numbers; simp add: f)+
  have num: "numbers (reserve s0 u) = numbers (reserve ?s1 u)" for u by (simp add: numbers_def e2)
  have b0: "bin s0 = bin s" "all_bins_ok s0 = all_bins_ok s"
    using bins_numbers [of s0 ?s1] num b1 e1 by simp_all
  have o0: "open_ok s0" using ok e1 by (simp add: sys_ok_def open_ok_def)
  have r: "r_cpu (reserve s0 t) = ?c" by (simp add: e2 f)
  from leave_bin_ok [of s0 t ?c e] b0 o0 ok c r l have lb: "left_bin t ?c s0 s'" by (auto simp: sys_ok_def)
  have co: "core (reserve s0 u) = core (reserve s u)" if "u \<noteq> t" for u using k that by (simp add: kept_def)
  have "sys_ok_but t s' \<and> open_ok s'"
    by (rule left_sys_ok_but [OF ok refl c _ _ _ _ _ _ lb]) (simp_all add: co b0 e1)
  moreover have "threads s' = threads s0" "partition_policy s' = partition_policy s0" using lb by (auto simp: left_bin_def)
  ultimately show ?thesis using co left_bin_frame(1) [OF lb] e1 by (simp add: others_def)
qed

lemma cancel_keeps:
  assumes ok: "sys_ok s" and c: "cancel_reserve e s tid = Inr (r, s')"
  shows "sys_ok s' \<and> threads s' = threads s \<and> (\<exists>t. others t s s')"
proof (cases "find_task_by_vpid s tid")
  case None
  with ok c show ?thesis by (simp add: cancel_reserve_def others_def)
next
  case (Some t)
  have t: "t \<in> set (threads s)" using find_task_by_vpid_SomeD [OF Some] by simp
  have rest: "kept s1 s2" if "remove_util_file t s1 = Inr sa" "drop_energy_dir t sa = Inr sb" "sysclock_set_frequency e sb = Inr (y, s2)"
    for s1 sa sb y s2
    using that by (blast intro: kept_trans kept_remove_util_file kept_drop_energy_dir kept_set_frequency)
  show ?thesis
  proof (cases "r_flag (reserve s t) = 0")
    case True
    with c Some have "kept s s'" by (auto simp: cancel_reserve_def Let_def bindR_eq_Inr intro: rest)
    then show ?thesis using kept_sys_ok ok kept_fields_eq(1) kept_others by blast
  next
    case False
    with c Some obtain s1 where s1: "stop_timers t s = Inr s1" by (auto simp: cancel_reserve_def Let_def bindR_eq_Inr)
    from stop_timers_InrD [OF s1] obtain ct pt where
      s1': "s1 = upd_reserve t (\<lambda>r. r\<lparr>r_c_timer := ct, r_p_timer := pt\<rparr>) s" by blast
    show ?thesis
    proof (cases "e_setaffinity e tid [0, 1, 2, 3] = 0")
      case True
      let ?s2 = "upd_reserve t (\<lambda>r. r\<lparr>r_flag := 0\<rparr>) s1"
      have s2: "?s2 = upd_reserve t (\<lambda>r. r\<lparr>r_c_timer := ct, r_p_timer := pt, r_flag := 0\<rparr>) s"
        unfolding s1' by (simp add: upd_reserve_def upd_task_def)
      from c Some False True s1 obtain s3 where s3: "leave_bin e t ?s2 = Inr s3" "kept s3 s'"
        by (auto simp: cancel_reserve_def Let_def bindR_eq_Inr intro: rest)
      have "kept (upd_reserve t (\<lambda>r. r\<lparr>r_c_timer := ct, r_p_timer := pt, r_flag := 0\<rparr>) s) ?s2" unfolding s2 by simp
      from left_ok [OF ok t False this _ _ s3(1)]
      have l: "sys_ok_but t s3 \<and> open_ok s3 \<and> threads s3 = threads s \<and> others t s s3 \<and> reserve s3 t = reserve ?s2 t"
        by (simp add: numbers_def)
      then have "sys_ok s3" by (intro sys_ok_but_reserved [of t]) simp_all
      with l show ?thesis using s3(2) kept_sys_ok kept_fields_eq(1) kept_others others_trans by metis
    next
      case False2: False
      with c Some False s1 have "s' = s1" by (simp add: cancel_reserve_def Let_def)
      moreover have "same_res s s1" unfolding s1' by (rule same_res_upd) simp_all
      ultimately show ?thesis using ok same_res_sys_ok others_upd [of t s] by (auto simp: s1')
    qed
  qed
qed

lemma sys_ok_unhash:
  assumes ok: "sys_ok_but t s" and o: "open_ok s"
  shows "sys_ok (s\<lparr>threads := remove1 t (threads s)\<rparr>)"
proof -
  let ?s = "s\<lparr>threads := remove1 t (threads s)\<rparr>"
  have d: "distinct (threads s)" using ok by (simp add: sys_ok_but_def)
  have r: "reserve ?s u = reserve s u" for u by (simp add: reserve_def)
  have b: "bin ?s = bin s" "all_bins_ok ?s = all_bins_ok s" by (intro bins_numbers; simp add: r)+
  have "bin_members ?s" using ok d by (auto simp: bin_members_def sys_ok_but_def b r)
  moreover have "reserved_ok ?s u" if "u \<in> set (threads ?s)" for u
    using ok d that by (auto simp: sys_ok_but_def reserved_ok_def b r)
  ultimately show ?thesis
    using ok o d by (auto simp: sys_ok_def sys_ok_but_def b open_ok_def last_ok_def known_policy_def policy_char_def)
qed

lemma exit_keeps:
  assumes ok: "sys_ok s" and t: "t \<in> set (threads s)" and x: "do_exit e t s = Inr s'"
  shows "sys_ok s' \<and> threads s' = remove1 t (threads s) \<and> others t s s'"
proof -
  obtain s1 where s1: "exit_reserve e t s = Inr s1" "s' = s1\<lparr>threads := remove1 t (threads s1)\<rparr>"
    using x by (auto simp: do_exit_def bindR_eq_Inr unhash_process_def)
  have l: "sys_ok_but t s1 \<and> open_ok s1 \<and> threads s1 = threads s \<and> others t s s1"
  proof (cases "r_flag (reserve s t) = 0")
    case True
    with s1 ok show ?thesis using sys_ok_but_unreserved by (auto simp: exit_reserve_def others_def sys_ok_def)
  next
    case False
    with s1(1) obtain sa sb sc where s: "stop_timers t s = Inr sa" "remove_util_file t sa = Inr sb"
      "drop_energy_dir t sb = Inr sc" "leave_bin e t sc = Inr s1" by (auto simp: exit_reserve_def bindR_eq_Inr)
    from stop_timers_InrD [OF s(1)] obtain ct pt where
      sa: "sa = upd_reserve t (\<lambda>r. r\<lparr>r_c_timer := ct, r_p_timer := pt\<rparr>) s" by blast
    have "kept sa sc" using kept_remove_util_file [OF s(2)] kept_drop_energy_dir [OF s(3)] by (rule kept_trans)
    from left_ok [OF ok t False this [unfolded sa] _ _ s(4)] show ?thesis by (simp add: numbers_def)
  qed
  then have "sys_ok s'" unfolding s1(2) by (intro sys_ok_unhash) simp_all
  with l s1(2) show ?thesis by (simp add: others_def reserve_def)
qed

lemma fork_keeps:
  assumes ok: "sys_ok s" and p: "p \<notin> set (threads s)"
  shows "sys_ok (copy_process p current pid th s) \<and> threads (copy_process p current pid th s) = threads s @ [p] \<and>
    others p s (copy_process p current pid th s) \<and> r_flag (reserve (copy_process p current pid th s) p) = 0"
proof -
  let ?s = "copy_process p current pid th s"
  have r: "reserve ?s u = reserve s u" if "u \<noteq> p" for u
    using that by (simp add: copy_process_def Let_def set_ids_def clear_flag_def arch_dup_task_struct_def reserve_def upd_reserve_def upd_task_def)
  have fl: "r_flag (reserve ?s p) = 0"
    by (simp add: copy_process_def Let_def set_ids_def clear_flag_def arch_dup_task_struct_def reserve_def upd_reserve_def upd_task_def)
  have f: "threads ?s = threads s @ [p]" "cpu_tasks ?s = cpu_tasks s" "cpu_tasks_length ?s = cpu_tasks_length s"
    "cpu_util ?s = cpu_util s" "cpu_open ?s = cpu_open s" "lastCpuID_revise ?s = lastCpuID_revise s"
    "lastCpuID_create ?s = lastCpuID_create s" "partition_policy ?s = partition_policy s"
    by (simp_all add: copy_process_def Let_def set_ids_def clear_flag_def arch_dup_task_struct_def)
  have nin: "p \<notin> set (bin s c)" if "c \<in> {0..3}" for c
    using ok p that by (auto simp: sys_ok_def bin_members_def)
  have rb: "reserve ?s u = reserve s u" if "c \<in> {0..3}" "u \<in> set (bin s c)" for c u using that nin r by metis
  then have ab: "all_bins_ok ?s = all_bins_ok s" by (intro bins_numbers(2)) (simp_all add: f)
  have b: "bin ?s = bin s" by (simp add: bin_def fun_eq_iff f)
  have "bin_members ?s" using ok rb by (simp add: sys_ok_def bin_members_def b f)
  moreover have "reserved_ok ?s u" if "u \<in> set (threads ?s)" for u
    using ok that r fl by (cases "u = p") (auto simp: sys_ok_def reserved_ok_def b f)
  ultimately have "sys_ok ?s"
    using ok p ab by (simp add: sys_ok_def open_ok_def last_ok_def known_policy_def policy_char_def f)
  with f(1,8) fl r show ?thesis by (simp add: others_def)
qed

text \<open>A child that has not been reserved itself still holds its parent's pointers: cancelling the child frees
  the name of the parent's file, and cancelling the parent then frees it again.\<close>

lemma fork_shares_files:
  assumes m: "mem_ok s t" "util_kobj s \<noteq> 0" and p: "p \<noteq> t"
  shows "\<exists>s1. remove_util_file p (copy_process p t pid th s) = Inr s1 \<and> remove_util_file t s1 = Inl BadFree"
proof -
  let ?s = "copy_process p t pid th s" and ?n = "r_tid_name (reserve s t)" and ?q = "r_periods (reserve s t)"
  have r: "r_tid_name (reserve ?s p) = ?n" "r_periods (reserve ?s p) = ?q" "r_tid_name (reserve ?s t) = ?n"
    "util_kobj ?s = util_kobj s" "kallocd ?s = kallocd s" "kstr ?s = kstr s"
    using p by (simp_all add: copy_process_def Let_def set_ids_def clear_flag_def arch_dup_task_struct_def reserve_def
        upd_reserve_def upd_task_def)
  have pq: "?n \<noteq> 0" "?q \<noteq> 0" "?n \<noteq> ?q" "?n \<in> kallocd s" "?q \<in> kallocd s"
    using m by (auto simp: mem_ok_def Let_def)
  let ?s1 = "sysfs_remove_file (util_kobj s) (kstr s ?n)
    ((?s\<lparr>kallocd := kallocd s - {?n} - {?q}\<rparr>)\<lparr>stale_reads := Suc (stale_reads ?s)\<rparr>)"
  have "remove_util_file p ?s = Inr ?s1"
    using m(2) pq by (simp add: remove_util_file_def kfree_def sysfs_remove_ptr_def r)
  moreover have "remove_util_file t ?s1 = Inl BadFree"
    using m(2) pq by (simp add: remove_util_file_def kfree_def sysfs_remove_file_def r)
  ultimately show ?thesis by blast
qed

text \<open>Unlike \<^verbatim>\<open>cancel_reserve\<close>, \<^verbatim>\<open>do_exit\<close> leaves the clock at the frequency the dead thread needed.\<close>

lemma exit_keeps_clock:
  assumes "do_exit e t s = Inr s'"
  shows "cpu_cur_freq s' = cpu_cur_freq s"
proof -
  have kf: "cpu_cur_freq s2 = cpu_cur_freq s1" if "kfree p s1 = Inr s2" for p s1 s2
    using that by (auto simp: kfree_def split: if_splits)
  have sp: "cpu_cur_freq s2 = cpu_cur_freq s1" if "sysfs_remove_ptr d p s1 = Inr s2" for d p s1 s2
    using that by (auto simp: sysfs_remove_ptr_def sysfs_remove_file_def Let_def split: if_splits)
  have a: "cpu_cur_freq s2 = cpu_cur_freq s1" if "stop_timers t s1 = Inr s2" for s1 s2
    using stop_timers_InrD [OF that] by auto
  have b: "cpu_cur_freq s2 = cpu_cur_freq s1" if "remove_util_file t s1 = Inr s2" for s1 s2
    using that by (auto simp: remove_util_file_def bindR_eq_Inr dest!: kf sp split: if_splits)
  have c: "cpu_cur_freq s2 = cpu_cur_freq s1" if "drop_energy_dir t s1 = Inr s2" for s1 s2
    using that by (auto simp: drop_energy_dir_def remove_energy_dir_def bindR_eq_Inr kobject_put_def sysfs_remove_file_def
        Let_def dest!: kf split: if_splits)
  have d: "cpu_cur_freq s2 = cpu_cur_freq s1" if "leave_bin e t s1 = Inr s2" for s1 s2
    using that by (auto simp: leave_bin_def unbind_def set_bin_def cpu_down_def bindR_eq_Inr Let_def split: if_splits)
  show ?thesis
    using assms by (auto simp: do_exit_def exit_reserve_def unhash_process_def bindR_eq_Inr dest!: a b c d split: if_splits)
qed

section \<open>Timers and switches\<close>

text \<open>Whatever the callbacks find, the reservations stay as they are.\<close>

lemma same_res_refl: "same_res s s"
  by (simp add: same_res_def)

lemma same_res_task: "(\<And>x. t_reserve (f x) = t_reserve x) \<Longrightarrow> same_res s (upd_task t f s)"
  by (simp add: same_res_def reserve_def) (simp add: upd_task_def)

lemma same_res_fields:
  "same_res s (s\<lparr>karray := a\<rparr>)" "same_res s (s\<lparr>cpu_freq := b\<rparr>)" "same_res s (s\<lparr>total_energy := c\<rparr>)"
  by (simp_all add: same_res_def)

lemma same_res_record_sample:
  assumes "record_sample t s = Inr s'"
  shows "same_res s s'"
proof -
  obtain f a where "s' = (upd_reserve t f s)\<lparr>karray := a\<rparr>" "\<And>r. r_flag (f r) = r_flag r" "\<And>r. r_cpu (f r) = r_cpu r"
    "\<And>r. r_util (f r) = r_util r" "\<And>r. r_period (f r) = r_period r" "\<And>r. r_budget (f r) = r_budget r"
    "\<And>r. r_T (f r) = r_T r"
    using assms by (auto simp: record_sample_def Let_def bindR_eq_Inr split: if_splits)
  then show ?thesis using same_res_trans [OF same_res_upd same_res_fields(1)] by simp
qed

lemma same_res_run_c_timer:
  assumes "run_c_timer e t s = Inr s'"
  shows "same_res s s'"
proof -
  let ?s0 = "upd_reserve t (\<lambda>r. r\<lparr>r_c_timer := run_hrtimer_begin (r_c_timer r)\<rparr>) s"
  let ?s1 = "upd_reserve t (\<lambda>r. r\<lparr>r_acc_single_run := add_tick (r_acc_single_run r), r_acc := add_tick (r_acc r)\<rparr>) ?s0"
  obtain x s2 where c: "c_timer_callback e t ?s0 = Inr (x, s2)"
    and s': "s' = upd_reserve t (\<lambda>r. r\<lparr>r_c_timer := run_hrtimer_end x (r_c_timer r)\<rparr>) s2"
    using assms by (auto simp: run_c_timer_def bindR_eq_Inr)
  have "same_res ?s1 s2"
    using c by (auto simp: c_timer_callback_def Let_def bindR_eq_Inr same_res_suspend split: if_splits intro: same_res_upd)
  moreover have "same_res s ?s0" "same_res ?s0 ?s1" "same_res s2 s'"
    unfolding s' by (rule same_res_upd; simp)+
  ultimately show ?thesis using same_res_trans by blast
qed

lemma same_res_resume: "same_res s (resume_task t s)"
  unfolding resume_task_def wake_up_process_def
  by (auto intro: same_res_refl same_res_upd same_res_trans [OF same_res_task same_res_upd])

lemma same_res_run_p_timer:
  assumes "run_p_timer e t s = Inr s'"
  shows "same_res s s'"
proof -
  let ?s0 = "upd_reserve t (\<lambda>r. r\<lparr>r_p_timer := run_hrtimer_begin (r_p_timer r)\<rparr>) s"
  let ?s1 = "end_period t (update_freqs e ?s0)"
  obtain x s7 where c: "p_timer_callback e t ?s0 = Inr (x, s7)"
    and s': "s' = upd_reserve t (\<lambda>r. r\<lparr>r_p_timer := run_hrtimer_end x (r_p_timer r)\<rparr>) s7"
    using assms by (auto simp: run_p_timer_def bindR_eq_Inr)
  obtain s2 s5 timer where st: "sample_stage t ?s1 = Inr s2" "dir_stage t (upd_reserve t (\<lambda>r. r\<lparr>r_acc := zero_time\<rparr>) s2) = Inr s5"
    "s7 = upd_reserve t (\<lambda>r. r\<lparr>r_p_timer := timer\<rparr>) (resume_task t s5)"
    using c unfolding p_timer_callback_stages by (auto simp: Let_def bindR_eq_Inr)
  have "same_res ?s1 s2"
    using st(1) by (auto simp: sample_stage_def split: if_splits intro: same_res_record_sample same_res_upd)
  moreover have "same_res s2 (upd_reserve t (\<lambda>r. r\<lparr>r_acc := zero_time\<rparr>) s2)" by (rule same_res_upd) simp_all
  moreover have "same_res (upd_reserve t (\<lambda>r. r\<lparr>r_acc := zero_time\<rparr>) s2) s5"
    using st(2) by (auto simp: dir_stage_def bindR_eq_Inr split: if_splits
        intro: same_res_refl same_res_trans [OF kept_same_res [OF kept_remove_energy_dir] same_res_upd])
  moreover have "same_res s5 s7" unfolding st(3) by (rule same_res_trans [OF same_res_resume same_res_upd]) simp_all
  moreover have "same_res s7 s'" unfolding s' by (rule same_res_upd) simp_all
  moreover have "same_res s ?s0" by (rule same_res_upd) simp_all
  moreover have "same_res ?s0 ?s1" by (rule booked_begin)
  ultimately show ?thesis using same_res_trans by meson
qed

lemma same_res_sched_out:
  assumes "sched_out t s = Inr s'"
  shows "same_res s s'"
proof -
  obtain s1 s2 where s: "if r_flag (reserve s t) \<noteq> 0 then \<exists>ct. s1 = upd_reserve t (\<lambda>r. r\<lparr>r_c_timer := ct\<rparr>) s else s1 = s"
    "charge_energy t s1 = Inr s2" "s' = upd_reserve t (\<lambda>r. r\<lparr>r_acc_single_run := zero_time\<rparr>) s2"
    using assms by (auto simp: sched_out_def bindR_eq_Inr split: if_splits)
  have "same_res s s1" using s(1) by (auto split: if_splits intro: same_res_refl same_res_upd)
  moreover have "same_res s1 s2"
    using s(2) by (auto simp: charge_energy_def Let_def bindR_eq_Inr split: if_splits
        intro: same_res_refl same_res_trans [OF same_res_upd same_res_fields(3)])
  moreover have "same_res s2 s'" unfolding s(3) by (rule same_res_upd) simp_all
  ultimately show ?thesis using same_res_trans by blast
qed

lemma same_res_sched_in: "same_res s (sched_in e t s)"
  unfolding sched_in_def by (auto intro: same_res_refl same_res_upd)

lemma same_res_end_job: "same_res s (snd (end_job t s))"
  unfolding end_job_def by (auto intro: same_res_refl same_res_trans [OF same_res_task same_res_upd])

end
