(* ===== verification/Scanf.thy ===== *)
theory Scanf
  imports Fmt
begin

text \<open>
  Reading formatted text: \<^verbatim>\<open>vsscanf\<close> of \<^verbatim>\<open>lib/vsprintf.c\<close> with every directive it knows, and the string
  functions of \<^verbatim>\<open>lib/string.c\<close> that the sysfs files use.
  \<^item> The text is a string and a position in it, so that the position one past the end, which a failed match
    leaves behind, can be reported by \<^verbatim>\<open>%n\<close>. The format is what is left of it.
  \<^item> The stores through the argument pointers are the list of \<open>scanned\<close> values, in order.
  Texts printed with \<^verbatim>\<open>%d\<close> and separated by white space are read back exactly.
\<close>

section \<open>The code\<close>

definition isspace :: "char \<Rightarrow> bool" where
  "isspace c \<longleftrightarrow> (9 \<le> ord_c c \<and> ord_c c \<le> 13) \<or> ord_c c = 32 \<or> ord_c c = 160"

definition skip_spaces :: "string \<Rightarrow> string" where
  "skip_spaces str = dropWhile isspace str"

definition skip_spaces_at :: "string \<Rightarrow> nat \<Rightarrow> nat" where
  "skip_spaces_at buf pos = pos + length (takeWhile isspace (drop pos buf))"

fun strcmp :: "string \<Rightarrow> string \<Rightarrow> int" where
  "strcmp [] [] = 0"
| "strcmp [] (c2 # ct) = -1"
| "strcmp (c1 # cs) [] = 1"
| "strcmp (c1 # cs) (c2 # ct) = (if c1 \<noteq> c2 then (if ord_c c1 < ord_c c2 then -1 else 1) else strcmp cs ct)"

text \<open>Copying into a buffer that holds \<open>dest\<close>: the first \<open>count\<close> characters are replaced, by NULs after the
  end of the source.\<close>

definition strncpy :: "string \<Rightarrow> string \<Rightarrow> nat \<Rightarrow> string" where
  "strncpy dest src n = takeWhile (\<lambda>c. c \<noteq> CHR 0x00) (take n src @ replicate (n - length src) (CHR 0x00) @ drop n dest)"

definition simple_strtoll :: "string \<Rightarrow> int \<Rightarrow> int \<times> string" where
  "simple_strtoll cp base =
     (if char_at cp 0 = CHR ''-''
      then (let (r, endp) = simple_strtoull (tl cp) base in (s64 (- r), endp))
      else (let (r, endp) = simple_strtoull cp base in (s64 r, endp)))"

fun skip_atoi :: "string \<Rightarrow> int \<Rightarrow> int \<times> string" where
  "skip_atoi [] i = (i, [])"
| "skip_atoi (c # cs) i = (if isdigit c then skip_atoi cs (s32 (i * 10 + ord_c c - 48)) else (i, c # cs))"

datatype scanned = ScanInt int | ScanText string

definition s8 :: "int \<Rightarrow> int" where "s8 x = (x + 128) mod 256 - 128"

definition NOQUAL :: char where "NOQUAL = CHR 0xFF"

text \<open>The store of an integer conversion: its width and sign depend on the qualifier.\<close>

definition scan_store :: "char \<Rightarrow> bool \<Rightarrow> int \<Rightarrow> string \<Rightarrow> int \<times> string" where
  "scan_store qualifier is_sign base str =
     (if qualifier = CHR ''H'' then
        (if is_sign then (let (v, endp) = simple_strtol str base in (s8 v, endp))
         else (let (v, endp) = simple_strtoul str base in (v mod 256, endp)))
      else if qualifier = CHR ''h'' then
        (if is_sign then (let (v, endp) = simple_strtol str base in (s16 v, endp))
         else (let (v, endp) = simple_strtoul str base in (v mod 65536, endp)))
      else if qualifier = CHR ''L'' then
        (if is_sign then simple_strtoll str base else simple_strtoull str base)
      else if qualifier = CHR ''Z'' \<or> qualifier = CHR ''z'' then simple_strtoul str base
      else (if is_sign then simple_strtol str base else simple_strtoul str base))"

text \<open>The first character decides whether there is a number at all.\<close>

definition scan_digit_ok :: "int \<Rightarrow> char \<Rightarrow> bool" where
  "scan_digit_ok base digit \<longleftrightarrow> digit \<noteq> CHR 0x00 \<and> (base = 16 \<longrightarrow> isxdigit digit) \<and> (base = 10 \<longrightarrow> isdigit digit) \<and>
     (base = 8 \<longrightarrow> isdigit digit \<and> ord_c digit \<le> 55) \<and> (base = 0 \<longrightarrow> isdigit digit)"

definition scan_qualifier :: "string \<Rightarrow> char \<times> string" where
  "scan_qualifier fmt =
     (let c = char_at fmt 0 in
      if c = CHR ''h'' \<or> tolower_c c = CHR ''l'' \<or> tolower_c c = CHR ''z'' then
        (if char_at fmt 1 = c \<and> c = CHR ''h'' then (CHR ''H'', drop 2 fmt)
         else if char_at fmt 1 = c \<and> c = CHR ''l'' then (CHR ''L'', drop 2 fmt)
         else (c, drop 1 fmt))
      else (NOQUAL, fmt))"

definition scan_width :: "string \<Rightarrow> int \<times> string" where
  "scan_width fmt = (if isdigit (char_at fmt 0) then (let (i, fmt') = skip_atoi fmt 0 in (s16 i, fmt')) else (-1, fmt))"

text \<open>After the loop a \<^verbatim>\<open>%n\<close> that the end of the text has left over is filled in.\<close>

definition scan_tail :: "string \<Rightarrow> nat \<Rightarrow> int \<Rightarrow> scanned list \<Rightarrow> int \<times> scanned list" where
  "scan_tail fmt pos num out =
     (num, if char_at fmt 0 = CHR ''%'' \<and> char_at fmt 1 = CHR ''n'' then out @ [ScanInt (int pos)] else out)"

definition scan_chars :: "string \<Rightarrow> nat \<Rightarrow> int \<Rightarrow> string" where
  "scan_chars buf pos field_width = take (nat (max 1 field_width)) (drop pos buf)"

definition scan_word :: "string \<Rightarrow> nat \<Rightarrow> int \<Rightarrow> string" where
  "scan_word buf pos field_width =
     take (nat ((if field_width = -1 then 32767 else field_width) mod 65536)) (takeWhile (\<lambda>c. \<not> isspace c) (drop pos buf))"

definition scan_modifiers :: "string \<Rightarrow> int \<times> char \<times> string" where
  "scan_modifiers fmt = (let (w, f2) = scan_width fmt; (q, f3) = scan_qualifier f2 in (w, q, f3))"

lemma skip_atoi_length: "length (snd (skip_atoi fmt i)) \<le> length fmt"
  by (induction fmt i rule: skip_atoi.induct) auto

lemma scan_modifiers_length:
  assumes "(w, q, f3) = scan_modifiers fmt"
  shows "length f3 \<le> length fmt"
  using assms skip_atoi_length [of fmt 0]
  by (fastforce simp: scan_modifiers_def scan_width_def scan_qualifier_def Let_def split: prod.splits if_splits)

lemma skip_format_length: "length (if sp then skip_spaces (tl fmt) else fmt) \<le> length fmt"
  by (simp add: skip_spaces_def le_trans [OF length_dropWhile_le])

text \<open>One conversion, from the percent sign on: it ends the scan (\<open>Inl\<close>) or goes on with what is left of
  the format at a later position (\<open>Inr\<close>).\<close>

definition scan_conv :: "string \<Rightarrow> string \<Rightarrow> nat \<Rightarrow> int \<Rightarrow> scanned list \<Rightarrow>
    (int \<times> scanned list) + (string \<times> nat \<times> int \<times> scanned list)" where
  "scan_conv buf fmt pos num out =
     (if char_at (tl fmt) 0 = CHR ''*'' then
        Inr (dropWhile (\<lambda>c. \<not> isspace c \<and> c \<noteq> CHR ''%'') (tl fmt),
             pos + length (takeWhile (\<lambda>c. \<not> isspace c) (drop pos buf)), num, out)
      else
        let (field_width, qualifier, f3) = scan_modifiers (tl fmt) in
        if f3 = [] \<or> char_at buf pos = CHR 0x00 then Inl (scan_tail f3 pos num out)
        else
          let d = hd f3; f4 = tl f3 in
          if d = CHR ''c'' then
            Inr (f4, pos + length (scan_chars buf pos field_width), num + 1, out @ [ScanText (scan_chars buf pos field_width)])
          else if d = CHR ''s'' then
            (let p2 = skip_spaces_at buf pos; w = scan_word buf p2 field_width
             in Inr (f4, p2 + length w, num + 1, out @ [ScanText w]))
          else if d = CHR ''n'' then Inr (f4, pos, num, out @ [ScanInt (int pos)])
          else if d = CHR ''%'' then (if char_at buf pos \<noteq> CHR ''%'' then Inl (num, out) else Inr (f4, Suc pos, num, out))
          else if d \<in> {CHR ''o'', CHR ''x'', CHR ''X'', CHR ''i'', CHR ''d'', CHR ''u''} then
            (let base = (if d = CHR ''o'' then 8 else if d = CHR ''x'' \<or> d = CHR ''X'' then 16 else if d = CHR ''i'' then 0 else 10);
                 is_sign = (d = CHR ''i'' \<or> d = CHR ''d'');
                 p2 = skip_spaces_at buf pos;
                 digit = (if is_sign \<and> char_at buf p2 = CHR ''-'' then char_at buf (Suc p2) else char_at buf p2)
             in if \<not> scan_digit_ok base digit then Inl (scan_tail f4 p2 num out)
                else let (v, endp) = scan_store qualifier is_sign base (drop p2 buf)
                     in Inr (f4, length buf - length endp, num + 1, out @ [ScanInt v]))
          else Inl (num, out))"

lemma scan_conv_shorter:
  assumes "scan_conv buf fmt pos num out = Inr (f', pos', num', out')" "fmt \<noteq> []"
  shows "length f' < length fmt"
proof (cases "char_at (tl fmt) 0 = CHR ''*''")
  case True
  with assms have "f' = dropWhile (\<lambda>c. \<not> isspace c \<and> c \<noteq> CHR ''%'') (tl fmt)" by (simp add: scan_conv_def)
  with assms(2) show ?thesis
    using length_dropWhile_le [of "\<lambda>c. \<not> isspace c \<and> c \<noteq> CHR ''%''" "tl fmt"] by (cases fmt) (simp_all add: less_Suc_eq_le)
next
  case False
  obtain w q f3 where m: "scan_modifiers (tl fmt) = (w, q, f3)" by (cases "scan_modifiers (tl fmt)") auto
  with assms(1) False have "f3 \<noteq> []" "f' = tl f3"
    by (auto simp: scan_conv_def Let_def split: if_splits prod.splits)
  moreover have "length f3 \<le> length (tl fmt)" by (rule scan_modifiers_length [OF m [symmetric]])
  ultimately show ?thesis using assms(2) by (cases f3; cases fmt) simp_all
qed

function vsscanf_loop :: "string \<Rightarrow> string \<Rightarrow> nat \<Rightarrow> int \<Rightarrow> scanned list \<Rightarrow> int \<times> scanned list" where
  "vsscanf_loop buf fmt pos num out =
     (if fmt = [] \<or> char_at buf pos = CHR 0x00 then scan_tail fmt pos num out
      else
        let sp = isspace (hd fmt);
            f1 = (if sp then skip_spaces (tl fmt) else fmt);
            p1 = (if sp then skip_spaces_at buf pos else pos)
        in if f1 = [] then scan_tail f1 p1 num out
           else if hd f1 \<noteq> CHR ''%'' then
             (if hd f1 \<noteq> char_at buf p1 then scan_tail (tl f1) (Suc p1) num out
              else vsscanf_loop buf (tl f1) (Suc p1) num out)
           else
             case scan_conv buf f1 p1 num out of
               Inl r \<Rightarrow> r
             | Inr (f', pos', num', out') \<Rightarrow> vsscanf_loop buf f' pos' num' out')"
  by pat_completeness auto

termination
proof (relation "measure (\<lambda>(buf, fmt, pos, num, out). length fmt)", goal_cases)
  case (2 buf fmt pos num out sp f1 p1)
  have "length f1 \<le> length fmt" unfolding 2(3) by (rule skip_format_length)
  moreover have "length (tl f1) < length f1" using 2(5) by (cases f1) simp_all
  ultimately show ?case by simp
next
  case (3 buf fmt pos num out sp f1 p1 x f' y pos' z num' out')
  have "length f1 \<le> length fmt" unfolding 3(3) by (rule skip_format_length)
  moreover have "scan_conv buf f1 p1 num out = Inr (f', pos', num', out')" using 3(7-) by simp
  then have "length f' < length f1" using 3(5) by (rule scan_conv_shorter)
  ultimately show ?case by simp
qed simp

declare vsscanf_loop.simps [simp del]

definition sscanf :: "string \<Rightarrow> string \<Rightarrow> int \<times> scanned list" where
  "sscanf buf fmt = vsscanf_loop buf fmt 0 0 []"

text \<open>\<^verbatim>\<open>sscanf(buf, "%d", &x)\<close>: the value that \<open>x\<close> has afterwards.\<close>

definition sscanf_d :: "string \<Rightarrow> int \<Rightarrow> int" where
  "sscanf_d buf x = (case snd (sscanf buf ''%d'') of ScanInt n # _ \<Rightarrow> n | _ \<Rightarrow> x)"

section \<open>Comparing and copying\<close>

lemma strcmp_0_iff: "strcmp a b = 0 \<longleftrightarrow> a = b"
  by (induction a b rule: strcmp.induct) auto

lemma strncpy_same_length:
  "length src \<ge> n \<Longrightarrow> length dest = n \<Longrightarrow> CHR 0x00 \<notin> set src \<Longrightarrow> strncpy dest src n = take n src"
  by (auto simp: strncpy_def takeWhile_eq_all_conv dest: in_set_takeD)

section \<open>Reading back what was printed\<close>


section \<open>Reading back what was printed\<close>

lemma isspace_not_special: "isspace c \<Longrightarrow> c \<noteq> CHR 0x00 \<and> c \<noteq> CHR ''-'' \<and> \<not> isdigit c \<and> \<not> isxdigit c"
  by (auto simp: isspace_def isdigit_def isxdigit_def ord_c_def)

lemma isdigit_not_special: "isdigit c \<Longrightarrow> c \<noteq> CHR 0x00 \<and> \<not> isspace c"
  by (auto simp: isspace_def isdigit_def ord_c_def)

text \<open>The first character of a printed number is a digit, or a minus sign with a digit after it.\<close>

lemma fmt_d_first:
  assumes "- (2 ^ 31) \<le> n" "n < 2 ^ 31"
  shows "fmt_d n \<noteq> []" "hd (fmt_d n) \<noteq> CHR 0x00" "\<not> isspace (hd (fmt_d n))"
    "scan_digit_ok 10 (if hd (fmt_d n) = CHR ''-'' then char_at (fmt_d n @ rest) 1 else hd (fmt_d n))"
proof -
  have dec: "decimal m \<noteq> []" "isdigit (hd (decimal m))" if "0 \<le> m" for m
    using decimal_first [OF that, of "[]"] dec_digits_nonempty [of m]
    by (simp_all add: decimal_def char_at_def hd_conv_nth)
  have ok: "scan_digit_ok 10 c" if "isdigit c" for c using that isdigit_not_special by (simp add: scan_digit_ok_def)
  have "fmt_d n \<noteq> [] \<and> hd (fmt_d n) \<noteq> CHR 0x00 \<and> \<not> isspace (hd (fmt_d n)) \<and>
    scan_digit_ok 10 (if hd (fmt_d n) = CHR ''-'' then char_at (fmt_d n @ rest) 1 else hd (fmt_d n))"
  proof (cases "0 \<le> n")
    case True
    with assms have "fmt_d n = decimal n" by (simp add: fmt_d_decimal)
    moreover have "isdigit (hd (decimal n))" "decimal n \<noteq> []" using dec [OF True] by simp_all
    ultimately show ?thesis using isdigit_not_special isdigit_not_minus ok by simp
  next
    case False
    with assms have "fmt_d n = CHR ''-'' # decimal (- n)" by (simp add: fmt_d_negative)
    moreover have "decimal (- n) \<noteq> []" "isdigit (hd (decimal (- n)))" using dec [of "- n"] False by simp_all
    moreover from this have "char_at (CHR ''-'' # decimal (- n) @ rest) 1 = hd (decimal (- n))"
      by (simp add: char_at_def nth_append hd_conv_nth)
    ultimately show ?thesis using ok by (simp add: isspace_def ord_c_def)
  qed
  then show "fmt_d n \<noteq> []" "hd (fmt_d n) \<noteq> CHR 0x00" "\<not> isspace (hd (fmt_d n))"
    "scan_digit_ok 10 (if hd (fmt_d n) = CHR ''-'' then char_at (fmt_d n @ rest) 1 else hd (fmt_d n))" by blast+
qed

lemma char_at_drop: "char_at (drop p buf) i = char_at buf (p + i)"
  by (auto simp: char_at_def)

lemma char_at_hd: "xs \<noteq> [] \<Longrightarrow> char_at (xs @ ys) 0 = hd xs"
  by (simp add: char_at_def nth_append hd_conv_nth)

lemma text_left:
  assumes "drop pos buf = ws @ xs" "\<forall>c\<in>set ws. isspace c" "xs \<noteq> []" "hd xs \<noteq> CHR 0x00"
  shows "char_at buf pos \<noteq> CHR 0x00"
proof -
  have "char_at buf pos = hd (ws @ xs)"
    using char_at_drop [of pos buf 0] char_at_hd [of "ws @ xs" "[]"] assms(1,3) by simp
  with assms show ?thesis using isspace_not_special by (cases ws) auto
qed

lemma skip_spaces_at_eq:
  assumes "drop pos buf = ws @ xs" "\<forall>c\<in>set ws. isspace c" "xs = [] \<or> \<not> isspace (hd xs)"
  shows "skip_spaces_at buf pos = pos + length ws" "drop (skip_spaces_at buf pos) buf = xs"
proof -
  have "takeWhile isspace xs = []" using assms(3) by (cases xs) auto
  then show s: "skip_spaces_at buf pos = pos + length ws"
    using assms(1,2) by (simp add: skip_spaces_at_def takeWhile_append2)
  have "drop (pos + length ws) buf = drop (length ws) (drop pos buf)" by (simp add: add.commute)
  then show "drop (skip_spaces_at buf pos) buf = xs" by (simp add: s assms(1))
qed

lemma scan_modifiers_plain:
  assumes "c \<in> {CHR ''d'', CHR ''s''}"
  shows "scan_modifiers (c # f) = (-1, NOQUAL, c # f)"
proof -
  have "\<not> isdigit c" "c \<noteq> CHR ''h''" "tolower_c c \<noteq> CHR ''l''" "tolower_c c \<noteq> CHR ''z''"
    using assms by (auto, code_simp+)
  then show ?thesis by (simp add: scan_modifiers_def scan_width_def scan_qualifier_def char_at_def)
qed

text \<open>One \<^verbatim>\<open>%d\<close> of the format.\<close>

lemma scan_d:
  assumes b: "drop pos buf = ws @ fmt_d n @ rest" "\<forall>c\<in>set ws. isspace c" and n: "- (2 ^ 31) \<le> n" "n < 2 ^ 31"
    and r: "number_ends rest"
  shows "vsscanf_loop buf (CHR ''%'' # CHR ''d'' # f) pos num out =
    vsscanf_loop buf f (length buf - length rest) (num + 1) (out @ [ScanInt n])"
proof -
  note first = fmt_d_first(1-3) [OF n] fmt_d_first(4) [OF n, of rest]
  have nul: "char_at buf pos \<noteq> CHR 0x00"
    using text_left [OF b] first by simp
  have p2: "drop (skip_spaces_at buf pos) buf = fmt_d n @ rest"
    using skip_spaces_at_eq(2) [OF b] first by simp
  let ?p2 = "skip_spaces_at buf pos"
  have c0: "char_at buf ?p2 = hd (fmt_d n)" using char_at_drop [of ?p2 buf 0] p2 first(1) by (simp add: char_at_hd)
  have c1: "char_at buf (Suc ?p2) = char_at (fmt_d n @ rest) 1" using char_at_drop [of ?p2 buf 1] p2 by simp
  have st: "scan_store NOQUAL True 10 (drop ?p2 buf) = (n, rest)"
    unfolding p2 using strtol_fmt_d [OF n r] by (simp add: scan_store_def NOQUAL_def)
  have pc: "\<not> isspace (CHR ''%'')" "char_at (CHR ''d'' # f) 0 = CHR ''d''" by (simp_all add: isspace_def ord_c_def char_at_def)
  show ?thesis
    using first(4)
    by (subst vsscanf_loop.simps) (simp add: scan_conv_def nul pc scan_modifiers_plain Let_def c0 c1 st split: if_splits)
qed

text \<open>A word: \<^verbatim>\<open>%s\<close>.\<close>

lemma scan_s:
  assumes b: "drop pos buf = ws @ w @ rest" "\<forall>c\<in>set ws. isspace c" "\<forall>c\<in>set w. \<not> isspace c \<and> c \<noteq> CHR 0x00"
    and w: "w \<noteq> []" "length w \<le> 32767" and r: "rest = [] \<or> isspace (hd rest)"
  shows "vsscanf_loop buf (CHR ''%'' # CHR ''s'' # f) pos num out =
    vsscanf_loop buf f (length buf - length rest) (num + 1) (out @ [ScanText w])"
proof -
  have hd: "\<not> isspace (hd w)" "hd w \<noteq> CHR 0x00" using b(3) w(1) by (cases w; simp)+
  have nul: "char_at buf pos \<noteq> CHR 0x00"
    using text_left [OF b(1,2)] w(1) hd by simp
  let ?p2 = "skip_spaces_at buf pos"
  have p2: "drop ?p2 buf = w @ rest" using skip_spaces_at_eq(2) [of pos buf ws "w @ rest"] b(1,2) w(1) hd by simp
  have "takeWhile (\<lambda>c. \<not> isspace c) rest = []" using r by (cases rest) auto
  then have sw: "scan_word buf ?p2 (-1) = w" using b(3) w(2) by (simp add: scan_word_def p2 takeWhile_append2)
  have "length buf - ?p2 = length w + length rest" using arg_cong [OF p2, of length] by simp
  then have len: "?p2 + length w = length buf - length rest" using w(1) by (cases w) auto
  have pc: "\<not> isspace (CHR ''%'')" "char_at (CHR ''s'' # f) 0 = CHR ''s''" by (simp_all add: isspace_def ord_c_def char_at_def)
  show ?thesis
    by (subst vsscanf_loop.simps) (simp add: scan_conv_def nul pc scan_modifiers_plain Let_def sw len)
qed

text \<open>White space between two directives.\<close>

lemma scan_blank:
  assumes "drop pos buf = ws @ xs" "\<forall>c\<in>set ws. isspace c" "ws \<noteq> []" "xs \<noteq> []" "\<not> isspace (hd xs)" "hd xs \<noteq> CHR 0x00"
  shows "vsscanf_loop buf (CHR '' '' # CHR ''%'' # f) pos num out = vsscanf_loop buf (CHR ''%'' # f) (pos + length ws) num out"
proof -
  have nul: "char_at buf pos \<noteq> CHR 0x00"
    using text_left [OF assms(1,2,4,6)] .
  have sp: "skip_spaces_at buf pos = pos + length ws" using skip_spaces_at_eq(1) [OF assms(1,2)] assms(5) by simp
  have "drop (pos + length ws) buf = xs" using skip_spaces_at_eq [OF assms(1,2)] assms(5) by simp
  then have "char_at buf (pos + length ws) = hd xs"
    using char_at_drop [of "pos + length ws" buf 0] assms(4) char_at_hd [of xs "[]"] by simp
  moreover have "isspace (CHR '' '')" "\<not> isspace (CHR ''%'')" "skip_spaces (CHR ''%'' # f) = CHR ''%'' # f"
    by (simp_all add: isspace_def ord_c_def skip_spaces_def)
  ultimately show ?thesis
    using nul assms(6) by (simp add: vsscanf_loop.simps [of buf "CHR '' '' # CHR ''%'' # f"]
        vsscanf_loop.simps [of buf "CHR ''%'' # f"] Let_def sp)
qed

lemma drop_rest:
  assumes "drop pos buf = xs @ rest"
  shows "drop (length buf - length rest) buf = rest"
proof -
  have "buf = (take pos buf @ xs) @ rest" using assms append_take_drop_id [of pos buf] by simp
  then obtain ys where "buf = ys @ rest" by blast
  then show ?thesis by simp
qed

text \<open>A line of numbers, printed with a white space character between them, and the format that reads it.\<close>

fun ints_text :: "char \<Rightarrow> int list \<Rightarrow> string" where
  "ints_text sep [] = []"
| "ints_text sep [n] = fmt_d n"
| "ints_text sep (n # ns) = fmt_d n @ sep # ints_text sep ns"

fun ints_fmt :: "nat \<Rightarrow> string" where
  "ints_fmt 0 = []"
| "ints_fmt (Suc 0) = ''%d''"
| "ints_fmt (Suc k) = ''%d '' @ ints_fmt k"

lemma ints_text_first:
  assumes "ns \<noteq> []" "\<forall>n\<in>set ns. - (2 ^ 31) \<le> n \<and> n < 2 ^ 31"
  shows "ints_text sep ns \<noteq> []" "\<not> isspace (hd (ints_text sep ns))" "hd (ints_text sep ns) \<noteq> CHR 0x00"
  using assms fmt_d_first(1-3) [of "hd ns"] by (cases "(sep, ns)" rule: ints_text.cases; simp)+

lemma ints_fmt_first: "0 < k \<Longrightarrow> \<exists>f. ints_fmt k = CHR ''%'' # f"
  by (cases k rule: ints_fmt.cases) auto

lemma scan_ints:
  assumes "drop pos buf = ints_text sep ns @ rest" "ns \<noteq> []" "\<forall>n\<in>set ns. - (2 ^ 31) \<le> n \<and> n < 2 ^ 31"
    "isspace sep" "number_ends rest"
  shows "vsscanf_loop buf (ints_fmt (length ns) @ f) pos num out =
    vsscanf_loop buf f (length buf - length rest) (num + int (length ns)) (out @ map ScanInt ns)"
  using assms
proof (induction sep ns arbitrary: pos num out rule: ints_text.induct)
  case (2 sep n)
  then show ?case using scan_d [of pos buf "[]" n rest f num out] by simp
next
  case (3 sep n m ns)
  let ?r = "sep # ints_text sep (m # ns) @ rest" and ?f = "ints_fmt (length (m # ns)) @ f"
  let ?p = "length buf - length ?r"
  have "vsscanf_loop buf (CHR ''%'' # CHR ''d'' # CHR '' '' # ?f) pos num out =
      vsscanf_loop buf (CHR '' '' # ?f) ?p (num + 1) (out @ [ScanInt n])"
    using 3 isspace_not_special [of sep] by (intro scan_d [of _ _ "[]"]) (simp_all add: number_ends_def)
  moreover have p: "drop ?p buf = [sep] @ ints_text sep (m # ns) @ rest"
    using drop_rest [of pos buf "fmt_d n" ?r] 3(2) by simp
  obtain f' where f': "?f = CHR ''%'' # f'" using ints_fmt_first [of "length (m # ns)"] by auto
  have "vsscanf_loop buf (CHR '' '' # ?f) ?p (num + 1) (out @ [ScanInt n]) = vsscanf_loop buf ?f (Suc ?p) (num + 1) (out @ [ScanInt n])"
    unfolding f' using ints_text_first [of "m # ns" sep] 3(4,5)
    by (subst scan_blank [OF p]) simp_all
  moreover have "drop (Suc ?p) buf = ints_text sep (m # ns) @ rest"
    using p by (simp add: drop_Suc drop_tl) 
  then have "vsscanf_loop buf ?f (Suc ?p) (num + 1) (out @ [ScanInt n]) =
      vsscanf_loop buf f (length buf - length rest) (num + 1 + int (length (m # ns))) ((out @ [ScanInt n]) @ map ScanInt (m # ns))"
    using 3(4-6) by (intro 3(1)) simp_all
  ultimately show ?case by (simp add: add.assoc)
qed simp

lemma sscanf_ints:
  assumes "\<forall>n\<in>set ns. - (2 ^ 31) \<le> n \<and> n < 2 ^ 31" "isspace sep" "number_ends rest"
  shows "sscanf (ints_text sep ns @ rest) (ints_fmt (length ns)) = (int (length ns), map ScanInt ns)"
proof (cases "ns = []")
  case True
  then show ?thesis by (simp add: sscanf_def vsscanf_loop.simps [of _ "[]"] scan_tail_def char_at_def)
next
  case False
  from scan_ints [of 0 "ints_text sep ns @ rest" sep ns rest "[]" 0 "[]"] assms False show ?thesis
    by (simp add: sscanf_def vsscanf_loop.simps [of _ "[]"] scan_tail_def char_at_def)
qed

lemma sscanf_d_reads:
  assumes "- (2 ^ 31) \<le> n" "n < 2 ^ 31" "number_ends rest"
  shows "sscanf_d (fmt_d n @ rest) x = n"
  using sscanf_ints [of "[n]" "CHR '' ''" rest] assms by (simp add: sscanf_d_def isspace_def ord_c_def)

lemma sscanf_d_empty: "sscanf_d [] x = x"
  by (simp add: sscanf_d_def sscanf_def vsscanf_loop.simps scan_tail_def char_at_def)

end
