(* ===== verification/Taskmon.thy ===== *)
theory Taskmon
  imports Lifecycle Scanf
begin

text \<open>
  The \<^verbatim>\<open>taskmon\<close> module (\<^verbatim>\<open>rtes/modules/taskmon/taskmon.c\<close>): the files below \<^verbatim>\<open>/sys/rtes\<close>, the timer that
  measures the time of the monitor, and loading and unloading.
  \<^item> A \<open>_show\<close> function gives its result and the text it leaves in the page; a \<open>_store\<close> function gives its
    result and the new state. sysfs hands \<open>_store\<close> the written text and its length.
  \<^item> Loading stops at the first object or file the kernel refuses, and leaves the ones made before it.
\<close>

section \<open>The code\<close>

subsection \<open>The clock of the monitor\<close>

definition taskmon_timer_callback :: "kenv \<Rightarrow> kst \<Rightarrow> (hrtimer_restart \<times> kst) res" where
  "taskmon_timer_callback e s =
     (let c = s32 (taskmon_count s + 1);
          s1 = (if c = 10 then s\<lparr>taskmon_count := 0, taskmon_acc_time := u64 (taskmon_acc_time s + 1)\<rparr>
                else s\<lparr>taskmon_count := c\<rparr>)
      in bindR (hrtimer_forward (e_resolution e) (taskmon_timer s1) (e_now e) (ktime_set 0 RESERVE_INTERVAL_NS)) (\<lambda>(_, timer).
           Inr (HRTIMER_RESTART, s1\<lparr>taskmon_timer := timer\<rparr>)))"

subsection \<open>The files\<close>

definition enabled_show :: "kst \<Rightarrow> int \<times> string" where
  "enabled_show s = scnprintf PAGE_SIZE (fmt_d (taskmon_enabled s) @ newline)"

definition enabled_store :: "kenv \<Rightarrow> string \<Rightarrow> kst \<Rightarrow> (int \<times> kst) res" where
  "enabled_store e buf s =
     (let s1 = s\<lparr>taskmon_enabled := sscanf_d buf (taskmon_enabled s)\<rparr> in
      if taskmon_enabled s1 \<noteq> 0 then
        Inr (1, s1\<lparr>taskmon_timer := snd (hrtimer_start (e_now e) (taskmon_timer s1) (ktime_set 0 RESERVE_INTERVAL_NS)),
                   taskmon_acc_time := 0\<rparr>)
      else bindR (hrtimer_cancel (taskmon_timer s1)) (\<lambda>(_, timer). Inr (1, s1\<lparr>taskmon_timer := timer\<rparr>)))"

text \<open>\<^verbatim>\<open>buf + retval\<close> may leave the page: every call is allowed a whole page from there.\<close>

definition reserves_line :: "kst \<Rightarrow> tptr \<Rightarrow> string" where
  "reserves_line s p =
     (let x = task s p; tab = [CHR 0x09] in
      fmt_d (t_pid x) @ tab @ fmt_d (t_pid x) @ tab @ fmt_u (t_rt_priority x) @ tab @
      fmt_u (u32 (r_cpu (t_reserve x))) @ tab @ t_comm x @ newline)"

definition reserves_header :: string where
  "reserves_header = ''TID'' @ [CHR 0x09] @ ''PID'' @ [CHR 0x09] @ ''PRIO'' @ [CHR 0x09] @ ''CPU'' @ [CHR 0x09] @ ''NAME'' @ newline"

fun reserves_loop :: "kst \<Rightarrow> tptr list \<Rightarrow> string \<Rightarrow> string res" where
  "reserves_loop s [] buf = Inr buf"
| "reserves_loop s (p # ps) buf =
     (if r_flag (reserve s p) \<noteq> 0 then bindR (emit buf (reserves_line s p)) (reserves_loop s ps)
      else reserves_loop s ps buf)"

definition reserves_show :: "kst \<Rightarrow> (int \<times> string) res" where
  "reserves_show s =
     bindR (emit [] reserves_header) (\<lambda>buf.
     bindR (reserves_loop s (for_each_process s) buf) (\<lambda>buf. Inr (int (length buf), buf)))"

definition partition_policy_show :: "kst \<Rightarrow> int \<times> string" where
  "partition_policy_show s = scnprintf PAGE_SIZE (partition_policy s @ newline)"

definition partition_policy_store :: "string \<Rightarrow> int \<Rightarrow> kst \<Rightarrow> int \<times> kst" where
  "partition_policy_store buf len s =
     (if \<exists>i\<in>set [0, 1, 2, 3]. cpu_tasks_length s i \<noteq> 0 then (EBUSY, s)
      else if strcmp buf (''FFD'' @ newline) = 0 \<or> strcmp buf (''NFD'' @ newline) = 0 \<or> strcmp buf (''BFD'' @ newline) = 0 \<or>
              strcmp buf (''WFD'' @ newline) = 0 \<or> strcmp buf (''LST'' @ newline) = 0
      then (len, s\<lparr>partition_policy := strncpy (partition_policy s) buf 3\<rparr>)
      else (EINVAL, s))"

definition freq_show :: "kenv \<Rightarrow> kst \<Rightarrow> int \<times> string" where
  "freq_show e s =
     (case first_online s of
        None \<Rightarrow> (0, [])
      | Some c \<Rightarrow> scnprintf PAGE_SIZE (fmt_u (e_cpufreq_get e c div KHZ_PER_MHZ) @ newline))"

definition power_show :: "kenv \<Rightarrow> kst \<Rightarrow> (int \<times> string) res" where
  "power_show e s =
     (let freq = (case first_online s of None \<Rightarrow> 0 | Some c \<Rightarrow> e_cpufreq_get e c div KHZ_PER_MHZ) in
      if freq \<ge> MIN_FREQ \<and> freq \<le> MAX_FREQ
      then bindR (power_at freq) (\<lambda>p.
             Inr (scnprintf PAGE_SIZE (fmt_u (u32 (p * num_online_cpus s) div MICRO_J_PER_MILLI_J) @ newline)))
      else Inr (scnprintf PAGE_SIZE (''0'' @ newline)))"

definition energy_tracking_show :: "kst \<Rightarrow> int \<times> string" where
  "energy_tracking_show s = scnprintf PAGE_SIZE (fmt_d (energy_tracking s) @ newline)"

definition energy_tracking_store :: "string \<Rightarrow> kst \<Rightarrow> int \<times> kst" where
  "energy_tracking_store buf s =
     (let s1 = (if lock_initialized s = 0 then s\<lparr>lock_initialized := 1\<rparr> else s)
      in (1, s1\<lparr>energy_tracking := sscanf_d buf (energy_tracking s1)\<rparr>))"

definition total_energy_show :: "kst \<Rightarrow> int \<times> string" where
  "total_energy_show s = scnprintf PAGE_SIZE (fmt_u (total_energy s div MICRO_J_PER_MILLI_J) @ newline)"

definition total_energy_store :: "kst \<Rightarrow> int \<times> kst" where
  "total_energy_store s =
     (let s1 = (if lock_initialized s = 0 then s\<lparr>lock_initialized := 1\<rparr> else s)
      in (1, s1\<lparr>total_energy := 0\<rparr>))"

subsection \<open>Loading and unloading\<close>

fun create_files :: "kenv \<Rightarrow> (nat \<times> string) list \<Rightarrow> kst \<Rightarrow> int \<times> kst" where
  "create_files e [] s = (0, s)"
| "create_files e ((dir, name) # fs) s =
     (let (retval, s1) = sysfs_create_file e dir name s
      in if retval \<noteq> 0 then (retval, s1) else create_files e fs s1)"

definition taskmon_files :: "kst \<Rightarrow> (nat \<times> string) list" where
  "taskmon_files s =
     [(taskmon_kobj s, ''enabled''), (rtes_kobj s, ''reserves''), (rtes_kobj s, ''parition_policy''), (rtes_kobj s, ''freq''),
      (rtes_kobj s, ''power''), (config_kobj s, ''energy''), (rtes_kobj s, ''energy'')]"

definition taskmon_init :: "kenv \<Rightarrow> kst \<Rightarrow> int \<times> kst" where
  "taskmon_init e s =
     (let (k1, s1) = kobject_create e ''rtes'' s; s1 = s1\<lparr>rtes_kobj := k1\<rparr> in
      if k1 = 0 then (ENOMEM, s1) else
      let (k2, s2) = kobject_create e ''taskmon'' s1; s2 = s2\<lparr>taskmon_kobj := k2\<rparr> in
      if k2 = 0 then (ENOMEM, s2) else
      let (k3, s3) = kobject_create e ''util'' s2; s3 = s3\<lparr>util_kobj := k3\<rparr> in
      if k3 = 0 then (ENOMEM, s3) else
      let (k4, s4) = kobject_create e ''config'' s3; s4 = s4\<lparr>config_kobj := k4\<rparr> in
      if k4 = 0 then (ENOMEM, s4) else
      let (k5, s5) = kobject_create e ''tasks'' s4; s5 = s5\<lparr>tasks_kobj := k5\<rparr> in
      if k5 = 0 then (ENOMEM, s5) else
      let (retval, s6) = create_files e (taskmon_files s5) s5 in
      if retval \<noteq> 0 then (retval, s6)
      else (retval, s6\<lparr>taskmon_attr_set := True, taskmon_timer := (hrtimer_init (taskmon_timer s6))\<lparr>hr_function := TaskmonTimerCallback\<rparr>\<rparr>))"

text \<open>Releasing an object removes the files in it.\<close>

definition put_dir :: "nat \<Rightarrow> kst \<Rightarrow> kst res" where
  "put_dir k s = bindR (kobject_put k s) (\<lambda>s1. Inr (s1\<lparr>sysfs := filter (\<lambda>f. fst f \<noteq> k) (sysfs s1)\<rparr>))"

definition taskmon_exit :: "kst \<Rightarrow> kst res" where
  "taskmon_exit s =
     bindR (put_dir (util_kobj s) s) (\<lambda>s1. let s1 = s1\<lparr>util_kobj := 0\<rparr> in
     bindR (put_dir (taskmon_kobj s1) s1) (\<lambda>s2. let s2 = s2\<lparr>taskmon_kobj := 0\<rparr> in
     bindR (put_dir (config_kobj s2) s2) (\<lambda>s3. let s3 = s3\<lparr>config_kobj := 0\<rparr> in
     bindR (put_dir (tasks_kobj s3) s3) (\<lambda>s4. let s4 = s4\<lparr>tasks_kobj := 0\<rparr> in
     bindR (put_dir (rtes_kobj s4) s4) (\<lambda>s5. let s5 = s5\<lparr>rtes_kobj := 0\<rparr> in
     if \<not> taskmon_attr_set s5 then Inl NullDeref
     else let s6 = s5\<lparr>taskmon_enabled := 0, taskmon_attr_set := False\<rparr> in
       bindR (hrtimer_cancel (taskmon_timer s6)) (\<lambda>(_, timer). Inr (s6\<lparr>taskmon_timer := timer\<rparr>)))))))"

section \<open>The clock\<close>

text \<open>Ten ticks of half a millisecond make one unit of the clock: a unit is five milliseconds.\<close>

fun taskmon_ticks :: "kenv list \<Rightarrow> kst \<Rightarrow> kst res" where
  "taskmon_ticks [] s = Inr s"
| "taskmon_ticks (e # es) s = bindR (taskmon_timer_callback e s) (\<lambda>(_, s1). taskmon_ticks es s1)"

lemma taskmon_ticks_count:
  assumes "taskmon_ticks es s = Inr s'" "0 \<le> taskmon_count s" "taskmon_count s < 10" "0 \<le> taskmon_acc_time s"
    "10 * taskmon_acc_time s + taskmon_count s + int (length es) < 2 ^ 64"
  shows "10 * taskmon_acc_time s' + taskmon_count s' = 10 * taskmon_acc_time s + taskmon_count s + int (length es) \<and>
    0 \<le> taskmon_count s' \<and> taskmon_count s' < 10"
  using assms
proof (induction es arbitrary: s)
  case (Cons e es)
  obtain r s1 where s1: "taskmon_timer_callback e s = Inr (r, s1)" "taskmon_ticks es s1 = Inr s'"
    using Cons.prems(1) by (auto simp: bindR_eq_Inr)
  have "s32 (taskmon_count s + 1) = taskmon_count s + 1" using Cons.prems by (simp add: s32_id)
  moreover have "u64 (taskmon_acc_time s + 1) = taskmon_acc_time s + 1" using Cons.prems by (intro u64_id) simp_all
  ultimately have st: "taskmon_count s1 = (if taskmon_count s = 9 then 0 else taskmon_count s + 1)"
    "taskmon_acc_time s1 = (if taskmon_count s = 9 then taskmon_acc_time s + 1 else taskmon_acc_time s)"
    using s1(1) by (auto simp: taskmon_timer_callback_def Let_def bindR_eq_Inr)
  then show ?case using Cons.IH [OF s1(2)] Cons.prems by (auto split: if_splits)
qed simp

section \<open>The partitioning policy\<close>

definition policies :: "string list" where
  "policies = [''FFD'', ''NFD'', ''BFD'', ''WFD'', ''LST'']"

lemma partition_policy_store_cases:
  "partition_policy_store buf len s =
     (if \<exists>c\<in>{0..3}. cpu_tasks_length s c \<noteq> 0 then (EBUSY, s)
      else if \<exists>p\<in>set policies. buf = p @ newline then (len, s\<lparr>partition_policy := strncpy (partition_policy s) buf 3\<rparr>)
      else (EINVAL, s))"
  by (simp add: partition_policy_store_def strcmp_0_iff policies_def four_cpus)

lemma partition_policy_stored:
  assumes "p \<in> set policies" "length old = 3"
  shows "strncpy old (p @ newline) 3 = p"
proof -
  have "length p = 3" "CHR 0x00 \<notin> set (p @ newline)" using assms(1) by (auto simp: policies_def newline_def)
  with assms(2) show ?thesis using strncpy_same_length [of 3 "p @ newline" old] by simp
qed

lemma policy_store_show:
  assumes "\<forall>c\<in>{0..3}. cpu_tasks_length s c = 0" "p \<in> set policies" "length (partition_policy s) = 3"
  shows "\<exists>s'. partition_policy_store (p @ newline) 4 s = (4, s') \<and> partition_policy_show s' = (4, p @ newline)"
proof -
  have "length p = 3" "length newline = 1" using assms(2) by (auto simp: policies_def newline_def)
  then show ?thesis
    using assms by (auto simp: partition_policy_store_cases partition_policy_stored partition_policy_show_def scnprintf_def
        snprintf_def PAGE_SIZE_def)
qed

lemma policy_store_keeps:
  assumes "sys_ok s" "length (partition_policy s) = 3"
  shows "sys_ok (snd (partition_policy_store buf len s)) \<and> length (partition_policy (snd (partition_policy_store buf len s))) = 3"
proof (cases "(\<exists>c\<in>{0..3}. cpu_tasks_length s c \<noteq> 0) \<or> \<not> (\<exists>p\<in>set policies. buf = p @ newline)")
  case True
  with assms show ?thesis by (auto simp: partition_policy_store_cases)
next
  case False
  then obtain p where p: "p \<in> set policies" "buf = p @ newline" by blast
  let ?s = "s\<lparr>partition_policy := p\<rparr>"
  have st: "snd (partition_policy_store buf len s) = ?s"
    using False p assms(2) by (auto simp: partition_policy_store_cases partition_policy_stored)
  have r: "reserve ?s u = reserve s u" for u by (simp add: reserve_def)
  have b: "bin ?s = bin s" "all_bins_ok ?s = all_bins_ok s" by (intro bins_numbers; simp add: r)+
  have "known_policy ?s" using p(1) by (auto simp: known_policy_def policy_char_def policies_def)
  moreover have "bin_members ?s = bin_members s" "reserved_ok ?s = reserved_ok s" "open_ok ?s = open_ok s" "last_ok ?s = last_ok s"
    by (simp_all add: bin_members_def reserved_ok_def open_ok_def last_ok_def b r fun_eq_iff)
  ultimately have "sys_ok ?s" using assms(1) by (simp add: sys_ok_def b)
  moreover have "length p = 3" using p(1) by (auto simp: policies_def)
  ultimately show ?thesis using st by simp
qed

section \<open>Loading and unloading\<close>

lemma create_files_ok:
  assumes "\<forall>n. e_sysfs_create e n = 0"
  shows "create_files e fs s = (0, s\<lparr>sysfs := rev fs @ sysfs s\<rparr>)"
proof (induction fs arbitrary: s)
  case (Cons f fs)
  then show ?case using assms by (cases f) (simp add: sysfs_create_file_def)
qed simp

text \<open>The module keeps its hands off the reservations.\<close>

lemma kept_create_files: "create_files e fs s = (r, s') \<Longrightarrow> kept s s'"
proof (induction fs arbitrary: s)
  case (Cons f fs)
  obtain d n where f: "f = (d, n)" by fastforce
  obtain x s1 where s1: "sysfs_create_file e d n s = (x, s1)" by fastforce
  have "kept s s1" using s1 by (rule kept_sysfs_create)
  with Cons s1 f show ?case by (auto split: if_splits intro: kept_trans)
qed simp

lemma reserve_module_fields [simp]:
  "reserve (s\<lparr>rtes_kobj := a\<rparr>) u = reserve s u" "reserve (s\<lparr>taskmon_kobj := a\<rparr>) u = reserve s u"
  "reserve (s\<lparr>util_kobj := a\<rparr>) u = reserve s u" "reserve (s\<lparr>config_kobj := a\<rparr>) u = reserve s u"
  "reserve (s\<lparr>tasks_kobj := a\<rparr>) u = reserve s u" "reserve (s\<lparr>taskmon_attr_set := b\<rparr>) u = reserve s u"
  "reserve (s\<lparr>taskmon_enabled := i\<rparr>) u = reserve s u" "reserve (s\<lparr>taskmon_timer := h\<rparr>) u = reserve s u"
  "reserve (s\<lparr>taskmon_count := i\<rparr>) u = reserve s u" "reserve (s\<lparr>taskmon_acc_time := i\<rparr>) u = reserve s u"
  "reserve (s\<lparr>energy_tracking := i\<rparr>) u = reserve s u" "reserve (s\<lparr>lock_initialized := i\<rparr>) u = reserve s u"
  by (simp_all add: reserve_def)

lemma kept_module_fields [kept_intros]:
  "kept s (s\<lparr>rtes_kobj := a\<rparr>)" "kept s (s\<lparr>taskmon_kobj := a\<rparr>)" "kept s (s\<lparr>util_kobj := a\<rparr>)" "kept s (s\<lparr>config_kobj := a\<rparr>)"
  "kept s (s\<lparr>tasks_kobj := a\<rparr>)" "kept s (s\<lparr>taskmon_timer := h\<rparr>)" "kept s (s\<lparr>taskmon_enabled := i, taskmon_attr_set := b\<rparr>)"
  "kept s (s\<lparr>taskmon_attr_set := b, taskmon_timer := h\<rparr>)" "kept s (s\<lparr>taskmon_enabled := i\<rparr>)"
  by (simp_all add: kept_def)

lemma kept_new_dir:
  assumes "kobject_create e n s = (k, s1)" "\<And>x. kept x (f x)"
  shows "kept s (f s1)"
  using kept_kobject_create [OF assms(1)] assms(2) by (rule kept_trans)

lemma kept_taskmon_init:
  assumes "taskmon_init e s = (r, s')"
  shows "kept s s'"
proof -
  obtain k1 s1 where 1: "kobject_create e ''rtes'' s = (k1, s1)" by fastforce
  let ?s1 = "s1\<lparr>rtes_kobj := k1\<rparr>"
  obtain k2 s2 where 2: "kobject_create e ''taskmon'' ?s1 = (k2, s2)" by fastforce
  let ?s2 = "s2\<lparr>taskmon_kobj := k2\<rparr>"
  obtain k3 s3 where 3: "kobject_create e ''util'' ?s2 = (k3, s3)" by fastforce
  let ?s3 = "s3\<lparr>util_kobj := k3\<rparr>"
  obtain k4 s4 where 4: "kobject_create e ''config'' ?s3 = (k4, s4)" by fastforce
  let ?s4 = "s4\<lparr>config_kobj := k4\<rparr>"
  obtain k5 s5 where 5: "kobject_create e ''tasks'' ?s4 = (k5, s5)" by fastforce
  let ?s5 = "s5\<lparr>tasks_kobj := k5\<rparr>"
  obtain x s6 where 6: "create_files e (taskmon_files ?s5) ?s5 = (x, s6)" by fastforce
  have k1: "kept s ?s1" using 1 by (rule kept_new_dir) (rule kept_intros)
  have k2: "kept s ?s2" using k1 kept_new_dir [OF 2 kept_module_fields(2)] by (rule kept_trans)
  have k3: "kept s ?s3" using k2 kept_new_dir [OF 3 kept_module_fields(3)] by (rule kept_trans)
  have k4: "kept s ?s4" using k3 kept_new_dir [OF 4 kept_module_fields(4)] by (rule kept_trans)
  have k5: "kept s ?s5" using k4 kept_new_dir [OF 5 kept_module_fields(5)] by (rule kept_trans)
  have k6: "kept s s6" using k5 kept_create_files [OF 6] by (rule kept_trans)
  have k7: "kept s (s6\<lparr>taskmon_attr_set := True, taskmon_timer := t\<rparr>)" for t
    using k6 kept_module_fields(8) by (rule kept_trans)
  show ?thesis
    using assms k1 k2 k3 k4 k5 k6 k7 by (auto simp: taskmon_init_def 1 2 3 4 5 6 Let_def split: if_splits)
qed

lemma kept_put_dir: "put_dir k s = Inr s' \<Longrightarrow> kept s s'"
  by (auto simp: put_dir_def bindR_eq_Inr intro: kept_trans [OF kept_kobject_put kept_fields(5)])

lemma kept_taskmon_exit:
  assumes "taskmon_exit s = Inr s'"
  shows "kept s s'"
proof -
  obtain s1 s2 s3 s4 s5 timer where s: "put_dir (util_kobj s) s = Inr s1"
    "put_dir (taskmon_kobj s1) (s1\<lparr>util_kobj := 0\<rparr>) = Inr s2" "put_dir (config_kobj s2) (s2\<lparr>taskmon_kobj := 0\<rparr>) = Inr s3"
    "put_dir (tasks_kobj s3) (s3\<lparr>config_kobj := 0\<rparr>) = Inr s4" "put_dir (rtes_kobj s4) (s4\<lparr>tasks_kobj := 0\<rparr>) = Inr s5"
    "s' = ((s5\<lparr>rtes_kobj := 0\<rparr>)\<lparr>taskmon_enabled := 0, taskmon_attr_set := False\<rparr>)\<lparr>taskmon_timer := timer\<rparr>"
    using assms by (auto simp: taskmon_exit_def Let_def bindR_eq_Inr split: if_splits)
  note k = kept_put_dir [OF s(1)] kept_module_fields(3) [of s1 0] kept_put_dir [OF s(2)] kept_module_fields(2) [of s2 0]
    kept_put_dir [OF s(3)] kept_module_fields(4) [of s3 0] kept_put_dir [OF s(4)] kept_module_fields(5) [of s4 0]
    kept_put_dir [OF s(5)] kept_module_fields(1) [of s5 0]
  have "kept s (s5\<lparr>rtes_kobj := 0\<rparr>)" by (rule kept_trans [OF k(1) kept_trans [OF k(2) kept_trans [OF k(3) kept_trans [OF k(4) kept_trans [OF k(5) kept_trans [OF k(6) kept_trans [OF k(7) kept_trans [OF k(8) kept_trans [OF k(9) k(10)]]]]]]]]])
  then show ?thesis unfolding s(6) by (rule kept_trans [OF _ kept_trans [OF kept_module_fields(7) kept_module_fields(6)]])
qed

text \<open>Loading the module makes its five directories and seven files; unloading it takes exactly these away
  again.\<close>

lemma taskmon_load_unload:
  assumes e: "\<forall>n. e_kobject_create e n" "\<forall>n. e_sysfs_create e n = 0"
    and s: "\<forall>f\<in>set (sysfs s). fst f \<le> knext s" "\<forall>p\<in>kallocd s. p \<le> knext s"
  shows "\<exists>s1 s2. taskmon_init e s = (0, s1) \<and> taskmon_attr_set s1 \<and> sysfs s1 = rev (taskmon_files s1) @ sysfs s \<and>
    taskmon_exit s1 = Inr s2 \<and> sysfs s2 = sysfs s \<and> kallocd s2 = kallocd s \<and> \<not> taskmon_attr_set s2 \<and>
    [rtes_kobj s2, taskmon_kobj s2, util_kobj s2, config_kobj s2, tasks_kobj s2] = [0, 0, 0, 0, 0]"
proof -
  let ?k = "knext s"
  have f: "filter (\<lambda>f. fst f \<noteq> ?k + i) (sysfs s) = sysfs s" if "0 < i" for i
    using s(1) that by (intro filter_True) fastforce
  have a: "?k + i \<notin> kallocd s" if "0 < i" for i using s(2) that by fastforce
  have mk: "kobject_create e n x = (Suc (knext x), x\<lparr>knext := Suc (knext x), kallocd := insert (Suc (knext x)) (kallocd x)\<rparr>)" for n x
    using e(1) by (simp add: kobject_create_def)
  obtain s1 where i: "taskmon_init e s = (0, s1)" "taskmon_attr_set s1" "\<not> hr_callback (taskmon_timer s1)"
    "rtes_kobj s1 = ?k + 1" "taskmon_kobj s1 = ?k + 2" "util_kobj s1 = ?k + 3" "config_kobj s1 = ?k + 4" "tasks_kobj s1 = ?k + 5"
    "kallocd s1 = {?k + 5, ?k + 4, ?k + 3, ?k + 2, ?k + 1} \<union> kallocd s" "sysfs s1 = rev (taskmon_files s1) @ sysfs s"
    by (simp add: taskmon_init_def mk create_files_ok [OF e(2)] taskmon_files_def hrtimer_init_def Let_def eval_nat_numeral
        del: create_files.simps)
  have "\<exists>s2. taskmon_exit s1 = Inr s2 \<and> sysfs s2 = sysfs s \<and> kallocd s2 = kallocd s \<and> \<not> taskmon_attr_set s2 \<and>
    [rtes_kobj s2, taskmon_kobj s2, util_kobj s2, config_kobj s2, tasks_kobj s2] = [0, 0, 0, 0, 0]"
    using a [of 1] a [of 2] a [of 3] a [of 4] a [of 5] f [of 1] f [of 2] f [of 3] f [of 4] f [of 5]
    by (simp add: taskmon_exit_def put_dir_def kobject_put_def kfree_def Let_def taskmon_files_def hrtimer_cancel_idle
        remove_hrtimer_def i insert_Diff_if eval_nat_numeral)
  with i(1,2,10) show ?thesis by blast
qed

lemma same_res_module_fields:
  "same_res s (s\<lparr>taskmon_enabled := i\<rparr>)" "same_res s (s\<lparr>taskmon_timer := h\<rparr>)"
  "same_res s (s\<lparr>taskmon_timer := h, taskmon_acc_time := i\<rparr>)" "same_res s (s\<lparr>taskmon_count := i\<rparr>)"
  "same_res s (s\<lparr>taskmon_count := i, taskmon_acc_time := j\<rparr>)" "same_res s (s\<lparr>lock_initialized := i\<rparr>)"
  "same_res s (s\<lparr>energy_tracking := i\<rparr>)" "same_res s (s\<lparr>total_energy := i\<rparr>)"
  by (simp_all add: same_res_def)

lemma same_res_stores:
  "enabled_store e buf s = Inr (r, s') \<Longrightarrow> same_res s s'"
  "same_res s (snd (energy_tracking_store buf s))" "same_res s (snd (total_energy_store s))"
proof -
  show "same_res s s'" if "enabled_store e buf s = Inr (r, s')"
    using that unfolding enabled_store_def
    by (auto simp: Let_def bindR_eq_Inr split: if_splits
        intro: same_res_trans [OF same_res_module_fields(1) same_res_module_fields(2)]
          same_res_trans [OF same_res_module_fields(1) same_res_module_fields(3)])
  show "same_res s (snd (energy_tracking_store buf s))" "same_res s (snd (total_energy_store s))"
    by (auto simp: energy_tracking_store_def total_energy_store_def Let_def intro: same_res_module_fields
        same_res_trans [OF same_res_module_fields(6) same_res_module_fields(7)]
        same_res_trans [OF same_res_module_fields(6) same_res_module_fields(8)])
qed

lemma same_res_taskmon_timer:
  assumes "taskmon_timer_callback e s = Inr (r, s')"
  shows "same_res s s'"
  using assms unfolding taskmon_timer_callback_def
  by (auto simp: Let_def bindR_eq_Inr split: if_splits
      intro: same_res_trans [OF same_res_module_fields(4) same_res_module_fields(2)]
        same_res_trans [OF same_res_module_fields(5) same_res_module_fields(2)])

text \<open>The list of reservations: a line for every process that has one, as long as all fit the page.\<close>

lemma emit_ok: "length buf + length str < 4096 \<Longrightarrow> emit buf str = Inr (buf @ str)"
  by (simp add: emit_def scnprintf_def snprintf_def PAGE_SIZE_def)

lemma reserves_loop_ok:
  assumes "length buf + length (concat (map (reserves_line s) (filter (\<lambda>p. r_flag (reserve s p) \<noteq> 0) ps))) < 4096"
  shows "reserves_loop s ps buf = Inr (buf @ concat (map (reserves_line s) (filter (\<lambda>p. r_flag (reserve s p) \<noteq> 0) ps)))"
  using assms
proof (induction ps arbitrary: buf)
  case (Cons p ps)
  then show ?case by (cases "r_flag (reserve s p) = 0") (simp_all add: emit_ok)
qed simp

lemma reserves_show_lists:
  assumes "length reserves_header + length (concat (map (reserves_line s) (filter (\<lambda>p. r_flag (reserve s p) \<noteq> 0) (for_each_process s)))) < 4096"
  shows "\<exists>n. reserves_show s = Inr (n, reserves_header @ concat (map (reserves_line s) (filter (\<lambda>p. r_flag (reserve s p) \<noteq> 0) (for_each_process s))))"
  using assms by (simp add: reserves_show_def emit_ok reserves_loop_ok)

text \<open>The switch of the monitor: writing a number other than 0 starts its clock from 0, writing 0 stops it.\<close>

lemma enabled_store_switches:
  assumes "- (2 ^ 31) \<le> n" "n < 2 ^ 31" "n = 0 \<Longrightarrow> \<not> hr_callback (taskmon_timer s)"
  shows "\<exists>s'. enabled_store e (fmt_d n) s = Inr (1, s') \<and> taskmon_enabled s' = n \<and>
    hr_enqueued (taskmon_timer s') = (n \<noteq> 0) \<and> (n \<noteq> 0 \<longrightarrow> taskmon_acc_time s' = 0)"
proof -
  have v: "sscanf_d (fmt_d n) (taskmon_enabled s) = n" using sscanf_d_reads [of n "[]"] assms by (simp add: number_ends_def)
  show ?thesis
  proof (cases "n = 0")
    case True
    obtain a t where t: "remove_hrtimer (taskmon_timer s) = (a, t)" by fastforce
    then have "\<not> hr_enqueued t" by (auto simp: remove_hrtimer_def split: if_splits)
    with True v t assms(3) show ?thesis by (simp add: enabled_store_def hrtimer_cancel_idle)
  next
    case False
    with v show ?thesis by (simp add: enabled_store_def hrtimer_start_enqueues)
  qed
qed

end
