(* ===== verification/System.thy ===== *)
theory System
  imports Taskmon
begin

text \<open>
  The running system: a step relation over the kernel state with one rule for every way in which the
  components change it (the three system calls, both timers of a reservation, a context switch, the birth and
  the death of a thread, the files of the monitor and its module), what holds in every state the system can
  reach, and the abstract table of reservations that the four processor arrays refine.
  \<^item> The rules take any environment, but making or revising a reservation is restricted to calls in which
    the kernel refuses no memory, file or affinity, because those error returns leave a thread in an array
    without its flag. A revision stays on its processor, because moving drops tasks from the arrays
    (\<open>revise_move_drops_other\<close>). When it is refused the thread is put back; the code ignores the result of
    that \<^verbatim>\<open>try_bind\<close>, and the step asks for it. The limit of 100 tasks per processor is that of the clock computation.
  \<^item> A step that faults is no step.
\<close>

section \<open>Steps\<close>

definition can_reserve :: "kenv \<Rightarrow> int \<Rightarrow> tptr \<Rightarrow> timespec \<Rightarrow> timespec \<Rightarrow> int \<Rightarrow> kst \<Rightarrow> bool" where
  "can_reserve e tid t C T cpuid s \<longleftrightarrow>
     find_task_by_vpid s tid = Some t \<and> args_ok C T \<and> -1 \<le> cpuid \<and> cpuid \<le> 3 \<and> files_ok e \<and>
     (\<forall>c\<in>{0..3}. e_setaffinity e tid [c] = 0) \<and> dir_ok s t \<and> (\<forall>c\<in>{0..3}. length (bin s c) < 100)"

inductive kstep :: "kst \<Rightarrow> kst \<Rightarrow> bool" where
  reserve_step: "can_reserve e tid t C T cpuid s \<Longrightarrow> r_flag (reserve s t) = 0 \<Longrightarrow>
    set_reserve e s tid (Some C) (Some T) cpuid = Inr (r, s') \<Longrightarrow> kstep s s'"
| revise_step: "can_reserve e tid t C T cpuid s \<Longrightarrow> r_flag (reserve s t) \<noteq> 0 \<Longrightarrow> cpuid = r_cpu (reserve s t) \<Longrightarrow>
    timers_idle s t \<Longrightarrow> unbind s t cpuid = Inr s0 \<Longrightarrow> admits (requested s0 t C T) t cpuid \<Longrightarrow>
    set_reserve e s tid (Some C) (Some T) cpuid = Inr (r, s') \<Longrightarrow> kstep s s'"
| refuse_step: "can_reserve e tid t C T cpuid s \<Longrightarrow> r_flag (reserve s t) \<noteq> 0 \<Longrightarrow> cpuid = r_cpu (reserve s t) \<Longrightarrow>
    unbind s t cpuid = Inr s0 \<Longrightarrow> \<not> admits (requested s0 t C T) t cpuid \<Longrightarrow> admits s0 t cpuid \<Longrightarrow>
    set_reserve e s tid (Some C) (Some T) cpuid = Inr (r, s') \<Longrightarrow> kstep s s'"
| invalid_step: "cpuid < -1 \<or> 3 < cpuid \<or> C = None \<or> T = None \<or> find_task_by_vpid s tid = None \<Longrightarrow>
    set_reserve e s tid C T cpuid = Inr (r, s') \<Longrightarrow> kstep s s'"
| cancel_step: "cancel_reserve e s tid = Inr (r, s') \<Longrightarrow> kstep s s'"
| end_job_step: "kstep s (snd (end_job t s))"
| c_timer_step: "run_c_timer e t s = Inr s' \<Longrightarrow> kstep s s'"
| p_timer_step: "run_p_timer e t s = Inr s' \<Longrightarrow> kstep s s'"
| switch_out_step: "sched_out t s = Inr s' \<Longrightarrow> kstep s s'"
| switch_in_step: "kstep s (sched_in e t s)"
| fork_step: "p \<notin> set (threads s) \<Longrightarrow> kstep s (copy_process p current pid th s)"
| exit_step: "t \<in> set (threads s) \<Longrightarrow> do_exit e t s = Inr s' \<Longrightarrow> kstep s s'"
| policy_step: "kstep s (snd (partition_policy_store buf len s))"
| enabled_step: "enabled_store e buf s = Inr (r, s') \<Longrightarrow> kstep s s'"
| tracking_step: "kstep s (snd (energy_tracking_store buf s))"
| total_step: "kstep s (snd (total_energy_store s))"
| clock_step: "taskmon_timer_callback e s = Inr (r, s') \<Longrightarrow> kstep s s'"
| load_step: "taskmon_init e s = (r, s') \<Longrightarrow> kstep s s'"
| unload_step: "taskmon_exit s = Inr s' \<Longrightarrow> kstep s s'"

inductive reachable :: "kst \<Rightarrow> bool" where
  boot: "distinct ps \<Longrightarrow> reachable (boot_state ps)"
| step: "reachable s \<Longrightarrow> kstep s s' \<Longrightarrow> reachable s'"

section \<open>The abstract table\<close>

text \<open>A reservation is a processor, a utilization, a budget and a period.\<close>

type_synonym grant = "int \<times> int \<times> int \<times> int"
type_synonym table = "tptr \<rightharpoonup> grant"

definition on_cpu :: "table \<Rightarrow> int \<Rightarrow> tptr set" where
  "on_cpu a c = {t. \<exists>u b p. a t = Some (c, u, b, p)}"

definition load :: "table \<Rightarrow> int \<Rightarrow> int" where
  "load a c = (\<Sum>t\<in>on_cpu a c. fst (snd (the (a t))))"

text \<open>Granting replaces what the thread had; it never overloads a processor.\<close>

inductive tstep :: "table \<Rightarrow> table \<Rightarrow> bool" where
  grant_table: "c \<in> {0..3} \<Longrightarrow> 0 \<le> u \<Longrightarrow> 0 \<le> b \<Longrightarrow> b \<le> p \<Longrightarrow>
    load (a(t \<mapsto> (c, u, b, p))) c \<le> UTIL_MULTIPLE \<Longrightarrow> tstep a (a(t \<mapsto> (c, u, b, p)))"
| release_table: "tstep a (a(t := None))"

definition table_of :: "kst \<Rightarrow> table" where
  "table_of s t =
     (let r = reserve s t in
      if t \<in> set (threads s) \<and> r_flag r \<noteq> 0 then Some (r_cpu r, r_util r, r_budget r, r_period r) else None)"

lemma on_cpu_bin:
  assumes "sys_ok s" "c \<in> {0..3}"
  shows "on_cpu (table_of s) c = set (bin s c)"
proof
  show "on_cpu (table_of s) c \<subseteq> set (bin s c)"
    using assms by (auto simp: on_cpu_def table_of_def Let_def sys_ok_def reserved_ok_def split: if_splits)
  show "set (bin s c) \<subseteq> on_cpu (table_of s) c"
    using assms by (auto simp: on_cpu_def table_of_def Let_def sys_ok_def bin_members_def)
qed

lemma load_util:
  assumes ok: "sys_ok s" and c: "c \<in> {0..3}"
  shows "load (table_of s) c = cpu_util s c"
proof -
  have b: "bin_ok s c" using ok c by (simp add: sys_ok_def all_bins_ok_def)
  have "fst (snd (the (table_of s t))) = r_util (reserve s t)" if "t \<in> set (bin s c)" for t
    using ok c that by (auto simp: table_of_def Let_def sys_ok_def bin_members_def)
  then have "load (table_of s) c = (\<Sum>t\<in>set (bin s c). r_util (reserve s t))"
    unfolding load_def on_cpu_bin [OF ok c] by (rule sum.cong [OF refl])
  also have "\<dots> = util_sum s (bin s c)"
    using b by (simp add: util_sum_def sum_list_distinct_conv_sum_set bin_ok_def)
  finally show ?thesis using b by (simp add: bin_ok_def)
qed

text \<open>A step that keeps the invariant and touches at most one entry is a step of the table.\<close>

lemma table_step:
  assumes ok: "sys_ok s'" and eq: "\<And>u. u \<noteq> t \<Longrightarrow> table_of s' u = table_of s u"
  shows "tstep (table_of s) (table_of s')"
proof (cases "table_of s' t")
  case None
  then have "table_of s' = (table_of s)(t := None)" using eq by (auto simp: fun_eq_iff)
  then show ?thesis using release_table by metis
next
  case (Some g)
  obtain c u b p where g: "g = (c, u, b, p)" by (cases g) auto
  have t: "t \<in> set (threads s')" "r_flag (reserve s' t) \<noteq> 0" "r_cpu (reserve s' t) = c" "r_budget (reserve s' t) = b"
    "r_util (reserve s' t) = u" "r_period (reserve s' t) = p"
    using Some g by (auto simp: table_of_def Let_def split: if_splits)
  then have c: "c \<in> {0..3}" "t \<in> set (bin s' c)" using ok by (auto simp: sys_ok_def reserved_ok_def)
  then have "bin_ok s' c" using ok by (simp add: sys_ok_def all_bins_ok_def)
  with c have "0 \<le> u" "0 \<le> b" "b \<le> p" using t by (auto simp: bin_ok_def task_ok_def)
  moreover have e: "table_of s' = (table_of s)(t \<mapsto> (c, u, b, p))" using eq Some g by (auto simp: fun_eq_iff)
  moreover have "load (table_of s') c \<le> UTIL_MULTIPLE"
    using load_util [OF ok c(1)] \<open>bin_ok s' c\<close> by (simp add: bin_ok_def)
  ultimately show ?thesis using grant_table [of c u b p "table_of s" t] c(1) by simp
qed

lemma table_same: "same_res s s' \<Longrightarrow> table_of s' = table_of s"
  by (auto simp: fun_eq_iff same_res_def table_of_def Let_def)

lemma table_others:
  "others t s s' \<Longrightarrow> u \<in> set (threads s') \<longleftrightarrow> u \<in> set (threads s) \<Longrightarrow> u \<noteq> t \<Longrightarrow> table_of s' u = table_of s u"
  by (simp add: others_def table_of_def Let_def core_def)

section \<open>What every step keeps\<close>

text \<open>The invariant of the reservations, and the policy fits its three characters.\<close>

definition kinv :: "kst \<Rightarrow> bool" where
  "kinv s \<longleftrightarrow> sys_ok s \<and> length (partition_policy s) = 3"

definition good :: "kst \<Rightarrow> kst \<Rightarrow> bool" where
  "good s s' \<longleftrightarrow> kinv s' \<and> (\<exists>t. \<forall>u. u \<noteq> t \<longrightarrow> table_of s' u = table_of s u)"

lemma good_same: "kinv s \<Longrightarrow> same_res s s' \<Longrightarrow> good s s'"
  using same_res_sys_ok [of s s'] by (simp add: good_def kinv_def table_same) (simp add: same_res_def)

lemma good_kept: "kinv s \<Longrightarrow> kept s s' \<Longrightarrow> good s s'"
  by (rule good_same [OF _ kept_same_res])

lemma good_others:
  assumes "kinv s" "sys_ok s'" "others t s s'" "\<And>u. u \<noteq> t \<Longrightarrow> u \<in> set (threads s') \<longleftrightarrow> u \<in> set (threads s)"
  shows "good s s'"
proof -
  have "\<forall>u. u \<noteq> t \<longrightarrow> table_of s' u = table_of s u" using table_others [OF assms(3,4)] by blast
  with assms(1-3) show ?thesis unfolding good_def kinv_def others_def by auto
qed

lemma good_created:
  assumes k: "kinv s" and c: "can_reserve e tid t C T cpuid s" "r_flag (reserve s t) = 0"
    and r: "set_reserve e s tid (Some C) (Some T) cpuid = Inr (r, s')"
  shows "good s s'"
proof -
  from k c have "sys_ok s'" "threads s' = threads s" "partition_policy s' = partition_policy s"
    "\<forall>u. u \<noteq> t \<longrightarrow> core (reserve s' u) = core (reserve s u)"
    using create_ok [of s tid t C T cpuid e] r by (auto simp: can_reserve_def kinv_def split: option.splits)
  then show ?thesis using good_others [OF k, of s' t] by (simp add: others_def)
qed

lemma good_revised:
  assumes k: "kinv s" and c: "can_reserve e tid t C T cpuid s" "r_flag (reserve s t) \<noteq> 0" "cpuid = r_cpu (reserve s t)"
    and a: "timers_idle s t" "unbind s t cpuid = Inr s0" "admits (requested s0 t C T) t cpuid"
    and r: "set_reserve e s tid (Some C) (Some T) cpuid = Inr (r, s')"
  shows "good s s'"
proof -
  have "t \<in> set (threads s)" using c(1) find_task_by_vpid_SomeD by (auto simp: can_reserve_def)
  then have "cpuid \<in> {0..3}" using k c(2,3) by (auto simp: kinv_def sys_ok_def reserved_ok_def)
  with k c a have "sys_ok s'" "threads s' = threads s" "partition_policy s' = partition_policy s"
    "\<forall>u. u \<noteq> t \<longrightarrow> core (reserve s' u) = core (reserve s u)"
    using revise_ok [of s tid t cpuid C T e s0] r by (auto simp: can_reserve_def kinv_def)
  then show ?thesis using good_others [OF k, of s' t] by (simp add: others_def)
qed

lemma good_refused:
  assumes k: "kinv s" and c: "can_reserve e tid t C T cpuid s" "r_flag (reserve s t) \<noteq> 0" "cpuid = r_cpu (reserve s t)"
    and a: "unbind s t cpuid = Inr s0" "\<not> admits (requested s0 t C T) t cpuid" "admits s0 t cpuid"
    and r: "set_reserve e s tid (Some C) (Some T) cpuid = Inr (r, s')"
  shows "good s s'"
proof -
  from k c a have "sys_ok s'" "reserve s' = reserve s" "threads s' = threads s" "partition_policy s' = partition_policy s"
    using revise_refused [of s tid t cpuid C T s0 e] r by (auto simp: can_reserve_def kinv_def)
  then show ?thesis using good_others [OF k, of s' t] by (simp add: others_def)
qed

lemma good_invalid:
  assumes "kinv s" "cpuid < -1 \<or> 3 < cpuid \<or> C = None \<or> T = None \<or> find_task_by_vpid s tid = None"
    "set_reserve e s tid C T cpuid = Inr (r, s')"
  shows "good s s'"
proof -
  have "s' = s" using assms(2,3) by (auto simp: set_reserve_def split: if_splits option.splits)
  then show ?thesis using good_same [OF assms(1) same_res_refl] by simp
qed

lemma good_fork:
  assumes "kinv s" "p \<notin> set (threads s)"
  shows "good s (copy_process p current pid th s)"
  using assms fork_keeps [of s p current pid th] by (intro good_others [of s _ p]) (auto simp: kinv_def)

lemma good_exit:
  assumes "kinv s" "t \<in> set (threads s)" "do_exit e t s = Inr s'"
  shows "good s s'"
  using assms exit_keeps [of s t e s'] by (intro good_others [of s _ t]) (auto simp: kinv_def in_set_remove1)

lemma good_cancel:
  assumes "kinv s" "cancel_reserve e s tid = Inr (r, s')"
  shows "good s s'"
proof -
  obtain t where "sys_ok s'" "threads s' = threads s" "others t s s'"
    using assms cancel_keeps [of s e tid r s'] unfolding kinv_def by blast
  then show ?thesis using assms(1) by (intro good_others [of s _ t]) simp_all
qed

lemma good_policy:
  assumes "kinv s"
  shows "good s (snd (partition_policy_store buf len s))"
proof -
  have "table_of (snd (partition_policy_store buf len s)) = table_of s"
    by (auto simp: partition_policy_store_def Let_def table_of_def reserve_def fun_eq_iff)
  with policy_store_keeps [of s buf len] assms show ?thesis by (simp add: good_def kinv_def)
qed

text \<open>Every step keeps the invariant and changes the entry of one thread at most.\<close>

lemma kstep_good: "kstep s s' \<Longrightarrow> kinv s \<Longrightarrow> good s s'"
  by (induction rule: kstep.induct)
    (blast intro: good_created good_revised good_refused good_invalid good_cancel good_fork good_exit good_policy good_same good_kept same_res_end_job
      same_res_run_c_timer same_res_run_p_timer same_res_sched_out same_res_sched_in same_res_stores
      same_res_taskmon_timer kept_taskmon_init kept_taskmon_exit)+

lemma boot_kinv: "distinct ps \<Longrightarrow> kinv (boot_state ps)"
  using boot_sys_ok by (simp add: kinv_def boot_state_def)

lemma reachable_kinv: "reachable s \<Longrightarrow> kinv s"
  by (induction rule: reachable.induct) (use boot_kinv kstep_good in \<open>auto simp: good_def\<close>)

lemma boot_table: "table_of (boot_state ps) = Map.empty"
  by (simp add: table_of_def fun_eq_iff boot_state_def reserve_def init_task_def init_reserve_def)

text \<open>Over the abstract table alone: no sequence of its steps overloads a processor.\<close>

definition table_ok :: "table \<Rightarrow> bool" where
  "table_ok a \<longleftrightarrow> (\<forall>t c u b p. a t = Some (c, u, b, p) \<longrightarrow> 0 \<le> u) \<and> finite (dom a) \<and> (\<forall>c. load a c \<le> UTIL_MULTIPLE)"

lemma table_ok_util: "table_ok a \<Longrightarrow> a t = Some (c, u, b, p) \<Longrightarrow> 0 \<le> u"
  unfolding table_ok_def by blast

lemma on_cpu_finite: "finite (dom a) \<Longrightarrow> finite (on_cpu a c)"
  by (rule finite_subset [of _ "dom a"]) (auto simp: on_cpu_def)

lemma load_drop:
  assumes ok: "table_ok a"
  shows "load (a(t := None)) c \<le> load a c"
proof -
  have "load (a(t := None)) c = (\<Sum>u\<in>on_cpu (a(t := None)) c. fst (snd (the (a u))))"
    unfolding load_def by (rule sum.cong) (auto simp: on_cpu_def)
  also have "\<dots> \<le> load a c" unfolding load_def
  proof (rule sum_mono2)
    show "finite (on_cpu a c)" using ok by (simp add: table_ok_def on_cpu_finite)
    show "0 \<le> fst (snd (the (a u)))" if "u \<in> on_cpu a c - on_cpu (a(t := None)) c" for u
      using that table_ok_util [OF ok] by (fastforce simp: on_cpu_def)
  qed (auto simp: on_cpu_def)
  finally show ?thesis .
qed

lemma load_other: "d \<noteq> c \<Longrightarrow> load (a(t \<mapsto> (c, u, b, p))) d = load (a(t := None)) d"
  unfolding load_def by (rule sum.cong) (auto simp: on_cpu_def)

lemma tstep_table_ok: "tstep a a' \<Longrightarrow> table_ok a \<Longrightarrow> table_ok a'"
proof (induction rule: tstep.induct)
  case (grant_table c u b p a t)
  have "load (a(t \<mapsto> (c, u, b, p))) d \<le> UTIL_MULTIPLE" for d
  proof (cases "d = c")
    case False
    then show ?thesis
      using load_other [of d c a t u b p] load_drop [OF grant_table.prems, of t d] grant_table.prems
      by (metis table_ok_def order_trans)
  qed (use grant_table in simp)
  moreover have "finite (dom (a(t \<mapsto> (c, u, b, p))))" using grant_table.prems by (simp add: table_ok_def)
  moreover have "0 \<le> v" if "(a(t \<mapsto> (c, u, b, p))) x = Some (d, v, b', p')" for x d v b' p'
    using grant_table that by (auto dest: table_ok_util split: if_splits)
  ultimately show ?case unfolding table_ok_def by blast
next
  case (release_table a t)
  then have "load (a(t := None)) d \<le> UTIL_MULTIPLE" for d using load_drop table_ok_def order_trans by metis
  moreover have "finite (dom (a(t := None)))" using release_table by (simp add: table_ok_def)
  moreover have "0 \<le> v" if "(a(t := None)) x = Some (d, v, b', p')" for x d v b' p'
    using release_table that by (auto dest: table_ok_util split: if_splits)
  ultimately show ?case unfolding table_ok_def by blast
qed

lemma tsteps_table_ok: "tstep\<^sup>*\<^sup>* Map.empty a \<Longrightarrow> table_ok a"
proof (induction rule: rtranclp_induct)
  case base
  show ?case by (simp add: table_ok_def load_def on_cpu_def reserve_consts)
qed (rule tstep_table_ok)

section \<open>Properties\<close>


text \<open>One system in which a thread is reserved right after boot.\<close>

lemma boot_reserve_step:
  "\<exists>s. kstep (boot_state [7]) s \<and> bin s 2 = [7]"
proof -
  let ?b = "boot_state [7]" and ?s = "requested (boot_state [7]) 7 (millis 10) (millis 100)"
  have h: "find_task_by_vpid ?b 7 = Some 7" "r_flag (reserve ?b 7) = 0" "args_ok (millis 10) (millis 100)" "dir_ok ?b 7"
    "bin ?b 2 = []" "\<forall>c\<in>set [0, 1, 2, 3]. length (bin ?b c) < 100"
    "case try_bind ?s 7 2 of Inr (r, _) \<Rightarrow> r = 0 | Inl _ \<Rightarrow> False" "bin_ok ?s 2" "task_ok (reserve ?s 7)"
    by code_simp+
  have "admits ?s 7 2" using try_bind_spec [of 2 ?s 7] h(7-9) by (auto simp: errno_defs split: if_splits)
  then have ch: "create_choice ?s 7 2 = Some 2" by (simp add: create_choice_def)
  have cr: "can_reserve one_cpu_env 7 7 (millis 10) (millis 100) 2 ?b"
    using h(1,3,4,6) by (simp add: can_reserve_def one_cpu_env_def files_ok_def four_cpus)
  from create_ok [of ?b 7 7 "millis 10" "millis 100" 2 one_cpu_env] cr h(2,5) ch boot_sys_ok [of "[7]"]
  obtain s where s: "set_reserve one_cpu_env ?b 7 (Some (millis 10)) (Some (millis 100)) 2 = Inr (0, s)" "bin s 2 = [7]"
    by (auto simp: can_reserve_def insert_by_period_def)
  show ?thesis using reserve_step [OF cr h(2) s(1)] s(2) by blast
qed




end
