(* ===== verification/Schedule.thy ===== *)
theory Schedule
  imports Admission
begin

text \<open>
  What the response-time test of \<^verbatim>\<open>try_bind\<close> promises: a processor that always runs the first thread of the array that
  has work, in steps of a millisecond.
  \<^item> A task is a pair of budget and period, as in \<open>Response\<close>; \<open>w k t\<close> is the work that task \<open>k\<close> releases at time \<open>t\<close>.
  \<^item> \<open>sporadic\<close>: a job needs at most the budget, and the jobs of a task are at least a period apart.  Releases
    may be late and come in any alignment.
  \<^item> \<open>pending\<close> is the work left when a step begins, before the releases of this step; \<open>on_time\<close> says that every job is
    done a period after its release.
\<close>

section \<open>The processor\<close>

definition sporadic :: "(nat \<times> nat) list \<Rightarrow> (nat \<Rightarrow> nat \<Rightarrow> nat) \<Rightarrow> bool" where
  "sporadic ts w \<longleftrightarrow> (\<forall>k<length ts. (\<forall>t. w k t \<le> fst (ts ! k)) \<and>
     (\<forall>t u. 0 < w k t \<longrightarrow> 0 < w k u \<longrightarrow> t < u \<longrightarrow> t + snd (ts ! k) \<le> u))"

definition serve :: "nat \<Rightarrow> (nat \<Rightarrow> nat) \<Rightarrow> nat \<Rightarrow> nat" where
  "serve n q = (case find (\<lambda>k. 0 < q k) [0..<n] of None \<Rightarrow> q | Some k \<Rightarrow> q(k := q k - 1))"

fun pending :: "nat \<Rightarrow> (nat \<Rightarrow> nat \<Rightarrow> nat) \<Rightarrow> nat \<Rightarrow> nat \<Rightarrow> nat" where
  "pending n w 0 = (\<lambda>_. 0)"
| "pending n w (Suc t) = serve n (\<lambda>k. pending n w t k + w k t)"

definition job_on_time :: "(nat \<times> nat) list \<Rightarrow> (nat \<Rightarrow> nat \<Rightarrow> nat) \<Rightarrow> nat \<Rightarrow> bool" where
  "job_on_time ts w k \<longleftrightarrow> (\<forall>t. 0 < w k t \<longrightarrow> pending (length ts) w (t + snd (ts ! k)) k = 0)"

definition on_time :: "(nat \<times> nat) list \<Rightarrow> (nat \<Rightarrow> nat \<Rightarrow> nat) \<Rightarrow> bool" where
  "on_time ts w \<longleftrightarrow> (\<forall>k<length ts. job_on_time ts w k)"

text \<open>The work of the first \<open>i\<close> tasks: what is left, and what is released at a time.\<close>

definition backlog :: "nat \<Rightarrow> (nat \<Rightarrow> nat \<Rightarrow> nat) \<Rightarrow> nat \<Rightarrow> nat \<Rightarrow> nat" where
  "backlog n w i t = (\<Sum>k<i. pending n w t k)"

definition released :: "(nat \<Rightarrow> nat \<Rightarrow> nat) \<Rightarrow> nat \<Rightarrow> nat \<Rightarrow> nat" where
  "released w i t = (\<Sum>k<i. w k t)"

section \<open>One step\<close>

lemma serve_level:
  assumes "i \<le> n"
  shows "(\<Sum>k<i. serve n q k) = (\<Sum>k<i. q k) - 1"
proof (cases "find (\<lambda>k. 0 < q k) [0..<n]")
  case None
  then have "\<forall>k<n. q k = 0" by (auto simp: find_None_iff)
  then show ?thesis using None assms by (simp add: serve_def)
next
  case (Some m)
  then have m: "0 < q m" "m < n" "\<forall>k<m. q k = 0" by (auto simp: find_Some_iff)
  show ?thesis
  proof (cases "m < i")
    case True
    then have "(\<Sum>k<i. q k) = q m + (\<Sum>k\<in>{..<i} - {m}. q k)" by (simp add: sum.remove [of _ m])
    moreover have "(\<Sum>k<i. (q(m := q m - 1)) k) = q m - 1 + (\<Sum>k\<in>{..<i} - {m}. q k)"
      using True by (subst sum.remove [of _ m]) auto
    ultimately show ?thesis using Some m(1) by (simp add: serve_def)
  next
    case False
    then have "(\<Sum>k<i. q k) = 0" "(\<Sum>k<i. (q(m := q m - 1)) k) = 0" using m(3) by auto
    then show ?thesis using Some by (simp add: serve_def)
  qed
qed

lemma serve_waits: "i < n \<Longrightarrow> 0 < (\<Sum>k<i. q k) \<Longrightarrow> serve n q i = q i"
  using serve_level [of i n q] serve_level [of "Suc i" n q] by simp

lemma serve_le: "serve n q k \<le> q k"
  by (simp add: serve_def split: option.split)

lemma backlog_0 [simp]: "backlog n w i 0 = 0"
  by (simp add: backlog_def)

lemma backlog_Suc: "i \<le> n \<Longrightarrow> backlog n w i (Suc t) = backlog n w i t + released w i t - 1"
  by (simp add: backlog_def released_def serve_level sum.distrib)

lemma backlog_before: "i \<le> n \<Longrightarrow> 0 < backlog n w i (Suc t) \<Longrightarrow> 0 < (\<Sum>k<i. pending n w t k + w k t)"
  by (simp add: backlog_def serve_level)

lemma backlog_next: "backlog n w (Suc i) t = backlog n w i t + pending n w t i"
  by (simp add: backlog_def)

text \<open>As long as there is work for the first \<open>i\<close> tasks, every step does one unit of it.\<close>

lemma busy:
  assumes "i \<le> n" "\<And>u. s < u \<Longrightarrow> u \<le> s + m \<Longrightarrow> 0 < backlog n w i u"
  shows "backlog n w i (s + m) + m = backlog n w i s + (\<Sum>u\<in>{s..<s + m}. released w i u)"
  using assms(2)
proof (induction m)
  case (Suc m)
  then have "backlog n w i (s + m) + m = backlog n w i s + (\<Sum>u\<in>{s..<s + m}. released w i u)" by simp
  moreover have "0 < backlog n w i (Suc (s + m))" using Suc.prems [of "Suc (s + m)"] by simp
  ultimately show ?case using backlog_Suc [OF assms(1), of w "s + m"] by simp
qed simp

section \<open>Releases in a window\<close>

lemma window_le:
  assumes "0 < p" "\<And>t. f t \<le> b" "\<And>t u. 0 < f t \<Longrightarrow> 0 < f u \<Longrightarrow> t < u \<Longrightarrow> t + p \<le> u"
  shows "(\<Sum>u\<in>{s..<s + len}. f u) \<le> ceil_div len p * (b :: nat)"
proof (induction len arbitrary: s rule: less_induct)
  case (less len)
  have short: "(\<Sum>u\<in>{s..<s + l}. f u) \<le> b" if "l \<le> p" for l
  proof (cases "\<exists>t\<in>{s..<s + l}. 0 < f t")
    case True
    then obtain t where t: "t \<in> {s..<s + l}" "0 < f t" by blast
    have "f u = 0" if "u \<in> {s..<s + l} - {t}" for u
      using that t \<open>l \<le> p\<close> assms(3) [of t u] assms(3) [of u t] by (cases "t < u") force+
    then have "(\<Sum>u\<in>{s..<s + l}. f u) = f t" using t(1) by (simp add: sum.remove [of _ t])
    then show ?thesis using assms(2) by simp
  qed simp
  show ?case
  proof (cases "len \<le> p")
    case True
    show ?thesis
    proof (cases "len = 0")
      case False
      then have "1 \<le> ceil_div len p" using le_ceil_div_mult [OF assms(1), of len] by (cases "ceil_div len p") auto
      then show ?thesis using short [OF True] by (metis le_trans mult_le_mono1 nat_mult_1)
    qed simp
  next
    case False
    have "(\<Sum>u\<in>{s..<s + len}. f u) = (\<Sum>u\<in>{s..<s + p}. f u) + (\<Sum>u\<in>{s + p..<s + p + (len - p)}. f u)"
      using False by (simp add: sum.atLeastLessThan_concat)
    also have "\<dots> \<le> b + ceil_div (len - p) p * b" using short [of p] less [of "len - p" "s + p"] False assms(1) by (intro add_mono) auto
    also have "\<dots> = ceil_div len p * b" using False assms(1) by (simp add: ceil_div_def le_div_geq le_mod_geq)
    finally show ?thesis .
  qed
qed

lemma sporadic_window:
  assumes "sporadic ts w" "k < length ts" "0 < snd (ts ! k)"
  shows "(\<Sum>u\<in>{s..<s + len}. w k u) \<le> ceil_div len (snd (ts ! k)) * fst (ts ! k)"
  using assms by (intro window_le) (auto simp: sporadic_def)

text \<open>With the first release of every task at time 0 and full budgets, the bound is reached.\<close>

definition together :: "(nat \<times> nat) list \<Rightarrow> nat \<Rightarrow> nat \<Rightarrow> nat" where
  "together ts k t = (if t mod snd (ts ! k) = 0 then fst (ts ! k) else 0)"

lemma ceil_div_Suc: "0 < p \<Longrightarrow> ceil_div (Suc t) p = ceil_div t p + (if t mod p = 0 then 1 else 0)"
  by (auto simp: ceil_div_def div_Suc mod_Suc)

lemma together_window: "0 < snd (ts ! k) \<Longrightarrow> (\<Sum>u<len. together ts k u) = ceil_div len (snd (ts ! k)) * fst (ts ! k)"
  by (induction len) (simp_all add: together_def ceil_div_Suc)

lemma multiples_apart: "t mod p = 0 \<Longrightarrow> u mod p = 0 \<Longrightarrow> t < u \<Longrightarrow> t + p \<le> (u :: nat)"
proof -
  assume "t mod p = 0" "u mod p = 0" "t < u"
  then have "p dvd u - t" by (simp add: mod_eq_0_iff_dvd)
  then have "p \<le> u - t" using \<open>t < u\<close> by (intro dvd_imp_le) simp_all
  then show "t + p \<le> u" using \<open>t < u\<close> by simp
qed

lemma together_sporadic: "sporadic ts (together ts)"
  by (auto simp: sporadic_def together_def multiples_apart split: if_splits)

section \<open>The test is sound\<close>

lemma hp_demand:
  assumes "sporadic ts w" "\<And>k. k < length ts \<Longrightarrow> 0 < snd (ts ! k)" "i < length ts" "len \<le> snd (ts ! i)"
  shows "(\<Sum>u\<in>{s..<s + len}. released w (Suc i) u) \<le> demand (take i ts) (fst (ts ! i)) len"
proof -
  have "(\<Sum>u\<in>{s..<s + len}. released w (Suc i) u) = (\<Sum>k<Suc i. \<Sum>u\<in>{s..<s + len}. w k u)"
    unfolding released_def by (rule sum.swap)
  also have "\<dots> \<le> (\<Sum>k<i. ceil_div len (snd (ts ! k)) * fst (ts ! k)) + ceil_div len (snd (ts ! i)) * fst (ts ! i)"
    using assms(3) by (simp, intro add_mono sum_mono sporadic_window [OF assms(1)] assms(2)) simp_all
  also have "\<dots> \<le> (\<Sum>k<i. ceil_div len (snd (ts ! k)) * fst (ts ! k)) + fst (ts ! i)"
    using ceil_div_le_iff [of "snd (ts ! i)" len 1] assms(2-4) by simp
  also have "(\<Sum>k<i. ceil_div len (snd (ts ! k)) * fst (ts ! k)) = (\<Sum>(c, p)\<leftarrow>take i ts. ceil_div len p * c)"
    using assms(3) by (simp add: sum_list_sum_nth case_prod_beta atLeast0LessThan)
  finally show ?thesis by (simp add: demand_def add.commute)
qed

text \<open>No work of a task is left once it is gone, until the next release.\<close>

lemma pending_keeps_0:
  assumes "pending n w t i = 0" "t \<le> u" "\<And>v. t \<le> v \<Longrightarrow> v < u \<Longrightarrow> w i v = 0"
  shows "pending n w u i = 0"
  using assms(2,3)
proof (induction u rule: dec_induct)
  case (step u)
  then have "pending n w u i + w i u = 0" by simp
  then show ?case using serve_le [of n "\<lambda>k. pending n w u k + w k u" i] by simp
qed (rule assms(1))

text \<open>A job that finds no work of its task is done within a window that covers its demand: look at the last time before
  it at which the tasks of higher priority had no work.\<close>

lemma job_done:
  assumes w: "sporadic ts w" "\<And>k. k < length ts \<Longrightarrow> 0 < snd (ts ! k)" and i: "i < length ts"
    and R: "demand (take i ts) (fst (ts ! i)) R \<le> R" "R \<le> snd (ts ! i)"
    and t: "0 < w i t" "pending (length ts) w t i = 0"
  shows "pending (length ts) w (t + R) i = 0"
proof (rule ccontr)
  let ?n = "length ts"
  assume late: "pending ?n w (t + R) i \<noteq> 0"
  have apart: "w i v = 0" if "t < v" "v < t + R" for v
  proof (rule ccontr)
    assume "w i v \<noteq> 0"
    then have "t + snd (ts ! i) \<le> v" using w(1) i t(1) that by (auto simp: sporadic_def)
    then show False using that R(2) by simp
  qed
  have after: "0 < pending ?n w u i" if "t < u" "u \<le> t + R" for u
    using late pending_keeps_0 [of ?n w u i "t + R"] apart that by (metis gr0I order.strict_trans1 order_less_le_trans)
  define s where "s = (GREATEST u. u \<le> t \<and> backlog ?n w i u = 0)"
  have s: "s \<le> t" "backlog ?n w i s = 0" and last: "\<And>u. u \<le> t \<Longrightarrow> backlog ?n w i u = 0 \<Longrightarrow> u \<le> s"
    using GreatestI_nat [of "\<lambda>u. u \<le> t \<and> backlog ?n w i u = 0" 0 t] Greatest_le_nat [of "\<lambda>u. u \<le> t \<and> backlog ?n w i u = 0" _ t]
    by (auto simp: s_def)
  have busy_hp: "0 < backlog ?n w i u" if "s < u" "u \<le> t" for u using last [of u] that by (cases "backlog ?n w i u") auto
  have wait: "pending ?n w s i = 0"
  proof -
    have "pending ?n w s i \<le> pending ?n w (s + m) i" if "s + m \<le> t" for m
      using that
    proof (induction m)
      case (Suc m)
      have "0 < backlog ?n w i (Suc (s + m))" using busy_hp Suc.prems by simp
      then have "pending ?n w (Suc (s + m)) i = pending ?n w (s + m) i + w i (s + m)" using i backlog_before [of i ?n w "s + m"] by (simp add: serve_waits)
      then show ?case using Suc by simp
    qed simp
    from this [of "t - s"] s(1) t(2) show ?thesis by simp
  qed
  have pos: "0 < backlog ?n w (Suc i) u" if "s < u" "u \<le> s + R" for u
    using busy_hp [of u] after [of u] that s(1) by (cases "u \<le> t") (simp_all add: backlog_next)
  have "backlog ?n w (Suc i) (s + R) + R \<le> demand (take i ts) (fst (ts ! i)) R"
    using busy [of "Suc i" ?n s R w] pos hp_demand [OF w i R(2), of s] i s(2) wait by (simp add: backlog_next)
  then have "backlog ?n w (Suc i) (s + R) = 0" using R(1) by linarith
  moreover have "0 < fst (ts ! i)" using w(1) i t(1) by (metis le_zero_eq not_gr_zero sporadic_def)
  then have "0 < R" using R(1) by (cases R) simp_all
  ultimately show False using pos [of "s + R"] by simp
qed

lemma sound:
  assumes w: "sporadic ts w" "\<And>k. k < length ts \<Longrightarrow> 0 < snd (ts ! k)" and i: "i < length ts"
    and m: "meets_deadline (take i ts) (fst (ts ! i)) (snd (ts ! i))"
  shows "job_on_time ts w i"
proof -
  let ?n = "length ts" and ?P = "snd (ts ! i)"
  obtain R where R: "demand (take i ts) (fst (ts ! i)) R \<le> R" "R \<le> ?P" using m by (auto simp: meets_deadline_def)
  have apart: "w i v = 0" if "0 < w i t" "t < v" "v < t + ?P" for t v
  proof (rule ccontr)
    assume "w i v \<noteq> 0"
    then have "t + ?P \<le> v" using w(1) i that by (auto simp: sporadic_def)
    then show False using that(3) by simp
  qed
  have "pending ?n w (t + ?P) i = 0" if "0 < w i t" for t
    using that
  proof (induction t rule: less_induct)
    case (less t)
    have "pending ?n w u i = 0 \<or> (\<exists>v<u. 0 < w i v \<and> u < v + ?P)" if "u \<le> t" for u
      using that
    proof (induction u)
      case (Suc u)
      show ?case
      proof (cases "w i u = 0")
        case True
        from Suc consider "pending ?n w u i = 0" | v where "v < u" "0 < w i v" "u < v + ?P" by auto
        then show ?thesis
        proof cases
          case 1
          then show ?thesis using True pending_keeps_0 [of ?n w u i "Suc u"] by (metis le_SucI less_Suc_eq_le order.refl order_antisym)
        next
          case (2 v)
          then show ?thesis using less.IH [of v] Suc.prems by (cases "Suc u = v + ?P") (auto intro: less_SucI)
        qed
      next
        case False
        then show ?thesis using less.IH [of u] Suc.prems w(2) [OF i] by (cases "?P = 1") auto
      qed
    qed simp
    from this [of t] have "pending ?n w t i = 0" using apart less.prems by force
    then have "pending ?n w (t + R) i = 0" using job_done [OF w i R less.prems] by simp
    then show ?case
    proof (cases "R = 0")
      case True
      then have "fst (ts ! i) = 0" using R(1) by simp
      then show ?thesis using less.prems w(1) i by (metis le_zero_eq not_gr_zero sporadic_def)
    next
      case False
      then show ?thesis using \<open>pending ?n w (t + R) i = 0\<close> pending_keeps_0 [of ?n w "t + R" i "t + ?P"] R(2) apart [OF less.prems] by simp
    qed
  qed
  then show ?thesis by (simp add: job_on_time_def)
qed

section \<open>The test is exact\<close>

text \<open>When no window up to the period covers its demand, releasing all tasks together misses the deadline.\<close>

lemma complete:
  assumes p: "\<And>k. k < length ts \<Longrightarrow> 0 < snd (ts ! k)" and i: "i < length ts"
    and m: "\<not> meets_deadline (take i ts) (fst (ts ! i)) (snd (ts ! i))"
  shows "\<not> job_on_time ts (together ts) i"
proof
  let ?n = "length ts" and ?w = "together ts" and ?P = "snd (ts ! i)"
  have late: "t < demand (take i ts) (fst (ts ! i)) t" if "t \<le> ?P" for t using m that unfolding meets_deadline_def by (meson not_le)
  have b: "0 < ?w i 0" using late [of 0] by (simp add: together_def)
  assume "job_on_time ts ?w i"
  then have "0 < ?P \<and> pending ?n ?w ?P i = 0" using b p [OF i] unfolding job_on_time_def by (metis add_0)
  then obtain x where x: "0 < x" "x \<le> ?P" "pending ?n ?w x i = 0" and least: "\<And>u. 0 < u \<Longrightarrow> u < x \<Longrightarrow> 0 < pending ?n ?w u i"
    using exists_least_iff [of "\<lambda>x. 0 < x \<and> pending ?n ?w x i = 0"] by (metis gr0I le_less_linear)
  have work: "0 < pending ?n ?w u i + ?w i u" if "u < x" for u using least [of u] b that by (cases u) simp_all
  have idle: "backlog ?n ?w i x = 0"
  proof (rule ccontr)
    assume "backlog ?n ?w i x \<noteq> 0"
    obtain y where y: "x = Suc y" using x(1) by (cases x) auto
    have "pending ?n ?w x i = pending ?n ?w y i + ?w i y" using backlog_before [of i ?n ?w y] \<open>backlog ?n ?w i x \<noteq> 0\<close> i y by (simp add: serve_waits)
    then show False using work [of y] x(3) y by simp
  qed
  have "backlog ?n ?w (Suc i) u + u = (\<Sum>v<u. released ?w (Suc i) v)" if "u \<le> x" for u
    using that
  proof (induction u)
    case (Suc u)
    have "0 < backlog ?n ?w (Suc i) u + released ?w (Suc i) u" using work [of u] Suc.prems by (auto simp: backlog_next released_def)
    moreover have "backlog ?n ?w (Suc i) (Suc u) = backlog ?n ?w (Suc i) u + released ?w (Suc i) u - 1" using i by (intro backlog_Suc) simp
    moreover have "backlog ?n ?w (Suc i) u + u = (\<Sum>v<u. released ?w (Suc i) v)" using Suc by simp
    ultimately show ?case by (simp only: sum.lessThan_Suc)
  qed simp
  from this [of x] have "x = (\<Sum>v<x. released ?w (Suc i) v)" using idle x(3) by (simp add: backlog_next)
  also have "\<dots> = (\<Sum>k<Suc i. \<Sum>v<x. ?w k v)" unfolding released_def by (rule sum.swap)
  also have "\<dots> = (\<Sum>k<i. ceil_div x (snd (ts ! k)) * fst (ts ! k)) + ceil_div x ?P * fst (ts ! i)"
    using p i by (simp add: together_window)
  also have "ceil_div x ?P = 1" using x(1,2) ceil_div_le_iff [OF p [OF i], of x 1] ceil_div_le_iff [OF p [OF i], of x 0] by simp
  also have "(\<Sum>k<i. ceil_div x (snd (ts ! k)) * fst (ts ! k)) = (\<Sum>(c, p)\<leftarrow>take i ts. ceil_div x p * c)"
    using i by (simp add: sum_list_sum_nth case_prod_beta atLeast0LessThan)
  finally have "x = demand (take i ts) (fst (ts ! i)) x" by (simp add: demand_def)
  then show False using late [OF x(2)] by simp
qed

lemma schedulable_iff:
  assumes "\<And>k. k < length ts \<Longrightarrow> 0 < snd (ts ! k)"
  shows "(\<forall>w. sporadic ts w \<longrightarrow> on_time ts w) \<longleftrightarrow> (\<forall>i<length ts. meets_deadline (take i ts) (fst (ts ! i)) (snd (ts ! i)))"
  using sound [OF _ assms] complete [OF assms] together_sporadic [of ts] unfolding on_time_def by blast

section \<open>Properties\<close>

text \<open>C6. The response-time test of \<^verbatim>\<open>try_bind\<close> is exact for the schedule it stands for. On any array of sane numbers it returns, and
  it accepts the array exactly when a processor that always runs the first thread with work meets every deadline: for every
  pattern of releases in which the jobs of a thread are at least its period apart and need at most its budget,
  each job is done a period after its release.\<close>

theorem rt_test_exact:
  assumes "nums_ok B P n"
  shows "\<exists>b. rt_test B P 0 n = Inr b \<and> (b \<longleftrightarrow> (\<forall>w. sporadic (params B P n) w \<longrightarrow> on_time (params B P n) w))"
proof -
  let ?ts = "params B P n"
  have n: "length ?ts = n" by (simp add: params_def)
  have k: "?ts ! k = (nat (B k), nat (P k))" "take k ?ts = params B P k" if "k < n" for k
    using that by (simp_all add: params_def nth_arr_list take_arr_list)
  have "0 < snd (?ts ! k)" if "k < length ?ts" for k using that assms k n by (simp add: nums_ok_def)
  from schedulable_iff [OF this] have "(\<forall>w. sporadic ?ts w \<longrightarrow> on_time ?ts w) \<longleftrightarrow>
      (\<forall>i\<in>{0..<0 + n}. meets_deadline (params B P i) (nat (B i)) (nat (P i)))" using k n by auto
  with rt_test_spec [OF assms, of 0 n] show ?thesis by simp
qed

text \<open>Two threads of 1 ms every 3 ms and 2 ms every 5 ms, released together at first and the second one late afterwards.\<close>

definition late_pattern :: "nat \<Rightarrow> nat \<Rightarrow> nat" where
  "late_pattern k t = (if k = 0 \<and> t \<in> {0, 3, 6} then 1 else if k = 1 \<and> t \<in> {0, 6} then 2 else 0)"

theorem rt_test_exact_witness:
  "rt_test (\<lambda>i. int i + 1) (\<lambda>i. 3 + 2 * int i) 0 2 = Inr True \<and> pending 2 late_pattern 5 1 = 0 \<and> pending 2 late_pattern 11 1 = 0"
proof -
  have ok: "nums_ok (\<lambda>i. int i + 1) (\<lambda>i. 3 + 2 * int i) 2" by (auto simp: nums_ok_def MAX_PERIOD_def)
  have t: "rt_test (\<lambda>i. int i + 1) (\<lambda>i. 3 + 2 * int i) 0 2 = Inr True" by code_simp
  have ts: "params (\<lambda>i. int i + 1) (\<lambda>i. 3 + 2 * int i) 2 = [(1, 3), (2, 5)]" by (simp add: params_def arr_list_def numeral_2_eq_2)
  have "sporadic [(1, 3), (2, 5)] late_pattern"
    by (auto simp: sporadic_def late_pattern_def less_Suc_eq split: if_splits)
  with rt_test_exact [OF ok] t ts have "on_time [(1, 3), (2, 5)] late_pattern" by simp
  then have "job_on_time [(1, 3), (2, 5)] late_pattern 1" by (simp add: on_time_def)
  then have j: "0 < late_pattern 1 t \<Longrightarrow> pending 2 late_pattern (t + 5) 1 = 0" for t
    by (simp add: job_on_time_def numeral_2_eq_2)
  have "pending 2 late_pattern 5 1 = 0" "pending 2 late_pattern 11 1 = 0" using j [of 0] j [of 6] by (simp_all add: late_pattern_def)
  with t show ?thesis by simp
qed

text \<open>For an array that \<^verbatim>\<open>try_bind\<close> accepts, the threads that the response-time test looked at, those from the first one on
  at which the utilization bound was left, are on time.\<close>

lemma admitted_on_time:
  assumes "admissible s xs" "\<forall>t\<in>set xs. task_ok (reserve s t)"
  shows "\<exists>i\<le>length xs. \<not> ub_fail i (util_sum s (take i xs)) \<and>
    (\<forall>k\<in>{i..<length xs}. \<forall>w. sporadic (task_params s xs) w \<longrightarrow> job_on_time (task_params s xs) w k)"
proof -
  let ?ts = "task_params s xs"
  have n: "length ?ts = length xs" by (simp add: task_params_def)
  have k: "?ts ! k = (nat (r_budget (reserve s (xs ! k))), nat (r_period (reserve s (xs ! k))))" "take k ?ts = task_params s (take k xs)"
    if "k < length xs" for k using that by (simp_all add: task_params_def take_map)
  have p: "0 < snd (?ts ! j)" if "j < length ?ts" for j using that assms(2) k n by (simp add: task_ok_def)
  have "job_on_time ?ts w j" if "sporadic ?ts w" "j < length xs"
      "meets_deadline (task_params s (take j xs)) (nat (r_budget (reserve s (xs ! j)))) (nat (r_period (reserve s (xs ! j))))" for w j
    using sound [OF that(1) p, of j] that n k by simp
  then show ?thesis using assms(1) unfolding admissible_def by (metis atLeastLessThan_iff)
qed

end
