(* ===== verification/Printf.thy ===== *)
theory Printf
  imports Scanf
begin

text \<open>
  Formatted output: \<^verbatim>\<open>format_decode\<close>, \<^verbatim>\<open>string\<close>, \<^verbatim>\<open>vsnprintf\<close> and its variants of \<^verbatim>\<open>lib/vsprintf.c\<close>.
  \<^item> A format is the list of its characters before the NUL, and reading on is its tail.
  \<^item> \<^verbatim>\<open>format_decode\<close> is split at its labels: \<open>decode_precision\<close> and \<open>decode_qualifier\<close> are what follows
    \<^verbatim>\<open>precision:\<close> and \<^verbatim>\<open>qualifier:\<close>.
  \<^item> The arguments are a list of values (\<open>arg\<close>); on 32-bit ARM \<^verbatim>\<open>int\<close>, \<^verbatim>\<open>long\<close>, \<^verbatim>\<open>size_t\<close> and \<^verbatim>\<open>ptrdiff_t\<close>
    have one size. An argument of another size, or none, is a read of a value that was not passed.
  \<^item> The text that \<^verbatim>\<open>pointer\<close> makes of a \<^verbatim>\<open>%p\<close> directive, which the program does not use, is the argument \<open>ptr\<close>.
  The text of a format is the concatenation of the texts of its pieces, whatever the pieces are.
\<close>

section \<open>The code\<close>

subsection \<open>Decoding a directive\<close>

datatype format_type =
  FORMAT_TYPE_NONE | FORMAT_TYPE_WIDTH | FORMAT_TYPE_PRECISION | FORMAT_TYPE_CHAR | FORMAT_TYPE_STR | FORMAT_TYPE_PTR
| FORMAT_TYPE_PERCENT_CHAR | FORMAT_TYPE_INVALID | FORMAT_TYPE_LONG_LONG | FORMAT_TYPE_ULONG | FORMAT_TYPE_LONG
| FORMAT_TYPE_UBYTE | FORMAT_TYPE_BYTE | FORMAT_TYPE_USHORT | FORMAT_TYPE_SHORT | FORMAT_TYPE_UINT | FORMAT_TYPE_INT
| FORMAT_TYPE_NRCHARS | FORMAT_TYPE_SIZE_T | FORMAT_TYPE_PTRDIFF

record decoded_spec = printf_spec +
  ps_type :: format_type
  ps_qualifier :: char

definition flag_of :: "char \<Rightarrow> int option" where
  "flag_of c =
     (if c = CHR ''-'' then Some LEFT else if c = CHR ''+'' then Some PLUS else if c = CHR '' '' then Some SPACE
      else if c = CHR ''#'' then Some SPECIAL else if c = CHR ''0'' then Some ZEROPAD else None)"

fun flags_loop :: "string \<Rightarrow> int \<Rightarrow> int \<times> string" where
  "flags_loop [] flags = (flags, [])"
| "flags_loop (c # fmt) flags = (case flag_of c of None \<Rightarrow> (flags, c # fmt) | Some f \<Rightarrow> flags_loop fmt (flags OR f))"

definition number_type :: "char \<Rightarrow> bool \<Rightarrow> format_type" where
  "number_type qualifier is_sign =
     (if qualifier = CHR ''L'' then FORMAT_TYPE_LONG_LONG
      else if qualifier = CHR ''l'' then (if is_sign then FORMAT_TYPE_LONG else FORMAT_TYPE_ULONG)
      else if tolower_c qualifier = CHR ''z'' then FORMAT_TYPE_SIZE_T
      else if qualifier = CHR ''t'' then FORMAT_TYPE_PTRDIFF
      else if qualifier = CHR ''H'' then (if is_sign then FORMAT_TYPE_BYTE else FORMAT_TYPE_UBYTE)
      else if qualifier = CHR ''h'' then (if is_sign then FORMAT_TYPE_SHORT else FORMAT_TYPE_USHORT)
      else (if is_sign then FORMAT_TYPE_INT else FORMAT_TYPE_UINT))"

text \<open>The switch on the conversion; \<open>fmt\<close> points to it.\<close>

definition decode_conversion :: "string \<Rightarrow> decoded_spec \<Rightarrow> decoded_spec \<times> string" where
  "decode_conversion fmt spec0 =
     (let spec = spec0\<lparr>ps_base := 10\<rparr>; c = char_at fmt 0; rest = tl fmt;
          num = (\<lambda>spec. (spec\<lparr>ps_type := number_type (ps_qualifier spec) (ps_flags spec AND SIGN \<noteq> 0)\<rparr>, rest))
      in if c = CHR ''c'' then (spec\<lparr>ps_type := FORMAT_TYPE_CHAR\<rparr>, rest)
         else if c = CHR ''s'' then (spec\<lparr>ps_type := FORMAT_TYPE_STR\<rparr>, rest)
         else if c = CHR ''p'' then (spec\<lparr>ps_type := FORMAT_TYPE_PTR\<rparr>, fmt)
         else if c = CHR ''n'' then (spec\<lparr>ps_type := FORMAT_TYPE_NRCHARS\<rparr>, rest)
         else if c = CHR ''%'' then (spec\<lparr>ps_type := FORMAT_TYPE_PERCENT_CHAR\<rparr>, rest)
         else if c = CHR ''o'' then num (spec\<lparr>ps_base := 8\<rparr>)
         else if c = CHR ''x'' then num (spec\<lparr>ps_flags := ps_flags spec OR SMALL, ps_base := 16\<rparr>)
         else if c = CHR ''X'' then num (spec\<lparr>ps_base := 16\<rparr>)
         else if c = CHR ''d'' \<or> c = CHR ''i'' then num (spec\<lparr>ps_flags := ps_flags spec OR SIGN\<rparr>)
         else if c = CHR ''u'' then num spec
         else (spec\<lparr>ps_type := FORMAT_TYPE_INVALID\<rparr>, fmt))"

definition decode_qualifier :: "string \<Rightarrow> decoded_spec \<Rightarrow> decoded_spec \<times> string" where
  "decode_qualifier fmt spec =
     (let c = char_at fmt 0 in
      if c = CHR ''h'' \<or> tolower_c c = CHR ''l'' \<or> tolower_c c = CHR ''z'' \<or> c = CHR ''t''
      then (if c = CHR ''l'' \<and> char_at fmt 1 = CHR ''l'' then decode_conversion (drop 2 fmt) (spec\<lparr>ps_qualifier := CHR ''L''\<rparr>)
            else if c = CHR ''h'' \<and> char_at fmt 1 = CHR ''h'' then decode_conversion (drop 2 fmt) (spec\<lparr>ps_qualifier := CHR ''H''\<rparr>)
            else decode_conversion (tl fmt) (spec\<lparr>ps_qualifier := c\<rparr>))
      else decode_conversion fmt (spec\<lparr>ps_qualifier := NOQUAL\<rparr>))"

definition decode_precision :: "string \<Rightarrow> decoded_spec \<Rightarrow> decoded_spec \<times> string" where
  "decode_precision fmt spec0 =
     (let spec = spec0\<lparr>ps_precision := -1\<rparr> in
      if char_at fmt 0 = CHR ''.'' then
        (let fmt1 = tl fmt in
         if isdigit (char_at fmt1 0) then
           (let (n, fmt2) = skip_atoi fmt1 0; p = s16 n
            in decode_qualifier fmt2 (spec\<lparr>ps_precision := if p < 0 then 0 else p\<rparr>))
         else if char_at fmt1 0 = CHR ''*'' then (spec\<lparr>ps_type := FORMAT_TYPE_PRECISION\<rparr>, tl fmt1)
         else decode_qualifier fmt1 spec)
      else decode_qualifier fmt spec)"

text \<open>The flags and the field width, behind the percent sign.\<close>

definition decode_flags :: "string \<Rightarrow> decoded_spec \<Rightarrow> decoded_spec \<times> string" where
  "decode_flags fmt spec =
     (let (flags, fmt1) = flags_loop fmt 0;
          spec1 = spec\<lparr>ps_flags := flags, ps_field_width := -1\<rparr>
      in if isdigit (char_at fmt1 0) then
           (let (n, fmt2) = skip_atoi fmt1 0 in decode_precision fmt2 (spec1\<lparr>ps_field_width := s16 n\<rparr>))
         else if char_at fmt1 0 = CHR ''*'' then (spec1\<lparr>ps_type := FORMAT_TYPE_WIDTH\<rparr>, tl fmt1)
         else decode_precision fmt1 spec1)"

definition format_decode :: "string \<Rightarrow> decoded_spec \<Rightarrow> decoded_spec \<times> string" where
  "format_decode fmt spec =
     (if ps_type spec = FORMAT_TYPE_WIDTH then
        decode_precision fmt
          (if ps_field_width spec < 0
           then spec\<lparr>ps_field_width := s16 (- ps_field_width spec), ps_flags := ps_flags spec OR LEFT, ps_type := FORMAT_TYPE_NONE\<rparr>
           else spec\<lparr>ps_type := FORMAT_TYPE_NONE\<rparr>)
      else if ps_type spec = FORMAT_TYPE_PRECISION then
        decode_qualifier fmt
          (spec\<lparr>ps_precision := if ps_precision spec < 0 then 0 else ps_precision spec, ps_type := FORMAT_TYPE_NONE\<rparr>)
      else if fmt = [] \<or> hd fmt \<noteq> CHR ''%'' then
        (spec\<lparr>ps_type := FORMAT_TYPE_NONE\<rparr>, dropWhile (\<lambda>c. c \<noteq> CHR ''%'') fmt)
      else decode_flags (tl fmt) (spec\<lparr>ps_type := FORMAT_TYPE_NONE\<rparr>))"

subsection \<open>Printing an argument\<close>

text \<open>\<^verbatim>\<open>while (len < spec.field_width--)\<close>: the spaces and the width it leaves.\<close>

definition str_pad :: "int \<Rightarrow> int \<Rightarrow> string \<times> int" where
  "str_pad len width = (if len < width then (replicate (nat (width - len)) CHR '' '', s16 (len - 1)) else ([], s16 (width - 1)))"

definition string_text :: "printf_spec \<Rightarrow> string option \<Rightarrow> string" where
  "string_text spec str =
     (let s = (case str of None \<Rightarrow> ''(null)'' | Some s \<Rightarrow> s);
          s = (if ps_precision spec < 0 then s else take (nat (ps_precision spec)) s);
          len = int (length s);
          (pad1, width) = (if ps_flags spec AND LEFT = 0 then str_pad len (ps_field_width spec) else ([], ps_field_width spec));
          (pad2, width) = str_pad len width
      in pad1 @ s @ pad2)"

text \<open>\<^verbatim>\<open>while (--spec.field_width > 0)\<close>.\<close>

definition char_pad :: "int \<Rightarrow> string \<times> int" where
  "char_pad width = (let w = s16 (width - 1) in if w > 0 then (replicate (nat w) CHR '' '', 0) else ([], w))"

definition char_text :: "printf_spec \<Rightarrow> int \<Rightarrow> string" where
  "char_text spec v =
     (let (pad1, width) = (if ps_flags spec AND LEFT = 0 then char_pad (ps_field_width spec) else ([], ps_field_width spec));
          (pad2, width) = char_pad width
      in pad1 @ [chr_c (v mod 256)] @ pad2)"

datatype arg = ArgInt int | ArgLL int | ArgStr "string option" | ArgPtr int

definition arg_num :: "format_type \<Rightarrow> int \<Rightarrow> int" where
  "arg_num ty v =
     (if ty \<in> {FORMAT_TYPE_ULONG, FORMAT_TYPE_SIZE_T, FORMAT_TYPE_UINT} then u32 v
      else if ty = FORMAT_TYPE_UBYTE then v mod 256
      else if ty = FORMAT_TYPE_BYTE then u64 (s8 v)
      else if ty = FORMAT_TYPE_USHORT then v mod 65536
      else if ty = FORMAT_TYPE_SHORT then u64 (s16 v)
      else u64 (s32 v))"

definition isalnum :: "char \<Rightarrow> bool" where
  "isalnum c \<longleftrightarrow> isdigit c \<or> (65 \<le> ord_c c \<and> ord_c c \<le> 90) \<or> (97 \<le> ord_c c \<and> ord_c c \<le> 122) \<or>
     (192 \<le> ord_c c \<and> ord_c c \<noteq> 215 \<and> ord_c c \<noteq> 247)"

text \<open>One directive: the text it prints, the specification and the format and arguments that are left, and what
  \<^verbatim>\<open>%n\<close> stores. \<open>pos\<close> is the number of characters so far.\<close>

definition print_step :: "(string \<Rightarrow> int \<Rightarrow> printf_spec \<Rightarrow> string) \<Rightarrow> string \<Rightarrow> decoded_spec \<Rightarrow> string \<Rightarrow> arg list \<Rightarrow> int \<Rightarrow>
    (string \<times> decoded_spec \<times> string \<times> arg list \<times> int list) res" where
  "print_step ptr old spec fmt args pos =
     (let ty = ps_type spec; basic = printf_spec.truncate spec in
      if ty = FORMAT_TYPE_NONE then Inr (take (length old - length fmt) old, spec, fmt, args, [])
      else if ty = FORMAT_TYPE_WIDTH then
        (case args of ArgInt v # as \<Rightarrow> Inr ([], spec\<lparr>ps_field_width := s16 v\<rparr>, fmt, as, []) | _ \<Rightarrow> Inl Uninitialised)
      else if ty = FORMAT_TYPE_PRECISION then
        (case args of ArgInt v # as \<Rightarrow> Inr ([], spec\<lparr>ps_precision := s16 v\<rparr>, fmt, as, []) | _ \<Rightarrow> Inl Uninitialised)
      else if ty = FORMAT_TYPE_CHAR then
        (case args of ArgInt v # as \<Rightarrow> Inr (char_text basic v, spec, fmt, as, []) | _ \<Rightarrow> Inl Uninitialised)
      else if ty = FORMAT_TYPE_STR then
        (case args of ArgStr s # as \<Rightarrow> Inr (string_text basic s, spec, fmt, as, []) | _ \<Rightarrow> Inl Uninitialised)
      else if ty = FORMAT_TYPE_PTR then
        (case args of ArgPtr p # as \<Rightarrow> Inr (ptr (tl fmt) p basic, spec, dropWhile isalnum fmt, as, []) | _ \<Rightarrow> Inl Uninitialised)
      else if ty = FORMAT_TYPE_PERCENT_CHAR \<or> ty = FORMAT_TYPE_INVALID then Inr (''%'', spec, fmt, args, [])
      else if ty = FORMAT_TYPE_NRCHARS then
        (case args of ArgPtr p # as \<Rightarrow> Inr ([], spec, fmt, as, [pos]) | _ \<Rightarrow> Inl Uninitialised)
      else if ty = FORMAT_TYPE_LONG_LONG then
        (case args of ArgLL v # as \<Rightarrow> Inr (number basic (u64 v), spec, fmt, as, []) | _ \<Rightarrow> Inl Uninitialised)
      else
        (case args of ArgInt v # as \<Rightarrow> Inr (number basic (arg_num ty v), spec, fmt, as, []) | _ \<Rightarrow> Inl Uninitialised))"

definition pending :: "decoded_spec \<Rightarrow> bool" where
  "pending spec \<longleftrightarrow> ps_type spec = FORMAT_TYPE_WIDTH \<or> ps_type spec = FORMAT_TYPE_PRECISION"

section \<open>Progress\<close>

lemma length_tl_le: "length (tl xs) \<le> length xs"
  by simp

lemma flags_loop_length: "flags_loop fmt fl = (fl', fmt') \<Longrightarrow> length fmt' \<le> length fmt"
  by (induction fmt fl rule: flags_loop.induct) (auto split: option.splits)

text \<open>What the stages may do: they read on, and a directive left open has read its star.\<close>

definition moves :: "string \<Rightarrow> decoded_spec \<times> string \<Rightarrow> bool" where
  "moves fmt r \<longleftrightarrow> length (snd r) \<le> length fmt \<and> (pending (fst r) \<longrightarrow> length (snd r) < length fmt)"

lemma moves_mono: "moves fmt' r \<Longrightarrow> length fmt' \<le> length fmt \<Longrightarrow> moves fmt r"
  by (auto simp: moves_def)

lemma number_type_not_open: "number_type q b \<noteq> FORMAT_TYPE_WIDTH" "number_type q b \<noteq> FORMAT_TYPE_PRECISION"
  by (simp_all add: number_type_def)

lemma decode_conversion_moves: "moves fmt (decode_conversion fmt spec)"
  by (simp add: decode_conversion_def Let_def moves_def pending_def number_type_not_open)

lemma decode_qualifier_moves: "moves fmt (decode_qualifier fmt spec)"
  unfolding decode_qualifier_def Let_def by (auto intro: moves_mono [OF decode_conversion_moves])

lemma char_at_0_nonempty: "char_at fmt 0 = c \<Longrightarrow> c \<noteq> CHR 0x00 \<Longrightarrow> fmt \<noteq> []"
  by (auto simp: char_at_def)

lemma decode_precision_moves: "moves fmt (decode_precision fmt spec)"
proof -
  have "moves fmt (spec', tl (tl fmt))" if "char_at fmt 0 = CHR ''.''" for spec'
    using char_at_0_nonempty [OF that] by (cases fmt) (auto simp: moves_def)
  moreover have "length (snd (skip_atoi (tl fmt) 0)) \<le> length fmt"
    using skip_atoi_length [of "tl fmt" 0] length_tl_le by (rule order_trans)
  ultimately show ?thesis
    unfolding decode_precision_def Let_def case_prod_beta
    by (auto intro: moves_mono [OF decode_qualifier_moves])
qed

lemma decode_flags_moves: "moves fmt (decode_flags fmt spec)"
proof -
  obtain flags fmt1 where f: "flags_loop fmt 0 = (flags, fmt1)" by fastforce
  have le: "length fmt1 \<le> length fmt" by (rule flags_loop_length [OF f])
  have star: "moves fmt1 (s, tl fmt1)" if "char_at fmt1 0 = CHR ''*''" for s
    using char_at_0_nonempty [OF that] by (cases fmt1) (auto simp: moves_def)
  show ?thesis
    unfolding decode_flags_def f Let_def case_prod_beta fst_conv snd_conv
    using skip_atoi_length [of fmt1 0] le
    by (auto intro: moves_mono [OF decode_precision_moves] moves_mono [OF star])
qed

lemma literal_moves: "moves fmt (spec\<lparr>ps_type := FORMAT_TYPE_NONE\<rparr>, dropWhile P fmt)"
  by (simp add: moves_def pending_def length_dropWhile_le)

lemma format_decode_moves: "moves fmt (format_decode fmt spec)"
  unfolding format_decode_def using literal_moves [of "[]" spec]
  by (auto intro: decode_precision_moves decode_qualifier_moves literal_moves moves_mono [OF decode_flags_moves])

lemma format_decode_shorter:
  assumes "fmt \<noteq> []" "\<not> pending spec"
  shows "length (snd (format_decode fmt spec)) < length fmt"
proof (cases "hd fmt = CHR ''%''")
  case True
  have "length (snd (decode_flags (tl fmt) s)) < length fmt" for s
    using decode_flags_moves [of "tl fmt" s] assms(1) by (cases fmt) (auto simp: moves_def)
  with True assms show ?thesis by (simp add: format_decode_def pending_def)
next
  case False
  then have "length (dropWhile (\<lambda>c. c \<noteq> CHR ''%'') fmt) < length fmt"
    using assms length_dropWhile_le [of "\<lambda>c. c \<noteq> CHR ''%''" "tl fmt"] by (cases fmt) auto
  with False assms show ?thesis by (simp add: format_decode_def pending_def)
qed

text \<open>A directive that was left open is closed, or reads on.\<close>

lemma format_decode_closes:
  assumes "pending spec" "format_decode fmt spec = (spec', fmt')"
  shows "length fmt' < length fmt \<or> \<not> pending spec' \<and> length fmt' = length fmt"
  using format_decode_moves [of fmt spec] assms(2) by (auto simp: moves_def)

lemma print_step_length:
  assumes "print_step ptr old spec fmt args pos = Inr (text, spec', fmt', args', out)"
  shows "length fmt' \<le> length fmt" "pending spec' = pending spec"
  using assms length_dropWhile_le [of isalnum fmt]
  by (auto simp: print_step_def Let_def pending_def split: if_splits list.splits arg.splits)

section \<open>The loop\<close>

function vsnprintf_loop :: "(string \<Rightarrow> int \<Rightarrow> printf_spec \<Rightarrow> string) \<Rightarrow> string \<Rightarrow> decoded_spec \<Rightarrow> arg list \<Rightarrow> int \<Rightarrow>
    (string \<times> int list) res" where
  "vsnprintf_loop ptr fmt spec args pos =
     (if fmt = [] then Inr ([], [])
      else
        case format_decode fmt spec of (spec1, fmt1) \<Rightarrow>
        case print_step ptr fmt spec1 fmt1 args pos of
          Inl err \<Rightarrow> Inl err
        | Inr (piece, spec2, fmt2, args2, out) \<Rightarrow>
            bindR (vsnprintf_loop ptr fmt2 spec2 args2 (pos + int (length piece))) (\<lambda>(rest, outs).
              Inr (piece @ rest, out @ outs)))"
  by pat_completeness auto
termination
proof (relation "measures [\<lambda>(_, fmt, _, _, _). length fmt, \<lambda>(_, _, spec, _, _). if pending spec then 1 else 0]", goal_cases)
  case (2 ptr fmt spec args pos spec1 fmt1 r piece x spec2 y fmt2 z args2 out)
  then have d: "format_decode fmt spec = (spec1, fmt1)"
    and p: "print_step ptr fmt spec1 fmt1 args pos = Inr (piece, spec2, fmt2, args2, out)" by auto
  note l = print_step_length [OF p]
  show ?case
  proof (cases "pending spec")
    case True
    with format_decode_closes [OF True d] l show ?thesis by auto
  next
    case False
    with format_decode_shorter [of fmt spec] 2(1) d l show ?thesis by auto
  qed
qed simp

declare vsnprintf_loop.simps [simp del]

definition spec_start :: decoded_spec where
  "spec_start = \<lparr>ps_flags = 0, ps_base = 0, ps_field_width = 0, ps_precision = 0, ps_type = FORMAT_TYPE_NONE, ps_qualifier = CHR 0x00\<rparr>"

text \<open>The room behind the address \<open>buf\<close>: an end that wraps around the address space is the last address.\<close>

definition buf_room :: "int \<Rightarrow> int \<Rightarrow> int" where
  "buf_room buf sz = (if u32 (buf + sz) < buf then 4294967295 - buf else sz)"

text \<open>The result, the characters stored before the NUL, and what \<^verbatim>\<open>%n\<close> stored.\<close>

definition vsnprintf :: "(string \<Rightarrow> int \<Rightarrow> printf_spec \<Rightarrow> string) \<Rightarrow> int \<Rightarrow> int \<Rightarrow> string \<Rightarrow> arg list \<Rightarrow> (int \<times> string \<times> int list) res" where
  "vsnprintf ptr buf sz fmt args =
     (if s32 sz < 0 then Inr (0, [], [])
      else bindR (vsnprintf_loop ptr fmt spec_start args 0) (\<lambda>(text, outs).
        Inr (s32 (int (length text)), take (nat (buf_room buf sz - 1)) text, outs)))"

definition vscnprintf :: "(string \<Rightarrow> int \<Rightarrow> printf_spec \<Rightarrow> string) \<Rightarrow> int \<Rightarrow> int \<Rightarrow> string \<Rightarrow> arg list \<Rightarrow> (int \<times> string \<times> int list) res" where
  "vscnprintf ptr buf sz fmt args =
     bindR (vsnprintf ptr buf sz fmt args) (\<lambda>(i, stored, outs).
       Inr (if u32 i < sz then i else if sz \<noteq> 0 then s32 (sz - 1) else 0, stored, outs))"

definition sprintf :: "(string \<Rightarrow> int \<Rightarrow> printf_spec \<Rightarrow> string) \<Rightarrow> int \<Rightarrow> string \<Rightarrow> arg list \<Rightarrow> (int \<times> string \<times> int list) res" where
  "sprintf ptr buf fmt args = vsnprintf ptr buf 2147483647 fmt args"

section \<open>Formats are pieces\<close>

text \<open>The directives the program uses, and literal text between them.\<close>

datatype piece = Lit string | Dec int | Uns int | ULong int | ULL int | Txt "string option"

fun piece_fmt :: "piece \<Rightarrow> string" where
  "piece_fmt (Lit s) = s"
| "piece_fmt (Dec n) = ''%d''"
| "piece_fmt (Uns n) = ''%u''"
| "piece_fmt (ULong n) = ''%lu''"
| "piece_fmt (ULL n) = ''%llu''"
| "piece_fmt (Txt s) = ''%s''"

fun piece_args :: "piece \<Rightarrow> arg list" where
  "piece_args (Lit s) = []"
| "piece_args (Dec n) = [ArgInt n]"
| "piece_args (Uns n) = [ArgInt n]"
| "piece_args (ULong n) = [ArgInt n]"
| "piece_args (ULL n) = [ArgLL n]"
| "piece_args (Txt s) = [ArgStr s]"

fun piece_text :: "piece \<Rightarrow> string" where
  "piece_text (Lit s) = s"
| "piece_text (Dec n) = fmt_d (s32 n)"
| "piece_text (Uns n) = fmt_u (u32 n)"
| "piece_text (ULong n) = fmt_u (u32 n)"
| "piece_text (ULL n) = fmt_u (u64 n)"
| "piece_text (Txt s) = (case s of None \<Rightarrow> ''(null)'' | Some t \<Rightarrow> t)"

fun piece_ok :: "piece \<Rightarrow> bool" where
  "piece_ok (Lit s) = (CHR ''%'' \<notin> set s)"
| "piece_ok _ = True"

definition conv_spec :: "int \<Rightarrow> char \<Rightarrow> format_type \<Rightarrow> decoded_spec" where
  "conv_spec flags qualifier ty =
     \<lparr>ps_flags = flags, ps_base = 10, ps_field_width = -1, ps_precision = -1, ps_type = ty, ps_qualifier = qualifier\<rparr>"

lemma conv_spec_simps [simp]:
  "ps_type (conv_spec f q ty) = ty" "printf_spec.truncate (conv_spec f q ty) =
     \<lparr>ps_flags = f, ps_base = 10, ps_field_width = -1, ps_precision = -1\<rparr>"
  "pending (conv_spec f q ty) \<longleftrightarrow> ty = FORMAT_TYPE_WIDTH \<or> ty = FORMAT_TYPE_PRECISION"
  by (simp_all add: conv_spec_def printf_spec.truncate_def pending_def)

text \<open>A conversion without flags, width and precision, by its qualifier.\<close>

lemma conversion_chars:
  "c \<in> set ''dusl'' \<Longrightarrow> flag_of c = None \<and> \<not> isdigit c"
  "tolower_c CHR ''d'' = CHR ''d''" "tolower_c CHR ''u'' = CHR ''u''" "tolower_c CHR ''s'' = CHR ''s''" "tolower_c CHR ''l'' = CHR ''l''"
  "tolower_c NOQUAL \<noteq> CHR ''z''" "NOQUAL \<notin> set ''LlHht''" "tolower_c CHR ''L'' \<noteq> CHR ''z''"
proof -
  show "flag_of c = None \<and> \<not> isdigit c" if "c \<in> set ''dusl''"
  proof -
    have "\<forall>c\<in>set ''dusl''. flag_of c = None \<and> \<not> isdigit c" by code_simp
    with that show ?thesis by blast
  qed
qed code_simp+

lemma decode_simple:
  assumes "\<not> pending spec" "c \<in> set ''dusl''"
  shows "format_decode (CHR ''%'' # c # rest) spec =
    decode_qualifier (c # rest) (spec\<lparr>ps_type := FORMAT_TYPE_NONE, ps_flags := 0, ps_field_width := -1, ps_precision := -1\<rparr>)"
proof -
  have "flag_of c = None" "\<not> isdigit c" using conversion_chars(1) [OF assms(2)] by simp_all
  moreover have "c \<noteq> CHR ''*''" "c \<noteq> CHR ''.''" using assms(2) by auto
  ultimately show ?thesis
    using assms(1) by (simp add: format_decode_def decode_flags_def decode_precision_def pending_def char_at_def)
qed

lemma decode_pieces:
  assumes "\<not> pending spec"
  shows "format_decode (CHR ''%'' # CHR ''d'' # rest) spec = (conv_spec SIGN NOQUAL FORMAT_TYPE_INT, rest)"
    "format_decode (CHR ''%'' # CHR ''u'' # rest) spec = (conv_spec 0 NOQUAL FORMAT_TYPE_UINT, rest)"
    "format_decode (CHR ''%'' # CHR ''s'' # rest) spec = (conv_spec 0 NOQUAL FORMAT_TYPE_STR, rest)"
    "format_decode (CHR ''%'' # CHR ''l'' # CHR ''u'' # rest) spec = (conv_spec 0 CHR ''l'' FORMAT_TYPE_ULONG, rest)"
    "format_decode (CHR ''%'' # CHR ''l'' # CHR ''l'' # CHR ''u'' # rest) spec = (conv_spec 0 CHR ''L'' FORMAT_TYPE_LONG_LONG, rest)"
  using conversion_chars(2-)
  by (simp_all add: decode_simple [OF assms] decode_qualifier_def decode_conversion_def char_at_def number_type_def Let_def
      SIGN_def conv_spec_def)
text \<open>One directive, and the literal text up to the next.\<close>

lemma loop_directive:
  assumes "format_decode (CHR ''%'' # c # fmt) spec = (spec1, fmt1)"
    "print_step ptr (CHR ''%'' # c # fmt) spec1 fmt1 args pos = Inr (t, spec1, fmt1, args2, [])"
  shows "vsnprintf_loop ptr (CHR ''%'' # c # fmt) spec args pos =
    bindR (vsnprintf_loop ptr fmt1 spec1 args2 (pos + int (length t))) (\<lambda>(rest, outs). Inr (t @ rest, outs))"
  using assms by (subst vsnprintf_loop.simps) simp

lemma loop_literal:
  assumes "fmt \<noteq> []" "hd fmt \<noteq> CHR ''%''" "\<not> pending spec"
  shows "vsnprintf_loop ptr fmt spec args pos =
    bindR (vsnprintf_loop ptr (dropWhile (\<lambda>c. c \<noteq> CHR ''%'') fmt) (spec\<lparr>ps_type := FORMAT_TYPE_NONE\<rparr>) args
        (pos + int (length (takeWhile (\<lambda>c. c \<noteq> CHR ''%'') fmt))))
      (\<lambda>(rest, outs). Inr (takeWhile (\<lambda>c. c \<noteq> CHR ''%'') fmt @ rest, outs))"
proof -
  let ?P = "\<lambda>c. c \<noteq> CHR ''%''"
  have l: "length fmt - length (dropWhile ?P fmt) = length (takeWhile ?P fmt)"
    by (metis add_diff_cancel_right' length_append takeWhile_dropWhile_id)
  moreover have "take (length (takeWhile ?P fmt)) fmt = takeWhile ?P fmt" by (simp add: takeWhile_eq_take [symmetric])
  ultimately show ?thesis
    using assms by (subst vsnprintf_loop.simps) (simp add: format_decode_def pending_def print_step_def l)
qed

definition prints :: "(string \<Rightarrow> int \<Rightarrow> printf_spec \<Rightarrow> string) \<Rightarrow> string \<Rightarrow> arg list \<Rightarrow> string \<Rightarrow> bool" where
  "prints ptr fmt args text \<longleftrightarrow> (\<forall>spec pos. \<not> pending spec \<longrightarrow> vsnprintf_loop ptr fmt spec args pos = Inr (text, []))"

lemma prints_Nil: "prints ptr [] args []"
  by (simp add: prints_def vsnprintf_loop.simps)

lemma prints_literal:
  assumes "CHR ''%'' \<notin> set s" "prints ptr fmt args text"
  shows "prints ptr (s @ fmt) args (s @ text)"
  unfolding prints_def
proof (intro allI impI)
  fix spec pos assume sp: "\<not> pending spec"
  let ?P = "\<lambda>c. c \<noteq> CHR ''%''" and ?spec = "spec\<lparr>ps_type := FORMAT_TYPE_NONE\<rparr>"
  have np: "\<not> pending ?spec" by (simp add: pending_def)
  have s: "dropWhile ?P (s @ fmt) = dropWhile ?P fmt" "takeWhile ?P (s @ fmt) = s @ takeWhile ?P fmt"
    using assms(1) by (auto simp: dropWhile_append takeWhile_append)
  show "vsnprintf_loop ptr (s @ fmt) spec args pos = Inr (s @ text, [])"
  proof (cases "s = []")
    case True
    then show ?thesis using assms(2) sp by (simp add: prints_def)
  next
    case False
    then have h: "s @ fmt \<noteq> []" "hd (s @ fmt) \<noteq> CHR ''%''" using assms(1) by (cases s; auto)+
    have "\<exists>t. text = takeWhile ?P fmt @ t \<and> vsnprintf_loop ptr (dropWhile ?P fmt) ?spec args q = Inr (t, [])" for q
    proof (cases "fmt = [] \<or> hd fmt = CHR ''%''")
      case True
      then have "takeWhile ?P fmt = []" "dropWhile ?P fmt = fmt" by (cases fmt; auto)+
      then show ?thesis using assms(2) np by (simp add: prints_def)
    next
      case False
      have "vsnprintf_loop ptr fmt ?spec args (q - int (length (takeWhile ?P fmt))) = Inr (text, [])"
        using assms(2) np by (simp add: prints_def)
      then show ?thesis using False np by (auto simp: loop_literal bindR_eq_Inr)
    qed
    then show ?thesis unfolding loop_literal [OF h sp] s by (fastforce simp: bindR_eq_Inr)
  qed
qed

lemma string_text_plain:
  "string_text \<lparr>ps_flags = 0, ps_base = 10, ps_field_width = -1, ps_precision = -1\<rparr> str = (case str of None \<Rightarrow> ''(null)'' | Some t \<Rightarrow> t)"
proof -
  have "s16 (-2) = -2" by code_simp
  then show ?thesis by (simp add: string_text_def str_pad_def Let_def split: option.splits)
qed

lemma prints_piece:
  assumes "piece_ok p" "prints ptr fmt args text"
  shows "prints ptr (piece_fmt p @ fmt) (piece_args p @ args) (piece_text p @ text)"
proof (cases p)
  case (Lit s)
  then show ?thesis using prints_literal assms by simp
qed (use assms(2) in \<open>auto simp: prints_def loop_directive [OF decode_pieces(1)] loop_directive [OF decode_pieces(2)]
    loop_directive [OF decode_pieces(3)] loop_directive [OF decode_pieces(4)] loop_directive [OF decode_pieces(5)]
    print_step_def fmt_d_def fmt_u_def arg_num_def string_text_plain\<close>)

lemma prints_pieces:
  "list_all piece_ok ps \<Longrightarrow> prints ptr (concat (map piece_fmt ps)) (concat (map piece_args ps)) (concat (map piece_text ps))"
  by (induction ps) (simp_all add: prints_Nil prints_piece)

lemma prints_start: "prints ptr fmt args text \<Longrightarrow> vsnprintf_loop ptr fmt spec_start args 0 = Inr (text, [])"
  by (simp add: prints_def spec_start_def pending_def)

section \<open>Properties\<close>

text \<open>C35. \<^verbatim>\<open>vsnprintf\<close> and \<^verbatim>\<open>vscnprintf\<close> print a format piece by piece: for any sequence of literal texts and \<^verbatim>\<open>%d\<close>,
  \<^verbatim>\<open>%u\<close>, \<^verbatim>\<open>%lu\<close>, \<^verbatim>\<open>%llu\<close>, \<^verbatim>\<open>%s\<close> directives the arguments are consumed in order, the text is the concatenation of the
  texts of the pieces, \<^verbatim>\<open>vsnprintf\<close> returns its length, at most one character less than the size is stored, and
  \<^verbatim>\<open>vscnprintf\<close> returns how many.\<close>

theorem vsnprintf_pieces:
  assumes "list_all piece_ok ps" "text = concat (map piece_text ps)" "int (length text) < 2 ^ 31"
    and "0 \<le> buf" "0 \<le> sz" "sz < 2 ^ 31" "buf + sz < 2 ^ 32"
  shows "vsnprintf ptr buf sz (concat (map piece_fmt ps)) (concat (map piece_args ps)) = Inr (int (length text), take (nat (sz - 1)) text, []) \<and>
    vscnprintf ptr buf sz (concat (map piece_fmt ps)) (concat (map piece_args ps)) =
      Inr (int (length (take (nat (sz - 1)) text)), take (nat (sz - 1)) text, [])"
proof -
  have l: "s32 (int (length text)) = int (length text)" "s32 sz = sz" "u32 (int (length text)) = int (length text)"
    using assms by (simp_all add: s32_id u32_id)
  have r: "buf_room buf sz = sz" using assms by (simp add: buf_room_def u32_id)
  have v: "vsnprintf ptr buf sz (concat (map piece_fmt ps)) (concat (map piece_args ps)) = Inr (int (length text), take (nat (sz - 1)) text, [])"
    using prints_start [OF prints_pieces [OF assms(1)]] assms(2,5) l r by (simp add: vsnprintf_def)
  then show ?thesis using assms(5,6) l by (auto simp: vscnprintf_def s32_id)
qed

theorem vsnprintf_pieces_witness:
  "vsnprintf (\<lambda>_ _ _. []) 4096 8 ''pid %d%s'' [ArgInt (-12), ArgStr (Some ''!'')] = Inr (8, ''pid -12'', []) \<and>
   vscnprintf (\<lambda>_ _ _. []) 4096 8 ''pid %d%s'' [ArgInt (-12), ArgStr (Some ''!'')] = Inr (7, ''pid -12'', [])"
proof -
  have t: "''pid -12!'' = concat (map piece_text [Lit ''pid '', Dec (-12), Txt (Some ''!'')])" by code_simp
  show ?thesis
    using vsnprintf_pieces [OF _ t, of 4096 8 "\<lambda>_ _ _. []"] by (simp add: numeral_nat)
qed

end
