(* ===== verification/Psdev.thy ===== *)
theory Psdev
  imports Taskmon
begin

text \<open>
  Listing the real-time threads: the system calls of \<^verbatim>\<open>rtes/kernel/ps.c\<close>, the device node
  \<^verbatim>\<open>rtes/modules/psdev/psdev.c\<close>, and the program \<^verbatim>\<open>rtes/apps/rtps/rtps.c\<close>.
  \<^item> The device keeps one open count and the number of processes it has already shown (\<open>psdev\<close>).
  \<^item> What the device writes, the Android application reads back line by line (\<open>Jni\<close>).
  \<^item> The program asks for the number of threads and then for the list; the two calls may see different
    states, so they are two arguments.
\<close>

section \<open>The code\<close>

subsection \<open>System calls\<close>

record proc_struct =
  ps_pid :: int
  ps_tgid :: int
  ps_rt_priority :: int
  ps_comm :: string

definition rt_policy :: "task_struct \<Rightarrow> bool" where
  "rt_policy p \<longleftrightarrow> t_policy p = SCHED_FIFO \<or> t_policy p = SCHED_RR"

fun count_loop :: "kst \<Rightarrow> tptr list \<Rightarrow> int \<Rightarrow> int" where
  "count_loop s [] threads_count = threads_count"
| "count_loop s (p # ps) threads_count =
     count_loop s ps (if rt_policy (task s p) then s32 (threads_count + 1) else threads_count)"

definition count_rt_threads :: "kst \<Rightarrow> int" where
  "count_rt_threads s = count_loop s (for_each_process s) 0"

definition proc_entry :: "task_struct \<Rightarrow> proc_struct" where
  "proc_entry p = \<lparr>ps_pid = t_pid p, ps_tgid = t_tgid p, ps_rt_priority = t_rt_priority p, ps_comm = t_comm p\<rparr>"

text \<open>The entries written into the caller's array, in order. A negative length is never counted down to 0.\<close>

fun list_loop :: "kst \<Rightarrow> tptr list \<Rightarrow> int \<Rightarrow> proc_struct list" where
  "list_loop s [] len = []"
| "list_loop s (p # ps) len =
     (if len = 0 then []
      else if rt_policy (task s p) then proc_entry (task s p) # list_loop s ps (s32 (len - 1))
      else list_loop s ps len)"

definition list_rt_threads :: "kst \<Rightarrow> int \<Rightarrow> proc_struct list" where
  "list_rt_threads s len = list_loop s (for_each_process s) len"

subsection \<open>The device\<close>

record psdev =
  Device_Open :: int
  process_cnt :: int

definition BUF_LEN :: int where "BUF_LEN = 200"

text \<open>\<open>major\<close> is what \<^verbatim>\<open>register_chrdev\<close> returns.\<close>

definition psdev_init :: "int \<Rightarrow> int" where
  "psdev_init major = (if major < 0 then major else 0)"

definition device_open :: "psdev \<Rightarrow> int \<times> psdev" where
  "device_open d =
     (if Device_Open d \<noteq> 0 then (- EBUSY, d)
      else (0, d\<lparr>Device_Open := Device_Open d + 1, process_cnt := 0\<rparr>))"

definition device_release :: "psdev \<Rightarrow> int \<times> psdev" where
  "device_release d = (0, d\<lparr>Device_Open := Device_Open d - 1\<rparr>)"

definition device_line :: "task_struct \<Rightarrow> string" where
  "device_line p =
     fmt_d (t_pid p) @ [CHR 0x09] @ fmt_d (t_tgid p) @ [CHR 0x09] @ fmt_d (s32 (t_rt_priority p)) @ [CHR 0x09] @ t_comm p @ newline"

fun read_loop :: "kst \<Rightarrow> int \<Rightarrow> tptr list \<Rightarrow> int \<Rightarrow> nat \<Rightarrow> string res" where
  "read_loop s cnt [] temp len = Inr []"
| "read_loop s cnt (p # ps) temp len =
     (let temp = temp + 1 in
      if temp \<le> cnt \<and> cnt > 0 then read_loop s cnt ps temp len
      else if rt_policy (task s p) then
        (let line = device_line (task s p) in
         if int (length line) + 1 > BUF_LEN then Inl OutOfBounds
         else bindR (read_loop s cnt ps temp (len - length line)) (\<lambda>rest. Inr (take len line @ rest)))
      else read_loop s cnt ps temp len)"

definition device_read :: "kst \<Rightarrow> psdev \<Rightarrow> nat \<Rightarrow> (int \<times> string \<times> psdev) res" where
  "device_read s d len =
     bindR (read_loop s (process_cnt d) (for_each_process s) 0 len) (\<lambda>buffer.
       let temp_pro_cnt = int (length (for_each_process s))
       in Inr (int (length buffer), buffer,
               if temp_pro_cnt > process_cnt d then d\<lparr>process_cnt := temp_pro_cnt\<rparr> else d))"

definition device_write :: "psdev \<Rightarrow> int \<times> psdev" where
  "device_write d = (- EINVAL, d)"

subsection \<open>The program\<close>

definition rtps_line :: "proc_struct \<Rightarrow> string" where
  "rtps_line p =
     fmt_d (ps_pid p) @ [CHR 0x09] @ fmt_d (ps_tgid p) @ [CHR 0x09] @ fmt_d (s32 (ps_rt_priority p)) @ [CHR 0x09] @ ps_comm p @ newline"

text \<open>One round of the loop: entries that the second call did not write are read uninitialised.\<close>

definition rtps_round :: "kst \<Rightarrow> kst \<Rightarrow> string res" where
  "rtps_round s1 s2 =
     (let n = count_rt_threads s1; ps = list_rt_threads s2 n in
      if int (length ps) < n then Inl Uninitialised
      else Inr (concat (map rtps_line (sort_key (\<lambda>p. s32 (ps_rt_priority p)) ps))))"

section \<open>The lists\<close>

definition rt_procs :: "kst \<Rightarrow> tptr list" where
  "rt_procs s = filter (\<lambda>p. rt_policy (task s p)) (for_each_process s)"

lemma count_loop_eq:
  assumes "0 \<le> n" "n + int (length ps) < 2 ^ 31"
  shows "count_loop s ps n = n + int (length (filter (\<lambda>p. rt_policy (task s p)) ps))"
  using assms
proof (induction ps arbitrary: n)
  case (Cons p ps)
  have "s32 (n + 1) = n + 1" using Cons.prems by (intro s32_id) simp_all
  with Cons show ?case by simp
qed simp

lemma list_loop_eq:
  assumes "0 \<le> len" "len < 2 ^ 31"
  shows "list_loop s ps len = map (\<lambda>p. proc_entry (task s p)) (take (nat len) (filter (\<lambda>p. rt_policy (task s p)) ps))"
  using assms
proof (induction ps arbitrary: len)
  case (Cons p ps)
  show ?case
  proof (cases "len = 0")
    case False
    then have "s32 (len - 1) = len - 1" "nat len = Suc (nat (len - 1))" using Cons.prems by (auto intro!: s32_id)
    with Cons False show ?thesis by simp
  qed simp
qed simp

lemma rt_threads_counted:
  assumes "int (length (for_each_process s)) < 2 ^ 31"
  shows "count_rt_threads s = int (length (rt_procs s))" "int (length (rt_procs s)) < 2 ^ 31"
proof -
  show "count_rt_threads s = int (length (rt_procs s))"
    using assms count_loop_eq [of 0 "for_each_process s" s] by (simp add: count_rt_threads_def rt_procs_def)
  have "length (rt_procs s) \<le> length (for_each_process s)" by (simp add: rt_procs_def)
  with assms show "int (length (rt_procs s)) < 2 ^ 31" by simp
qed

lemma rt_threads_listed:
  "0 \<le> len \<Longrightarrow> len < 2 ^ 31 \<Longrightarrow> list_rt_threads s len = map (\<lambda>p. proc_entry (task s p)) (take (nat len) (rt_procs s))"
  unfolding list_rt_threads_def rt_procs_def by (rule list_loop_eq)

text \<open>If nothing changes in between, every real-time process is listed once, in order of priority.\<close>

lemma rtps_complete:
  assumes "int (length (for_each_process s)) < 2 ^ 31"
  shows "rtps_round s s = Inr (concat (map rtps_line (sort_key (\<lambda>p. s32 (ps_rt_priority p)) (map (\<lambda>p. proc_entry (task s p)) (rt_procs s)))))"
  using rt_threads_counted [OF assms] rt_threads_listed [of "count_rt_threads s" s]
  by (simp add: rtps_round_def Let_def)

text \<open>If a real-time process ends between the two calls, uninitialised memory is printed.\<close>

lemma rtps_race:
  assumes "int (length (for_each_process s1)) < 2 ^ 31" "length (rt_procs s2) < length (rt_procs s1)"
  shows "rtps_round s1 s2 = Inl Uninitialised"
  using rt_threads_counted [OF assms(1)] rt_threads_listed [of "count_rt_threads s1" s2] assms(2)
  by (simp add: rtps_round_def Let_def)

section \<open>The device\<close>

text \<open>Names have at most 15 characters, so a line fits the buffer of the module.\<close>

definition comm_ok :: "task_struct \<Rightarrow> bool" where
  "comm_ok p \<longleftrightarrow> length (t_comm p) \<le> 15 \<and> 0 \<le> t_pid p \<and> t_pid p < 2 ^ 31 \<and> 0 \<le> t_tgid p \<and> t_tgid p < 2 ^ 31 \<and>
     0 \<le> t_rt_priority p \<and> t_rt_priority p < 2 ^ 31"

lemma fmt_d_short: "0 \<le> n \<Longrightarrow> n < 2 ^ 31 \<Longrightarrow> length (fmt_d n) \<le> 10"
  using length_decimal [of n 10] by (simp add: fmt_d_decimal)

lemma device_line_short: "comm_ok p \<Longrightarrow> length (device_line p) \<le> 49"
  using fmt_d_short [of "t_pid p"] fmt_d_short [of "t_tgid p"] fmt_d_short [of "t_rt_priority p"]
  by (simp add: comm_ok_def device_line_def newline_def s32_id)

definition device_text :: "kst \<Rightarrow> string" where
  "device_text s = concat (map (\<lambda>p. device_line (task s p)) (rt_procs s))"

lemma read_loop_fresh:
  assumes "\<forall>p\<in>set ps. comm_ok (task s p)" "0 \<le> temp"
  shows "read_loop s 0 ps temp len = Inr (take len (concat (map (\<lambda>p. device_line (task s p)) (filter (\<lambda>p. rt_policy (task s p)) ps))))"
  using assms
proof (induction ps arbitrary: temp len)
  case (Cons p ps)
  have "length (device_line (task s p)) \<le> 49" using Cons.prems by (intro device_line_short) simp
  with Cons show ?case by (simp add: BUF_LEN_def Let_def)
qed simp

text \<open>The first read after opening gives the lines of all real-time processes, cut off at the length of the
  buffer; the next read gives the end of the file, also when lines were cut off.\<close>

lemma device_read_first:
  assumes "\<forall>p\<in>set (for_each_process s). comm_ok (task s p)" "process_cnt d = 0"
  shows "\<exists>d'. device_read s d len = Inr (int (length (take len (device_text s))), take len (device_text s), d') \<and>
    process_cnt d' = int (length (for_each_process s)) \<and> Device_Open d' = Device_Open d"
  using assms read_loop_fresh [OF assms(1), of 0 len] by (auto simp: device_read_def device_text_def rt_procs_def)

lemma read_loop_seen:
  assumes "temp + int (length ps) \<le> cnt" "0 < cnt"
  shows "read_loop s cnt ps temp len = Inr []"
  using assms by (induction ps arbitrary: temp) auto

lemma device_read_again:
  assumes "process_cnt d = int (length (for_each_process s))" "for_each_process s \<noteq> []"
  shows "device_read s d len = Inr (0, [], d)"
  using assms read_loop_seen [of 0 "for_each_process s" "process_cnt d" s len] by (simp add: device_read_def)

end
