(* ===== verification/Jni.thy ===== *)
theory Jni
  imports Psdev
begin

text \<open>
  The native side of the Android application (\<^verbatim>\<open>taskmon/TaskMon/jni/taskmon-jni.c\<close>), over the models of the
  system calls, the device and the files it uses.
  \<^item> A file below \<^verbatim>\<open>/sys/rtes\<close> can be opened when the module has created it.
  \<^item> The C library functions are modelled as far as they are called: \<^verbatim>\<open>atoi\<close> on numbers that fit an \<^verbatim>\<open>int\<close>, and
    \<^verbatim>\<open>sscanf\<close>, which for these formats agrees with the kernel's.
\<close>

section \<open>The code\<close>

subsection \<open>Lines\<close>

definition BUFSIZE :: nat where "BUFSIZE = 8096"
definition ARRAYSIZE :: nat where "ARRAYSIZE = 1000"

text \<open>The source is the memory from \<^verbatim>\<open>srcbuf\<close> to the end of its array; the characters stored in
  \<^verbatim>\<open>destbuf\<close> come with the result.\<close>

fun bufreadline :: "string \<Rightarrow> nat \<Rightarrow> nat \<Rightarrow> (nat \<times> string) res" where
  "bufreadline src 0 destsize = Inr (0, [])"
| "bufreadline src (Suc srcsize) 0 = Inr (0, [])"
| "bufreadline [] (Suc srcsize) (Suc destsize) = Inl OutOfBounds"
| "bufreadline (c # src) (Suc srcsize) (Suc destsize) =
     (if c = CHR 0x0A then Inr (1, [c])
      else if c = CHR 0x00 then Inr (0, [c])
      else bindR (bufreadline src srcsize destsize) (\<lambda>(i, t). Inr (Suc i, c # t)))"

definition c_string :: "string \<Rightarrow> string" where
  "c_string mem = takeWhile (\<lambda>c. c \<noteq> CHR 0x00) mem"

subsection \<open>The list of threads\<close>

text \<open>The loop over the lines: \<open>mem\<close> is the whole buffer and \<open>readline\<close> what earlier lines left behind.\<close>

partial_function (option) rel_loop :: "string \<Rightarrow> int \<Rightarrow> nat \<Rightarrow> string \<Rightarrow> int list \<Rightarrow> int list res option" where
  "rel_loop mem n readcount readline fill =
     (if int readcount < n then
        (case bufreadline (drop readcount mem) BUFSIZE BUFSIZE of
           Inl err \<Rightarrow> Some (Inl err)
         | Inr (i, t) \<Rightarrow>
             let readline' = t @ drop (length t) readline in
             (case snd (sscanf (c_string readline') ''%d %d %d %s'') of
                ScanInt tid # _ \<Rightarrow>
                  (if ARRAYSIZE \<le> length fill then Some (Inl OutOfBounds)
                   else rel_loop mem n (readcount + i) readline' (fill @ [tid]))
              | _ \<Rightarrow> Some (Inl Uninitialised)))
      else Some (Inr fill))"

declare rel_loop.simps [code]

text \<open>\<open>array\<close> says whether the virtual machine can make the array. The returns without a list do not close the
  device.\<close>

definition getRelTID :: "kst \<Rightarrow> bool \<Rightarrow> psdev \<Rightarrow> (int list option \<times> psdev) res" where
  "getRelTID s array d =
     (let (r, d1) = device_open d in
      if r \<noteq> 0 then Inr (None, d1)
      else
        bindR (device_read s d1 BUFSIZE) (\<lambda>(n, buf, d2).
          if n = 0 then Inr (None, d2)
          else
            bindR (the_loop (rel_loop (buf @ replicate (BUFSIZE - length buf) (CHR 0x00)) n 0 (replicate BUFSIZE (CHR 0x00)) [])) (\<lambda>fill.
              if \<not> array then Inr (None, d2) else Inr (Some fill, snd (device_release d2)))))"

text \<open>The directory entries, including the two for the directory itself and its parent.\<close>

fun atoi_digits :: "string \<Rightarrow> int \<Rightarrow> int" where
  "atoi_digits [] n = n"
| "atoi_digits (c # cs) n = (if isdigit c then atoi_digits cs (n * 10 + (ord_c c - 48)) else n)"

definition atoi :: "string \<Rightarrow> int" where
  "atoi str =
     (case skip_spaces str of
        [] \<Rightarrow> 0
      | c # cs \<Rightarrow> if c = CHR ''-'' then - atoi_digits cs 0 else if c = CHR ''+'' then atoi_digits cs 0 else atoi_digits (c # cs) 0)"

fun reserved_loop :: "string list \<Rightarrow> int option list \<Rightarrow> int option list res" where
  "reserved_loop [] tidarray = Inr tidarray"
| "reserved_loop (name # names) tidarray =
     (if ARRAYSIZE \<le> length tidarray \<and> atoi name > 0 then Inl OutOfBounds
      else reserved_loop names (tidarray @ [if atoi name > 0 then Some (atoi name) else None]))"

definition getReservedTID :: "string list option \<Rightarrow> bool \<Rightarrow> int list option res" where
  "getReservedTID entries array =
     (case entries of
        None \<Rightarrow> Inr None
      | Some names \<Rightarrow>
          bindR (reserved_loop names []) (\<lambda>tidarray.
            if \<not> array then Inr None
            else if None \<in> set tidarray then Inl Uninitialised
            else Inr (Some (map the tidarray))))"

subsection \<open>Reservations and files\<close>

definition ms_timespec :: "int \<Rightarrow> timespec" where
  "ms_timespec ms = \<lparr>tv_sec = ms sdiv 1000, tv_nsec = s32 ((ms smod 1000) * 1000000)\<rparr>"

definition setReserve :: "kenv \<Rightarrow> int \<Rightarrow> int \<Rightarrow> int \<Rightarrow> int \<Rightarrow> kst \<Rightarrow> (int \<times> kst) res" where
  "setReserve e tid c t cpuID s =
     (if c > t then Inr (-1, s)
      else if cpuID < 0 \<or> cpuID > 3 then Inr (-1, s)
      else set_reserve e s tid (Some (ms_timespec c)) (Some (ms_timespec t)) cpuID)"

definition cancelReserve :: "kenv \<Rightarrow> int \<Rightarrow> kst \<Rightarrow> (int \<times> kst) res" where
  "cancelReserve e tid s = bindR (cancel_reserve e s tid) (\<lambda>(r, s1). Inr (if r \<noteq> 0 then -1 else 0, s1))"

definition file_exists :: "kst \<Rightarrow> nat \<Rightarrow> string \<Rightarrow> bool" where
  "file_exists s dir name \<longleftrightarrow> dir \<noteq> 0 \<and> (dir, name) \<in> set (sysfs s)"

definition taskmonEnable :: "kenv \<Rightarrow> kst \<Rightarrow> (int \<times> kst) res" where
  "taskmonEnable e s =
     (if \<not> file_exists s (taskmon_kobj s) ''enabled'' then Inr (-2, s)
      else bindR (enabled_store e ''1'' s) (\<lambda>(_, s1). Inr (0, s1)))"

definition taskmonDisable :: "kenv \<Rightarrow> kst \<Rightarrow> (int \<times> kst) res" where
  "taskmonDisable e s =
     (if \<not> file_exists s (taskmon_kobj s) ''enabled'' then Inr (-1, s)
      else bindR (enabled_store e ''0'' s) (\<lambda>(_, s1). Inr (0, s1)))"

text \<open>Reading a number from a file: the codes for a file that is missing and for one that is empty differ
  between the functions.\<close>

definition read_number :: "bool \<Rightarrow> int \<Rightarrow> int \<Rightarrow> string \<Rightarrow> int" where
  "read_number exists_file missing no_text text =
     (if \<not> exists_file then missing
      else if text = [] then no_text
      else case sscanf text ''%d'' of (n, ScanInt v # _) \<Rightarrow> if n = 1 then v else -1 | _ \<Rightarrow> -1)"

definition getFreq :: "kenv \<Rightarrow> kst \<Rightarrow> int" where
  "getFreq e s = read_number (file_exists s (rtes_kobj s) ''freq'') (-2) (-1) (snd (freq_show e s))"

definition getPower :: "kenv \<Rightarrow> kst \<Rightarrow> int res" where
  "getPower e s = bindR (power_show e s) (\<lambda>(_, text). Inr (read_number (file_exists s (rtes_kobj s) ''power'') (-3) (-2) text))"

definition getEnergy :: "kst \<Rightarrow> int" where
  "getEnergy s = read_number (file_exists s (rtes_kobj s) ''energy'') (-3) (-2) (snd (total_energy_show s))"

definition getUtil :: "int \<Rightarrow> kst \<Rightarrow> (string option \<times> kst) res" where
  "getUtil tid s =
     (if \<not> file_exists s (util_kobj s) (fmt_d tid) then Inr (None, s)
      else bindR (tid_show (fmt_d tid) s) (\<lambda>(n, text, s1). Inr (if n = 0 then None else Some text, s1)))"

section \<open>The list of threads\<close>

lemma bufreadline_line:
  assumes "\<forall>c\<in>set body. c \<noteq> CHR 0x0A \<and> c \<noteq> CHR 0x00" "length body < srcsize" "length body < destsize"
  shows "bufreadline (body @ CHR 0x0A # later) srcsize destsize = Inr (Suc (length body), body @ [CHR 0x0A])"
  using assms
proof (induction body arbitrary: srcsize destsize)
  case Nil
  then show ?case by (cases srcsize; cases destsize) simp_all
next
  case (Cons c body)
  then show ?case by (cases srcsize; cases destsize) simp_all
qed

text \<open>What has been scanned stays.\<close>

lemma scan_tail_prefix: "\<exists>ys. snd (scan_tail fmt pos num out) = out @ ys"
  by (simp add: scan_tail_def)

lemma scan_conv_prefix:
  "scan_conv buf fmt pos num out = Inl r \<Longrightarrow> \<exists>ys. snd r = out @ ys"
  "scan_conv buf fmt pos num out = Inr (f', pos', num', out') \<Longrightarrow> \<exists>ys. out' = out @ ys"
  using scan_tail_prefix
  by (fastforce simp: scan_conv_def Let_def split: if_splits prod.splits)+

lemma vsscanf_prefix: "\<exists>ys. snd (vsscanf_loop buf fmt pos num out) = out @ ys"
proof (induction buf fmt pos num out rule: vsscanf_loop.induct)
  case (1 buf fmt pos num out)
  let ?sp = "isspace (hd fmt)"
  let ?f1 = "if ?sp then skip_spaces (tl fmt) else fmt"
  let ?p1 = "if ?sp then skip_spaces_at buf pos else pos"
  show ?case
  proof (cases "fmt = [] \<or> char_at buf pos = CHR 0x00 \<or> ?f1 = [] \<or> hd ?f1 \<noteq> CHR ''%''")
    case True
    then show ?thesis
      using 1(1) scan_tail_prefix by (subst vsscanf_loop.simps) (auto simp: Let_def)
  next
    case False
    show ?thesis
    proof (cases "scan_conv buf ?f1 ?p1 num out")
      case (Inl r)
      with False scan_conv_prefix(1) [OF Inl] show ?thesis by (subst vsscanf_loop.simps) (simp add: Let_def)
    next
      case (Inr x)
      obtain f' pos' num' out' where x: "x = (f', pos', num', out')" by (cases x) auto
      with Inr have c: "scan_conv buf ?f1 ?p1 num out = Inr (f', pos', num', out')" by simp
      from False x Inr have "\<exists>ys. snd (vsscanf_loop buf f' pos' num' out') = out' @ ys" by (intro 1(2)) simp_all
      moreover have "vsscanf_loop buf fmt pos num out = vsscanf_loop buf f' pos' num' out'"
        using False c by (subst vsscanf_loop.simps) (simp add: Let_def)
      ultimately show ?thesis using scan_conv_prefix(2) [OF c] by force
    qed
  qed
qed

lemma sscanf_device_line:
  assumes "comm_ok p"
  shows "\<exists>ys. snd (sscanf (device_line p @ junk) ''%d %d %d %s'') = ScanInt (t_pid p) # ys"
proof -
  let ?ns = "[t_pid p, t_tgid p, t_rt_priority p]" and ?tab = "CHR 0x09"
  let ?rest = "?tab # t_comm p @ newline @ junk" and ?buf = "device_line p @ junk"
  have r: "s32 (t_rt_priority p) = t_rt_priority p" using assms by (simp add: comm_ok_def s32_id)
  have t: "isspace ?tab" by (simp add: isspace_def ord_c_def)
  have "vsscanf_loop ?buf (ints_fmt (length ?ns) @ '' %s'') 0 0 [] =
      vsscanf_loop ?buf '' %s'' (length ?buf - length ?rest) (0 + int (length ?ns)) ([] @ map ScanInt ?ns)"
    using assms t isspace_not_special [OF t]
    by (intro scan_ints [where sep = ?tab]) (simp_all add: device_line_def r comm_ok_def number_ends_def)
  moreover have "ints_fmt (length ?ns) @ '' %s'' = ''%d %d %d %s''" by simp
  ultimately show ?thesis
    using vsscanf_prefix [of ?buf "'' %s''" "length ?buf - length ?rest" 3 "map ScanInt ?ns"] by (auto simp: sscanf_def)
qed

definition comm_text :: "task_struct \<Rightarrow> bool" where
  "comm_text p \<longleftrightarrow> comm_ok p \<and> (\<forall>c\<in>set (t_comm p). c \<noteq> CHR 0x0A \<and> c \<noteq> CHR 0x00)"

lemma device_line_body:
  assumes "comm_text p"
  shows "\<exists>body. device_line p = body @ [CHR 0x0A] \<and> (\<forall>c\<in>set body. c \<noteq> CHR 0x0A \<and> c \<noteq> CHR 0x00)"
proof -
  have d: "c \<noteq> CHR 0x0A \<and> c \<noteq> CHR 0x00" if "c \<in> set (fmt_d n)" "0 \<le> n" "n < 2 ^ 31" for c n
    using that isdigit_decimal [of n c] by (auto simp: fmt_d_decimal isdigit_def ord_c_def)
  have r: "s32 (t_rt_priority p) = t_rt_priority p" using assms by (simp add: comm_text_def comm_ok_def s32_id)
  let ?body = "fmt_d (t_pid p) @ [CHR 0x09] @ fmt_d (t_tgid p) @ [CHR 0x09] @ fmt_d (t_rt_priority p) @ [CHR 0x09] @ t_comm p"
  have "\<forall>c\<in>set ?body. c \<noteq> CHR 0x0A \<and> c \<noteq> CHR 0x00"
    using assms d [of _ "t_pid p"] d [of _ "t_tgid p"] d [of _ "t_rt_priority p"] by (auto simp: comm_text_def comm_ok_def)
  moreover have "device_line p = ?body @ [CHR 0x0A]" by (simp add: device_line_def r newline_def)
  ultimately show ?thesis by blast
qed

lemma rel_loop_lines:
  assumes "drop readcount mem = concat (map device_line ps) @ zeros" "n = int readcount + int (length (concat (map device_line ps)))"
    "\<forall>p\<in>set ps. comm_text p" "length fill + length ps \<le> 1000"
  shows "rel_loop mem n readcount readline fill = Some (Inr (fill @ map t_pid ps))"
  using assms
proof (induction ps arbitrary: readcount readline fill)
  case Nil
  then show ?case by (simp add: rel_loop.simps)
next
  case (Cons p ps)
  let ?line = "device_line p"
  obtain body where b: "?line = body @ [CHR 0x0A]" "\<forall>c\<in>set body. c \<noteq> CHR 0x0A \<and> c \<noteq> CHR 0x00"
    using device_line_body [of p] Cons.prems(3) by auto
  have short: "length ?line \<le> 49" using Cons.prems(3) by (intro device_line_short) (simp add: comm_text_def)
  have rl: "bufreadline (drop readcount mem) BUFSIZE BUFSIZE = Inr (length ?line, ?line)"
    using bufreadline_line [OF b(2), of BUFSIZE BUFSIZE "concat (map device_line ps) @ zeros"] Cons.prems(1) b(1) short
    by (simp add: BUFSIZE_def)
  let ?junk = "drop (length ?line) readline"
  have "c_string (?line @ ?junk) = ?line @ c_string ?junk" using b by (simp add: c_string_def)
  then obtain ys where sc: "snd (sscanf (c_string (?line @ ?junk)) ''%d %d %d %s'') = ScanInt (t_pid p) # ys"
    using sscanf_device_line [of p "c_string ?junk"] Cons.prems(3) by (auto simp: comm_text_def)
  have "drop (readcount + length ?line) mem = drop (length ?line) (drop readcount mem)" by (simp add: add.commute)
  then have "drop (readcount + length ?line) mem = concat (map device_line ps) @ zeros" using Cons.prems(1) by simp
  then have "rel_loop mem n (readcount + length ?line) (?line @ ?junk) (fill @ [t_pid p]) = Some (Inr ((fill @ [t_pid p]) @ map t_pid ps))"
    using Cons.prems by (intro Cons.IH) simp_all
  moreover have "int readcount < n" "\<not> ARRAYSIZE \<le> length fill" using Cons.prems b(1) by (simp_all add: ARRAYSIZE_def)
  ultimately show ?case by (subst rel_loop.simps) (simp add: rl sc Let_def)
qed

text \<open>Three processes of which two are real-time ones.\<close>

definition rt_pair :: kst where
  "rt_pair = upd_task 7 (\<lambda>p. p\<lparr>t_policy := SCHED_FIFO, t_comm := ''periodic''\<rparr>)
     (upd_task 9 (\<lambda>p. p\<lparr>t_policy := SCHED_RR, t_comm := ''audio''\<rparr>) (boot_state [7, 8, 9]))"



text \<open>With no real-time process the device is left open, and every later attempt to open it fails.\<close>

lemma getRelTID_leaks:
  assumes "Device_Open d = 0" "\<forall>p\<in>set (for_each_process s). comm_text (task s p)" "rt_procs s = []"
  shows "\<exists>d'. getRelTID s array d = Inr (None, d') \<and> fst (device_open d') = - EBUSY"
proof -
  let ?d1 = "d\<lparr>Device_Open := 1, process_cnt := 0\<rparr>"
  have "device_text s = []" using assms(3) by (simp add: device_text_def)
  then obtain d2 where "device_read s ?d1 BUFSIZE = Inr (0, [], d2)" "Device_Open d2 = 1"
    using device_read_first [of s ?d1 BUFSIZE] assms(2) by (auto simp: comm_text_def)
  then show ?thesis using assms(1) by (simp add: getRelTID_def device_open_def)
qed

text \<open>The list of reserved threads has a slot for every directory entry, and those of the two entries that are
  no numbers are never written.\<close>

lemma reserved_loop_none:
  assumes "name \<in> set names" "atoi name \<le> 0" "reserved_loop names acc = Inr arr"
  shows "None \<in> set arr"
proof -
  have keep: "set acc \<subseteq> set arr" if "reserved_loop names acc = Inr arr" for names acc
    using that by (induction names acc rule: reserved_loop.induct) (auto split: if_splits)
  show ?thesis using assms
    by (induction names arbitrary: acc) (auto split: if_splits dest: keep)
qed

lemma getReservedTID_uninitialised:
  assumes "''.'' \<in> set names" "length names \<le> 1000"
  shows "getReservedTID (Some names) True = Inl Uninitialised"
proof -
  have a: "atoi ''.'' = 0" by (simp add: atoi_def skip_spaces_def isspace_def isdigit_def ord_c_def)
  have "\<exists>arr. reserved_loop names acc = Inr arr" if "length acc + length names \<le> 1000" for names acc
    using that by (induction names arbitrary: acc) (simp_all add: ARRAYSIZE_def)
  then obtain arr where arr: "reserved_loop names [] = Inr arr" using assms(2) by (metis add_0 list.size(3))
  then have "None \<in> set arr" using reserved_loop_none [OF assms(1) _ arr] a by simp
  with arr show ?thesis by (simp add: getReservedTID_def)
qed

section \<open>Reservations and files\<close>

lemma ms_timespec_millis:
  assumes "0 \<le> ms" "ms < 2 ^ 31"
  shows "to_millis (ms_timespec ms) = ms"
proof -
  have m: "0 \<le> ms mod 1000" "ms mod 1000 \<le> 999" using assms by simp_all
  have "ms_timespec ms = \<lparr>tv_sec = ms div 1000, tv_nsec = ms mod 1000 * 1000000\<rparr>"
    using assms m by (simp add: ms_timespec_def sdiv_nonneg smod_nonneg s32_id)
  moreover have "ms div 1000 * 1000 + ms mod 1000 = ms" by simp
  ultimately show ?thesis using assms m by (simp add: to_millis_def sdiv_nonneg reserve_consts s32_id)
qed

lemma ms_args_ok:
  assumes "0 \<le> c" "c \<le> t" "0 < t" "t \<le> MAX_PERIOD" "c \<le> 214748"
  shows "args_ok (ms_timespec c) (ms_timespec t)"
  using assms by (simp add: args_ok_def ms_timespec_millis MAX_PERIOD_def)

lemma setReserve_checks:
  "c > t \<or> cpuID \<notin> {0..3} \<Longrightarrow> setReserve e tid c t cpuID s = Inr (-1, s)"
  by (auto simp: setReserve_def)

lemma read_number_reads:
  assumes "0 \<le> n" "n < 2 ^ 31"
  shows "read_number True a b (fmt_u n @ newline) = n"
proof -
  have "fmt_u n = fmt_d n" using assms by (simp add: fmt_u_decimal fmt_d_decimal)
  moreover have "number_ends newline" by (simp add: number_ends_def newline_def isxdigit_def isdigit_def ord_c_def)
  ultimately show ?thesis
    using sscanf_ints [of "[n]" "CHR '' ''" newline] assms by (simp add: read_number_def isspace_def ord_c_def newline_def)
qed

text \<open>What the application shows is what the kernel has.\<close>

lemma getFreq_reads:
  assumes "file_exists s (rtes_kobj s) ''freq''" "first_online s = Some c" "0 \<le> e_cpufreq_get e c" "e_cpufreq_get e c < 2 ^ 31"
  shows "getFreq e s = e_cpufreq_get e c div 1000"
proof -
  let ?n = "e_cpufreq_get e c div KHZ_PER_MHZ"
  have n: "0 \<le> ?n" "?n < 2 ^ 31" using assms(3,4) by (simp_all add: KHZ_PER_MHZ_def pos_imp_zdiv_nonneg_iff)
  then have "length (fmt_u ?n @ newline) < 4095"
    using length_decimal [of ?n 10] by (simp add: fmt_u_decimal newline_def)
  then have "snd (freq_show e s) = fmt_u ?n @ newline"
    using assms(2) by (simp add: freq_show_def scnprintf_def snprintf_def PAGE_SIZE_def)
  then show ?thesis using assms(1) read_number_reads [OF n] by (simp add: getFreq_def KHZ_PER_MHZ_def)
qed

lemma getEnergy_reads:
  assumes "file_exists s (rtes_kobj s) ''energy''" "0 \<le> total_energy s" "total_energy s < 2 ^ 32"
  shows "getEnergy s = total_energy s div 1000"
proof -
  let ?n = "total_energy s div MICRO_J_PER_MILLI_J"
  have n: "0 \<le> ?n" "?n < 2 ^ 31" using assms(2,3) by (simp_all add: MICRO_J_PER_MILLI_J_def pos_imp_zdiv_nonneg_iff)
  then have "length (fmt_u ?n @ newline) < 4095"
    using length_decimal [of ?n 10] by (simp add: fmt_u_decimal newline_def)
  then have "snd (total_energy_show s) = fmt_u ?n @ newline"
    by (simp add: total_energy_show_def scnprintf_def snprintf_def PAGE_SIZE_def)
  then show ?thesis using assms(1) read_number_reads [OF n] by (simp add: getEnergy_def MICRO_J_PER_MILLI_J_def)
qed

end
