(* ===== verification/Apps.thy ===== *)
theory Apps
  imports Jni
begin

text \<open>
  The command line programs of \<^verbatim>\<open>rtes/apps\<close> and the module \<^verbatim>\<open>rtes/modules/cleanup\<close>.
  \<^item> \<open>reserve_main\<close> makes and cancels reservations from its arguments; \<open>energymon_main\<close> prints what
    \<^verbatim>\<open>get_energy_info\<close> returns, for as many rounds as the environment lets it run.
  \<^item> The three periodic programs are their start (argument checks, timers, reservation) and the handlers of the
    signals that their timers send.
  \<^item> The module replaces two entries of the table of system calls and logs the files a process leaves open.
  \<open>argv\<close> includes the name of the program.
\<close>

section \<open>The code\<close>

subsection \<open>\<^verbatim>\<open>reserve\<close> and \<^verbatim>\<open>energymon\<close>\<close>

definition reserve_main :: "kenv \<Rightarrow> string list \<Rightarrow> kst \<Rightarrow> (int \<times> kst) res" where
  "reserve_main e argv s =
     (let argc = length argv in
      if argc \<noteq> 6 \<and> argc \<noteq> 3 then Inr (-1, s)
      else if argc = 6 \<and> strcmp (argv ! 1) ''set'' = 0 then
        (let tid = atoi (argv ! 2); c = atoi (argv ! 3); t = atoi (argv ! 4); cpu = atoi (argv ! 5) in
         if c > t then Inr (-1, s)
         else if cpu < -1 \<or> cpu > 3 then Inr (-1, s)
         else set_reserve e s tid (Some (ms_timespec c)) (Some (ms_timespec t)) cpu)
      else if argc = 3 \<and> strcmp (argv ! 1) ''cancel'' = 0 then cancel_reserve e s (atoi (argv ! 2))
      else Inr (0, s))"

text \<open>The copy of the program inside the Android application has no automatic placement and maps every error
  to -1.\<close>

definition jni_reserve_main :: "kenv \<Rightarrow> string list \<Rightarrow> kst \<Rightarrow> (int \<times> kst) res" where
  "jni_reserve_main e argv s =
     (let argc = length argv; fail = (\<lambda>(r, s1). Inr (if r \<noteq> 0 then -1 else 0, s1)) in
      if argc \<noteq> 6 \<and> argc \<noteq> 3 then Inr (-1, s)
      else if argc = 6 \<and> strcmp (argv ! 1) ''set'' = 0 then
        (let tid = atoi (argv ! 2); c = atoi (argv ! 3); t = atoi (argv ! 4); cpu = atoi (argv ! 5) in
         if c > t then Inr (-1, s)
         else if cpu < 0 \<or> cpu > 3 then Inr (-1, s)
         else bindR (set_reserve e s tid (Some (ms_timespec c)) (Some (ms_timespec t)) cpu) fail)
      else if argc = 3 \<and> strcmp (argv ! 1) ''cancel'' = 0 then bindR (cancel_reserve e s (atoi (argv ! 2))) fail
      else Inr (0, s))"

text \<open>One round of \<^verbatim>\<open>energymon\<close> per state of the list; the structure keeps the members of earlier rounds.\<close>

definition energymon_line :: "energy_struct \<Rightarrow> string res" where
  "energymon_line i =
     (case (es_freq i, es_power i, es_energy i) of
        (Some f, Some p, Some en) \<Rightarrow> Inr (fmt_u f @ [CHR 0x09] @ fmt_u p @ [CHR 0x09] @ fmt_u en @ newline)
      | _ \<Rightarrow> Inl Uninitialised)"

fun energymon_rounds :: "int \<Rightarrow> (kenv \<times> (nat \<Rightarrow> int) \<times> kst) list \<Rightarrow> string \<Rightarrow> (int option \<times> string) res" where
  "energymon_rounds tid [] out = Inr (None, out)"
| "energymon_rounds tid ((e, copy, s) # rounds) out =
     bindR (get_energy_info e copy tid s) (\<lambda>(retval, i).
       if retval \<noteq> 0 then Inr (Some retval, out)
       else bindR (energymon_line i) (\<lambda>line. energymon_rounds tid rounds (out @ line)))"

definition energymon_main :: "string list \<Rightarrow> (kenv \<times> (nat \<Rightarrow> int) \<times> kst) list \<Rightarrow> (int option \<times> string) res" where
  "energymon_main argv rounds =
     (if length argv \<noteq> 2 then Inr (Some (-1), [])
      else let tid = atoi (argv ! 1) in
        if tid < 0 then Inr (Some (-1), []) else energymon_rounds tid rounds [])"

subsection \<open>The periodic programs\<close>

type_synonym itimer_time = "int \<times> int"

record itimerval =
  it_value :: itimer_time
  it_interval :: itimer_time

definition ms_timeval :: "int \<Rightarrow> itimer_time" where
  "ms_timeval ms = (ms sdiv 1000, (ms smod 1000) * 1000)"

text \<open>What a program has set up when it enters its endless loop: its processor, the interval timer of its
  period, and the reservation it asked for.\<close>

record running =
  run_cpu :: int
  run_p_timer :: itimerval
  run_request :: "(timespec \<times> timespec \<times> int) option"

definition periodic_start :: "int \<Rightarrow> string list \<Rightarrow> (int \<Rightarrow> int \<Rightarrow> int \<Rightarrow> (timespec \<times> timespec \<times> int) option) \<Rightarrow> int + running" where
  "periodic_start max_cpu argv request =
     (if length argv \<noteq> 4 then Inl (-1)
      else
        let c = atoi (argv ! 1); t = atoi (argv ! 2); cpu = atoi (argv ! 3) in
        if c > t then Inl (-1)
        else if c > 60000 \<or> t > 60000 then Inl (-1)
        else if cpu < 0 \<or> cpu > max_cpu then Inl (-1)
        else Inr \<lparr>run_cpu = cpu, run_p_timer = \<lparr>it_value = ms_timeval t, it_interval = ms_timeval t\<rparr>, run_request = request c t cpu\<rparr>)"

definition periodic_main :: "string list \<Rightarrow> int + running" where
  "periodic_main argv = periodic_start 3 argv (\<lambda>c t cpu. None)"

definition easyperiodic_main :: "string list \<Rightarrow> int + running" where
  "easyperiodic_main argv = periodic_start 10 argv (\<lambda>c t cpu. Some (ms_timespec c, ms_timespec t, cpu))"

definition almostperiodic_main :: "string list \<Rightarrow> int + running" where
  "almostperiodic_main argv = periodic_start 10 argv (\<lambda>c t cpu. Some (ms_timespec t, ms_timespec t, cpu))"

text \<open>Every period starts a timer for the work of one job, once.\<close>

definition period_handler :: "int \<Rightarrow> itimerval" where
  "period_handler c = \<lparr>it_value = ms_timeval c, it_interval = (0, 0)\<rparr>"

text \<open>When the work is done, \<^verbatim>\<open>periodic\<close> sleeps for what is left of the period.\<close>

definition work_handler_sleep :: "itimer_time \<Rightarrow> timespec" where
  "work_handler_sleep left = \<lparr>tv_sec = fst left, tv_nsec = s32 (snd left * 1000)\<rparr>"

text \<open>\<^verbatim>\<open>almostperiodic\<close> misbehaves now and then: while \<^verbatim>\<open>bug_pause\<close> lasts it does not end its jobs. \<open>randout\<close>
  is the random number, at most \<^verbatim>\<open>RAND_MAX\<close>; the conversions through \<^verbatim>\<open>double\<close> truncate.\<close>

record almost =
  bug_timeout :: int
  bug_pause :: int

definition RAND_MAX :: int where "RAND_MAX = 2147483647"

definition work_handler_almost :: "int \<Rightarrow> int \<Rightarrow> almost \<Rightarrow> bool \<times> almost" where
  "work_handler_almost t randout a =
     (let a1 = (if bug_timeout a \<le> 0 \<and> bug_pause a \<le> 0
                then \<lparr>bug_timeout = (10 + 10 * randout div RAND_MAX) * 1000, bug_pause = (5 + 5 * randout div RAND_MAX) * 1000\<rparr>
                else a);
          ends = (bug_pause a1 \<le> 0);
          a2 = (if ends then a1 else a1\<lparr>bug_pause := s32 (bug_pause a1 - t)\<rparr>)
      in (ends, a2\<lparr>bug_timeout := s32 (bug_timeout a2 - t)\<rparr>))"

subsection \<open>The module \<^verbatim>\<open>cleanup\<close>\<close>

datatype handler = Original int | Custom_exit | Custom_exit_group

record cleanup =
  sys_call_table :: "int \<Rightarrow> handler"
  original_exit :: handler
  original_exit_group :: handler
  leaked :: nat

definition NR_exit :: int where "NR_exit = 1"
definition NR_exit_group :: int where "NR_exit_group = 248"

definition strstr :: "string \<Rightarrow> string \<Rightarrow> bool" where
  "strstr str part \<longleftrightarrow> (\<exists>i\<in>set [0..<Suc (length str)]. take (length part) (drop i str) = part)"

definition cleanup_init :: "string \<Rightarrow> cleanup \<Rightarrow> int \<times> cleanup" where
  "cleanup_init comm k =
     (if strcmp comm [] = 0 then (-1, k)
      else
        let k1 = k\<lparr>original_exit := sys_call_table k NR_exit, original_exit_group := sys_call_table k NR_exit_group\<rparr>
        in (0, k1\<lparr>sys_call_table := (sys_call_table k1)(NR_exit := Custom_exit, NR_exit_group := Custom_exit_group)\<rparr>))"

definition cleanup_exit :: "cleanup \<Rightarrow> cleanup" where
  "cleanup_exit k =
     k\<lparr>sys_call_table := (sys_call_table k)(NR_exit := original_exit k, NR_exit_group := original_exit_group k)\<rparr>"

text \<open>The descriptors of the process are the paths of its open files; the lines are those of the kernel log.
  The buffer is allocated on every call and never freed.\<close>

fun check_loop :: "string \<Rightarrow> int \<Rightarrow> string option list \<Rightarrow> nat \<Rightarrow> string list" where
  "check_loop name pid [] first_time = []"
| "check_loop name pid (None # fds) first_time = check_loop name pid fds first_time"
| "check_loop name pid (Some path # fds) first_time =
     (if first_time = 0 then [''cleanup: process '' @ [CHR 0x27] @ name @ [CHR 0x27] @ '' (PID '' @ fmt_d pid @ '') did not close files:''] else []) @
     (''cleanup: '' @ path) # check_loop name pid fds (Suc first_time)"

definition check_file_descriptors :: "string \<Rightarrow> string \<Rightarrow> int \<Rightarrow> string option list \<Rightarrow> cleanup \<Rightarrow> string list \<times> cleanup" where
  "check_file_descriptors comm name pid fds k =
     (if strstr name comm then check_loop name pid (drop 3 fds) 0 else [], k\<lparr>leaked := Suc (leaked k)\<rparr>)"

definition custom_exit :: "string \<Rightarrow> string \<Rightarrow> int \<Rightarrow> string option list \<Rightarrow> cleanup \<Rightarrow> string list \<times> handler \<times> cleanup" where
  "custom_exit comm name pid fds k =
     (let (log, k1) = check_file_descriptors comm name pid fds k in (log, original_exit k1, k1))"

definition custom_exit_group :: "string \<Rightarrow> string \<Rightarrow> int \<Rightarrow> string option list \<Rightarrow> cleanup \<Rightarrow> string list \<times> handler \<times> cleanup" where
  "custom_exit_group comm name pid fds k =
     (let (log, k1) = check_file_descriptors comm name pid fds k in (log, original_exit_group k1, k1))"

text \<open>\<^verbatim>\<open>test_cleanup\<close> opens \<^verbatim>\<open>temp.txt\<close> and leaves; \<open>path\<close> is where it is found, if it is. A file gets the lowest free descriptor.\<close>

fun open_fd :: "string \<Rightarrow> string option list \<Rightarrow> string option list" where
  "open_fd path [] = [Some path]"
| "open_fd path (None # fds) = Some path # fds"
| "open_fd path (Some other # fds) = Some other # open_fd path fds"

definition test_cleanup_main :: "string option \<Rightarrow> string option list \<Rightarrow> int \<times> string option list" where
  "test_cleanup_main path fds = (0, case path of None \<Rightarrow> fds | Some p \<Rightarrow> open_fd p fds)"

section \<open>The programs\<close>

text \<open>Arguments that name a thread without a reservation and a schedulable budget reach the kernel unchanged.\<close>

lemma atoi_fmt_d:
  assumes "- (2 ^ 31) \<le> n" "n < 2 ^ 31"
  shows "atoi (fmt_d n) = n"
proof -
  have loop: "atoi_digits xs a = dec_value a xs" if "\<forall>c\<in>set xs. isdigit c" for xs a
    using that by (induction xs arbitrary: a) (simp_all add: dec_value_def mult.commute)
  have dec: "atoi_digits (decimal m) 0 = m" if "0 \<le> m" for m
    using loop [of "decimal m" 0] isdigit_decimal [OF that] dec_value_decimal [OF that] by simp
  have first: "fmt_d n \<noteq> []" "\<not> isspace (hd (fmt_d n))" using fmt_d_first [OF assms] by simp_all
  then have sk: "skip_spaces (fmt_d n) = fmt_d n" by (cases "fmt_d n") (simp_all add: skip_spaces_def)
  show ?thesis
  proof (cases "0 \<le> n")
    case True
    then have f: "fmt_d n = decimal n" using assms by (simp add: fmt_d_decimal)
    obtain c cs where c: "decimal n = c # cs" using first(1) f by (cases "decimal n") auto
    have "isdigit c" using isdigit_decimal [OF True] c by simp
    then have "c \<noteq> CHR ''-''" "c \<noteq> CHR ''+''" by (auto simp: isdigit_def ord_c_def)
    then show ?thesis using dec [OF True] by (simp add: atoi_def sk) (simp add: f c)
  next
    case False
    then show ?thesis using assms sk dec [of "- n"] by (simp add: atoi_def fmt_d_negative)
  qed
qed

lemma reserve_main_set:
  assumes "- (2 ^ 31) \<le> tid" "tid < 2 ^ 31" "0 \<le> c" "c \<le> t" "t < 2 ^ 31" "-1 \<le> cpu" "cpu \<le> 3"
  shows "reserve_main e [prog, ''set'', fmt_d tid, fmt_d c, fmt_d t, fmt_d cpu] s =
    set_reserve e s tid (Some (ms_timespec c)) (Some (ms_timespec t)) cpu"
  using assms by (simp add: reserve_main_def strcmp_0_iff atoi_fmt_d)

text \<open>Processors 4 to 10 pass the checks of \<^verbatim>\<open>easyperiodic\<close>, but not those of the kernel: the program then runs
  without a reservation.\<close>

lemma easyperiodic_unreserved:
  assumes "0 \<le> c" "c \<le> t" "t \<le> 60000" "4 \<le> cpu" "cpu \<le> 10"
  shows "\<exists>r C T. easyperiodic_main [prog, fmt_d c, fmt_d t, fmt_d cpu] = Inr r \<and> run_request r = Some (C, T, cpu) \<and>
    set_reserve e s tid (Some C) (Some T) cpu = Inr (EINVAL, s)"
  using assms by (simp add: easyperiodic_main_def periodic_start_def atoi_fmt_d set_reserve_def)

text \<open>\<^verbatim>\<open>almostperiodic\<close> reserves its whole period whatever budget it is given.\<close>

lemma almostperiodic_full:
  assumes "0 \<le> c" "c \<le> t" "0 < t" "t \<le> 60000" "0 \<le> cpu" "cpu \<le> 3"
  shows "\<exists>r C T. almostperiodic_main [prog, fmt_d c, fmt_d t, fmt_d cpu] = Inr r \<and> run_request r = Some (C, T, cpu) \<and>
    to_millis C = t \<and> reserve_util (to_millis C) (to_millis T) = Inr UTIL_MULTIPLE"
  using assms by (simp add: almostperiodic_main_def periodic_start_def atoi_fmt_d ms_timespec_millis reserve_util_def
      reserve_consts c_div_nonneg s32_id)

text \<open>Its pause ends, if the period is short enough: after at most 10 s worth of periods a job is ended again.\<close>

fun almost_jobs :: "int \<Rightarrow> int list \<Rightarrow> almost \<Rightarrow> bool list" where
  "almost_jobs t [] a = []"
| "almost_jobs t (r # rs) a = (let (ends, a1) = work_handler_almost t r a in ends # almost_jobs t rs a1)"

lemma almost_pause_ends:
  assumes "0 < t" "t \<le> 60000" "0 < bug_pause a" "bug_pause a \<le> 10000" "bug_timeout a \<le> 20000" "- 2000000000 \<le> bug_timeout a - t * int (length rs)"
    "t \<le> bug_timeout a - bug_pause a" "bug_pause a \<le> t * int (length rs) - t"
  shows "True \<in> set (almost_jobs t rs a)"
  using assms
proof (induction rs arbitrary: a)
  case (Cons r rs)
  have p: "s32 (bug_pause a - t) = bug_pause a - t" using Cons.prems by (intro s32_id) simp_all
  have q: "s32 (bug_timeout a - t) = bug_timeout a - t" using Cons.prems by (intro s32_id) (simp_all add: algebra_simps)
  let ?a = "\<lparr>bug_timeout = bug_timeout a - t, bug_pause = bug_pause a - t\<rparr>"
  have h: "work_handler_almost t r a = (False, ?a)"
    using Cons.prems(3) by (simp add: work_handler_almost_def p q Let_def)
  show ?case
  proof (cases "bug_pause a - t \<le> 0")
    case False
    then have "True \<in> set (almost_jobs t rs ?a)" using Cons.prems by (intro Cons.IH) (simp_all add: algebra_simps)
    with h show ?thesis by simp
  next
    case True
    with Cons.prems obtain r' rs' where rs: "rs = r' # rs'" by (cases rs) auto
    have "fst (work_handler_almost t r' ?a)"
      using True Cons.prems(3,7) by (simp add: work_handler_almost_def Let_def)
    with h rs show ?thesis by (simp add: case_prod_beta)
  qed
qed simp

text \<open>With a period of 20 s or more both counters are used up by every single job, so that the pause starts over
  each time and no job is ever ended.\<close>

lemma almost_never_ends:
  assumes "20000 \<le> t" "t \<le> 60000" "\<forall>r\<in>set rs. 0 \<le> r \<and> r \<le> RAND_MAX" "bug_timeout a \<le> 0" "bug_pause a \<le> 0"
  shows "True \<notin> set (almost_jobs t rs a)"
  using assms
proof (induction rs arbitrary: a)
  case (Cons r rs)
  have r: "0 \<le> r" "r \<le> RAND_MAX" using Cons.prems(3) by simp_all
  let ?x = "(10 + 10 * r div RAND_MAX) * 1000" and ?y = "(5 + 5 * r div RAND_MAX) * 1000"
  have x: "10000 \<le> ?x" "?x \<le> 20000" "5000 \<le> ?y" "?y \<le> 10000"
    using r by (simp_all add: RAND_MAX_def)
  have "s32 (?x - t) = ?x - t" "s32 (?y - t) = ?y - t" using x Cons.prems(1,2) by (auto intro!: s32_id)
  then have h: "work_handler_almost t r a = (False, \<lparr>bug_timeout = ?x - t, bug_pause = ?y - t\<rparr>)"
    using Cons.prems(4,5) x by (simp add: work_handler_almost_def Let_def)
  have "True \<notin> set (almost_jobs t rs \<lparr>bug_timeout = ?x - t, bug_pause = ?y - t\<rparr>)"
    using Cons.prems x by (intro Cons.IH) simp_all
  with h show ?case by simp
qed simp

section \<open>The module\<close>

text \<open>Unloading restores the table as it was before loading, and the original calls are still made while the
  module is loaded.\<close>

lemma cleanup_load_unload:
  assumes "comm \<noteq> []" "cleanup_init comm k = (r, k1)"
  shows "r = 0 \<and> sys_call_table k1 NR_exit = Custom_exit \<and> sys_call_table k1 NR_exit_group = Custom_exit_group \<and>
    fst (snd (custom_exit comm name pid fds k1)) = sys_call_table k NR_exit \<and>
    fst (snd (custom_exit_group comm name pid fds k1)) = sys_call_table k NR_exit_group \<and>
    sys_call_table (cleanup_exit k1) = sys_call_table k"
  using assms by (auto simp: cleanup_init_def strcmp_0_iff cleanup_exit_def custom_exit_def custom_exit_group_def
      check_file_descriptors_def Let_def NR_exit_def NR_exit_group_def fun_eq_iff)

text \<open>The log names every file left open, except the three standard ones, and a headline if there is one.\<close>

lemma check_loop_later:
  "check_loop name pid fds (Suc k) = map (\<lambda>p. ''cleanup: '' @ the p) (filter (\<lambda>x. x \<noteq> None) fds)"
  by (induction name pid fds "Suc k" arbitrary: k rule: check_loop.induct) simp_all

lemma check_loop_logs:
  "check_loop name pid fds 0 =
     (if \<forall>x\<in>set fds. x = None then []
      else (''cleanup: process '' @ [CHR 0x27] @ name @ [CHR 0x27] @ '' (PID '' @ fmt_d pid @ '') did not close files:'') #
        map (\<lambda>p. ''cleanup: '' @ the p) (filter (\<lambda>x. x \<noteq> None) fds))"
proof (induction fds)
  case (Cons x fds)
  then show ?case by (cases x) (simp_all add: check_loop_later)
qed simp

text \<open>The file that \<^verbatim>\<open>test_cleanup\<close> leaves open is reported when the program leaves through the replaced call.\<close>

lemma test_cleanup_reported:
  assumes "strstr name comm" "length std = 3" "None \<notin> set std" "test_cleanup_main (Some path) std = (r, fds)"
  shows "r = 0 \<and> fst (custom_exit_group comm name pid fds k) =
    [''cleanup: process '' @ [CHR 0x27] @ name @ [CHR 0x27] @ '' (PID '' @ fmt_d pid @ '') did not close files:'', ''cleanup: '' @ path]"
proof -
  have "open_fd path xs = xs @ [Some path]" if "None \<notin> set xs" for xs using that by (induction path xs rule: open_fd.induct) auto
  then have "r = 0" "fds = std @ [Some path]" using assms(3,4) by (auto simp: test_cleanup_main_def)
  then show ?thesis using assms(1,2) by (simp add: custom_exit_group_def check_file_descriptors_def check_loop_logs)
qed

end
