(* ===== verification/Texts.thy ===== *)
theory Texts
  imports Printf Apps
begin

text \<open>
  The texts of the kernel's files. The modules print with \<^verbatim>\<open>scnprintf\<close>, \<^verbatim>\<open>snprintf\<close> and \<^verbatim>\<open>sprintf\<close>; the theories of the
  modules describe the text of each call directly. Here the format strings of the source go through the modelled
  \<^verbatim>\<open>vsnprintf\<close>, and the same texts come out.
\<close>

section \<open>Printing pieces\<close>

definition shown :: "int \<times> string \<Rightarrow> (int \<times> string \<times> int list) res" where
  "shown x = Inr (fst x, snd x, [])"

lemma length_fmt: "s32 n = n \<Longrightarrow> length (fmt_d n) \<le> 21" "u64 n = n \<Longrightarrow> length (fmt_u n) \<le> 20"
proof -
  show "length (fmt_d n) \<le> 21" if "s32 n = n"
  proof (cases "0 \<le> n")
    case True
    then show ?thesis using that s32_range [of n] decimal_short [of n] by (simp add: fmt_d_decimal)
  next
    case False
    then show ?thesis using that s32_range [of n] decimal_short [of "- n"] by (simp add: fmt_d_negative)
  qed
  have "0 \<le> u64 n" "u64 n < 2 ^ 64" by (simp_all add: u64_def)
  then show "length (fmt_u n) \<le> 20" if "u64 n = n" using that decimal_short [of n] by (simp add: fmt_u_decimal)
qed

lemma print_text:
  assumes "list_all piece_ok ps" "int (length (concat (map piece_text ps))) < 2 ^ 31" "0 \<le> sz" "sz < 2 ^ 31"
  shows "vsnprintf ptr buf sz (concat (map piece_fmt ps)) (concat (map piece_args ps)) =
    Inr (int (length (concat (map piece_text ps))), take (nat (buf_room buf sz - 1)) (concat (map piece_text ps)), [])"
  using assms prints_start [OF prints_pieces [OF assms(1)]] by (simp add: vsnprintf_def s32_id)

lemma print_page:
  assumes "list_all piece_ok ps" "int (length (concat (map piece_text ps))) < 2 ^ 31" "0 \<le> buf" "buf + 4096 < 2 ^ 32"
  shows "vscnprintf ptr buf PAGE_SIZE (concat (map piece_fmt ps)) (concat (map piece_args ps)) = shown (scnprintf PAGE_SIZE (concat (map piece_text ps)))"
proof -
  have "buf_room buf PAGE_SIZE = PAGE_SIZE" using assms(3,4) by (simp add: buf_room_def u32_id PAGE_SIZE_def)
  with print_text [OF assms(1,2), of PAGE_SIZE ptr buf] assms(2) show ?thesis
    by (simp add: vscnprintf_def shown_def scnprintf_def snprintf_def PAGE_SIZE_def u32_id s32_id)
qed

section \<open>The texts\<close>

text \<open>The members that are printed have the range of their C type, and the names fit.\<close>

definition members_typed :: "kst \<Rightarrow> bool" where
  "members_typed s \<longleftrightarrow> s32 (taskmon_enabled s) = taskmon_enabled s \<and> s32 (energy_tracking s) = energy_tracking s \<and>
     0 \<le> total_energy s \<and> total_energy s < 2 ^ 32 \<and> length (partition_policy s) \<le> 3 \<and>
     (\<forall>p. 0 \<le> r_energy (reserve s p) \<and> r_energy (reserve s p) < 2 ^ 32) \<and>
     (\<forall>p\<in>set (threads s). s32 (t_pid (task s p)) = t_pid (task s p) \<and> s32 (t_tgid (task s p)) = t_tgid (task s p) \<and>
        0 \<le> t_rt_priority (task s p) \<and> t_rt_priority (task s p) < 2 ^ 32 \<and> length (t_comm (task s p)) < 16)"

lemma short_u: "0 \<le> n \<Longrightarrow> n < 2 ^ 32 \<Longrightarrow> length (fmt_u n) \<le> 20"
  using length_fmt(2) [of n] by (simp add: u64_id)

definition tab :: string where
  "tab = [CHR 0x09]"

lemma plain_chars: "CHR ''%'' \<notin> set newline" "CHR ''%'' \<notin> set tab" "CHR ''%'' \<notin> set reserves_header" "length newline = 1" "length tab = 1"
  "length reserves_header = 22"
  by code_simp+

lemma task_typed:
  assumes "members_typed s" "p \<in> set (threads s)"
  shows "s32 (t_pid (task s p)) = t_pid (task s p)" "s32 (t_tgid (task s p)) = t_tgid (task s p)"
    "u32 (t_rt_priority (task s p)) = t_rt_priority (task s p)" "length (t_comm (task s p)) < 16"
    "length (fmt_u (t_rt_priority (task s p))) \<le> 20" "length (fmt_d (t_pid (task s p))) \<le> 21" "length (fmt_d (t_tgid (task s p))) \<le> 21"
  using assms short_u [of "t_rt_priority (task s p)"] length_fmt(1) by (simp_all add: members_typed_def u32_id)

lemma reserves_line_printed:
  assumes t: "members_typed s" "p \<in> set (threads s)" and b: "0 \<le> buf" "buf + 4096 < 2 ^ 32"
  shows "vscnprintf ptr buf PAGE_SIZE (''%d'' @ tab @ ''%d'' @ tab @ ''%u'' @ tab @ ''%u'' @ tab @ ''%s'' @ newline)
        [ArgInt (t_pid (task s p)), ArgInt (t_pid (task s p)), ArgInt (t_rt_priority (task s p)), ArgInt (r_cpu (t_reserve (task s p))),
         ArgStr (Some (t_comm (task s p)))] = shown (scnprintf PAGE_SIZE (reserves_line s p))"
  using print_page [OF _ _ b, of "[Dec (t_pid (task s p)), Lit tab, Dec (t_pid (task s p)), Lit tab, Uns (t_rt_priority (task s p)), Lit tab,
        Uns (r_cpu (t_reserve (task s p))), Lit tab, Txt (Some (t_comm (task s p))), Lit newline]" ptr]
    task_typed [OF t] short_u [of "u32 (r_cpu (t_reserve (task s p)))"] u32_range
  by (simp add: plain_chars reserves_line_def tab_def [symmetric] Let_def)

lemma device_line_printed:
  assumes t: "members_typed s" "p \<in> set (threads s)" and b: "0 \<le> buf" "buf + 4096 < 2 ^ 32"
  shows "sprintf ptr buf (''%d'' @ tab @ ''%d'' @ tab @ ''%d'' @ tab @ ''%s'' @ newline)
        [ArgInt (t_pid (task s p)), ArgInt (t_tgid (task s p)), ArgInt (t_rt_priority (task s p)), ArgStr (Some (t_comm (task s p)))] =
      shown (int (length (device_line (task s p))), device_line (task s p))"
proof -
  let ?ps = "[Dec (t_pid (task s p)), Lit tab, Dec (t_tgid (task s p)), Lit tab, Dec (t_rt_priority (task s p)), Lit tab,
    Txt (Some (t_comm (task s p))), Lit newline]"
  note q = task_typed [OF t]
  have r: "s32 (s32 n) = s32 n" for n using s32_range [of n] by (intro s32_id) auto
  have x: "device_line (task s p) = concat (map piece_text ?ps)" using q(1,2) by (simp add: device_line_def tab_def)
  have l: "length (concat (map piece_text ?ps)) \<le> 82"
    using q length_fmt(1) [OF r [of "t_rt_priority (task s p)"]] by (simp add: plain_chars)
  have room: "83 \<le> buf_room buf 2147483647" using b by (simp add: buf_room_def)
  have "take (nat (buf_room buf 2147483647 - 1)) (concat (map piece_text ?ps)) = concat (map piece_text ?ps)" using l room by (intro take_all) linarith
  moreover have "list_all piece_ok ?ps" by (simp add: plain_chars)
  ultimately have "vsnprintf ptr buf 2147483647 (concat (map piece_fmt ?ps)) (concat (map piece_args ?ps)) =
      shown (int (length (concat (map piece_text ?ps))), concat (map piece_text ?ps))"
    using print_text [of ?ps 2147483647 ptr buf] l by (simp only: shown_def fst_conv snd_conv) simp
  then show ?thesis unfolding sprintf_def x by simp
qed



end
