(* ===== verification/Ui.thy ===== *)
theory Ui
  imports Jni
begin

text \<open>
  The Android application that shows the state of the kernel: \<^verbatim>\<open>MainActivity.java\<close>, and the native method
  \<^verbatim>\<open>getTidEnergy\<close> it calls (\<^verbatim>\<open>jni/taskmon-jni.c\<close>), the last of the native methods.
  \<^item> \<open>ui\<close> holds the fields of the activity and the texts of its views: a row of the table is the list of the texts
    in it. \<open>posted\<close> counts the rounds that were scheduled.
  \<^item> The array of reserved threads that Java receives is an argument (\<open>reserved\<close>): the native code leaves entries of it
    unset (see \<open>getReservedTID\<close> in \<open>Jni\<close>), which can hold anything.
  \<^item> Layout, padding and the parts that are commented out are left out, and \<^verbatim>\<open>createGraph\<close>, which nothing calls.
\<close>

section \<open>The energy of a thread\<close>

text \<open>The directory \<^verbatim>\<open>/sys/rtes/tasks/<tid>\<close>: its name is the number of the thread as \<^verbatim>\<open>set_reserve\<close> printed it.\<close>

definition task_dir :: "kst \<Rightarrow> int \<Rightarrow> tptr option" where
  "task_dir s tid = find (\<lambda>t. r_pid_kobj (reserve s t) \<noteq> 0 \<and>
     snd (snprintf (int ATTR_NAME_BUF_LENGTH) (fmt_d (t_pid (task s t)))) = fmt_d tid) (threads s)"

definition getTidEnergy :: "int \<Rightarrow> kst \<Rightarrow> int" where
  "getTidEnergy tid s =
     (case task_dir s tid of
        None \<Rightarrow> -1
      | Some t \<Rightarrow> read_number (file_exists s (r_pid_kobj (reserve s t)) ''energy'') (-1) (-1) (snd (energy_show (r_energy_attr (reserve s t)) s)))"

definition stringFromJNI :: string where
  "stringFromJNI = ''Hello from JNI !''"

section \<open>The activity\<close>

record ui =
  reserveTidArray :: "int list option"
  updateGraph :: bool
  freqTextview :: string
  powerTextview :: string
  energyTextview :: string
  stopResponse :: string
  tidpower :: "string list list"
  posted :: nat

text \<open>The text for a number or for the code of an error; other negative numbers leave the text alone.\<close>

definition number_text :: "string \<Rightarrow> int \<Rightarrow> string \<Rightarrow> string" where
  "number_text label v old =
     (if v < 0 then
        (if v = -1 then ''parse error'' else if v = -2 then ''read error'' else if v = -3 then ''open error'' else old)
      else label @ fmt_d v)"

definition updateFreq :: "kenv \<Rightarrow> kst \<Rightarrow> ui \<Rightarrow> ui" where
  "updateFreq e s u = u\<lparr>freqTextview := number_text ''freq: '' (getFreq e s) (freqTextview u)\<rparr>"

definition updatePower :: "kenv \<Rightarrow> kst \<Rightarrow> ui \<Rightarrow> ui res" where
  "updatePower e s u = bindR (getPower e s) (\<lambda>p. Inr (u\<lparr>powerTextview := number_text ''Power: '' p (powerTextview u)\<rparr>))"

definition updateEnergy :: "kst \<Rightarrow> ui \<Rightarrow> ui" where
  "updateEnergy s u = u\<lparr>energyTextview := number_text ''Energy: '' (getEnergy s) (energyTextview u)\<rparr>"

definition addItmesOnReserveID :: "int list option \<Rightarrow> ui \<Rightarrow> ui" where
  "addItmesOnReserveID resTidArray u =
     (case resTidArray of
        None \<Rightarrow> u
      | Some tids \<Rightarrow> if reserveTidArray u \<noteq> None \<and> the (reserveTidArray u) = tids then u else u\<lparr>reserveTidArray := Some tids\<rparr>)"

definition show_numbers :: "kenv \<Rightarrow> kst \<Rightarrow> int list option \<Rightarrow> ui \<Rightarrow> ui res" where
  "show_numbers e s reserved u =
     bindR (updatePower e s (updateFreq e s (addItmesOnReserveID reserved u))) (\<lambda>u1. Inr (updateEnergy s u1))"

definition ui_onCreate :: "kenv \<Rightarrow> kst \<Rightarrow> int list option \<Rightarrow> ui \<Rightarrow> ui res" where
  "ui_onCreate e s reserved u = bindR (show_numbers e s reserved u) (\<lambda>u1. Inr (u1\<lparr>posted := Suc (posted u1)\<rparr>))"

definition energy_row :: "kst \<Rightarrow> int \<Rightarrow> string list" where
  "energy_row s tid = [''tid: '' @ fmt_d tid, ''Energy: '' @ fmt_d (getTidEnergy tid s)]"

fun energy_rows :: "kst \<Rightarrow> int list \<Rightarrow> nat \<Rightarrow> string list list \<Rightarrow> string list list" where
  "energy_rows s [] cnt table = table"
| "energy_rows s (tid # tids) cnt table =
     (if tid > 100000 \<or> tid = 0 then energy_rows s tids cnt table
      else if cnt < length table then energy_rows s tids (Suc cnt) (table[cnt := energy_row s tid])
      else energy_rows s tids (Suc cnt) (table @ [energy_row s tid]))"

definition ui_run :: "kenv \<Rightarrow> kst \<Rightarrow> int list option \<Rightarrow> ui \<Rightarrow> ui res" where
  "ui_run e s reserved u =
     bindR (show_numbers e s reserved u) (\<lambda>u1.
       let title = [''Threads Energy List''];
           table = (case reserveTidArray u1 of None \<Rightarrow> [title] | Some tids \<Rightarrow> energy_rows s (drop 1 tids) 1 [title])
       in Inr (u1\<lparr>tidpower := table, posted := Suc (posted u1)\<rparr>))"

definition stopMonitor :: "kenv \<Rightarrow> kst \<Rightarrow> ui \<Rightarrow> (kst \<times> ui) res" where
  "stopMonitor e s u =
     bindR (taskmonDisable e s) (\<lambda>(r, s1).
       Inr (s1, if r = 0 then u\<lparr>stopResponse := ''Success'', updateGraph := False\<rparr> else u\<lparr>stopResponse := ''fail''\<rparr>))"

section \<open>What is shown\<close>

lemma getTidEnergy_reads:
  assumes d: "task_dir s tid = Some t" and f: "file_exists s (r_pid_kobj (reserve s t)) ''energy''"
    and a: "kattr_task s (r_energy_attr (reserve s t)) = t" and r: "0 \<le> r_energy (reserve s t)" "r_energy (reserve s t) < 2 ^ 32"
  shows "getTidEnergy tid s = r_energy (reserve s t) div 1000"
proof -
  let ?n = "r_energy (reserve s t) div MICRO_W_PER_MILLI_W"
  have n: "0 \<le> ?n" "?n < 2 ^ 31" using r by (simp_all add: MICRO_W_PER_MILLI_W_def pos_imp_zdiv_nonneg_iff)
  then have "length (fmt_u ?n @ newline) < 4095" using length_decimal [of ?n 10] by (simp add: fmt_u_decimal newline_def)
  then have "snd (energy_show (r_energy_attr (reserve s t)) s) = fmt_u ?n @ newline"
    by (simp add: energy_show_def a scnprintf_def snprintf_def PAGE_SIZE_def)
  then show ?thesis using f read_number_reads [OF n] by (simp add: getTidEnergy_def d MICRO_W_PER_MILLI_W_def)
qed

text \<open>The table is built anew: each accepted entry after the first gets a row at its end.\<close>

lemma energy_rows_eq:
  "length table = cnt \<Longrightarrow> energy_rows s tids cnt table = table @ map (energy_row s) (filter (\<lambda>tid. tid \<le> 100000 \<and> tid \<noteq> 0) tids)"
  by (induction s tids cnt table rule: energy_rows.induct) (auto simp: not_less)

text \<open>C40. What the user sees is what the kernel has. A round of the application shows the clock frequency, the total energy and, for each
  listed thread with an energy file, its energy: through the file of the module, the number printed there, the native code
  that parses it and the text of the view. The first entry of the list is never shown; later entries are when they
  are not zero and at most 100000.\<close>

theorem ui_run_shows:
  assumes f: "file_exists s (rtes_kobj s) ''freq''" "first_online s = Some c" "0 \<le> e_cpufreq_get e c" "e_cpufreq_get e c < 2 ^ 31"
    and t: "file_exists s (rtes_kobj s) ''energy''" "0 \<le> total_energy s" "total_energy s < 2 ^ 32"
    and p: "getPower e s = Inr pw"
    and l: "reserved = Some (x # tids)"
  shows "\<exists>u'. ui_run e s reserved u = Inr u' \<and> freqTextview u' = ''freq: '' @ fmt_d (e_cpufreq_get e c div 1000) \<and>
    energyTextview u' = ''Energy: '' @ fmt_d (total_energy s div 1000) \<and>
    tidpower u' = [''Threads Energy List''] # map (energy_row s) (filter (\<lambda>tid. tid \<le> 100000 \<and> tid \<noteq> 0) tids) \<and>
    (\<forall>tid t. task_dir s tid = Some t \<and> file_exists s (r_pid_kobj (reserve s t)) ''energy'' \<and> kattr_task s (r_energy_attr (reserve s t)) = t \<and>
       0 \<le> r_energy (reserve s t) \<and> r_energy (reserve s t) < 2 ^ 32 \<longrightarrow>
       energy_row s tid = [''tid: '' @ fmt_d tid, ''Energy: '' @ fmt_d (r_energy (reserve s t) div 1000)])"
proof -
  have g: "getFreq e s = e_cpufreq_get e c div 1000" by (rule getFreq_reads [OF f])
  have h: "getEnergy s = total_energy s div 1000" by (rule getEnergy_reads [OF t])
  have nn: "0 \<le> e_cpufreq_get e c div 1000" "0 \<le> total_energy s div 1000" using f(3) t(2) by (simp_all add: pos_imp_zdiv_nonneg_iff)
  have a: "reserveTidArray (addItmesOnReserveID (Some (x # tids)) u) = Some (x # tids)" by (auto simp: addItmesOnReserveID_def)
  show ?thesis
    using nn energy_rows_eq [of "[[''Threads Energy List'']]" 1 s tids]
    by (simp add: ui_run_def show_numbers_def updatePower_def updateFreq_def updateEnergy_def number_text_def p g h l a energy_row_def getTidEnergy_reads)
qed

definition metered_thread :: kst where
  "metered_thread = upd_reserve 7 (\<lambda>r. r\<lparr>r_pid_kobj := 9, r_energy_attr := 10, r_energy := 42000\<rparr>)
     ((boot_state [7])\<lparr>rtes_kobj := 1, total_energy := 55000, kattr_task := (\<lambda>_. 7),
        sysfs := [(1, ''freq''), (1, ''power''), (1, ''energy''), (9, ''energy'')]\<rparr>)"

theorem ui_run_shows_witness:
  "\<exists>u'. ui_run (one_cpu_env\<lparr>e_cpufreq_get := (\<lambda>_. 1200000)\<rparr>) metered_thread (Some [0, 0, 7, 812345])
       \<lparr>reserveTidArray = None, updateGraph = False, freqTextview = [], powerTextview = [], energyTextview = [],
        stopResponse = [], tidpower = [], posted = 1\<rparr> = Inr u' \<and>
     freqTextview u' = ''freq: 1200'' \<and> energyTextview u' = ''Energy: 55'' \<and>
     tidpower u' = [[''Threads Energy List''], [''tid: 7'', ''Energy: 42'']]"
proof -
  let ?e = "one_cpu_env\<lparr>e_cpufreq_get := (\<lambda>_. 1200000)\<rparr>"
  have h: "file_exists metered_thread (rtes_kobj metered_thread) ''freq''" "file_exists metered_thread (rtes_kobj metered_thread) ''energy''"
    "first_online metered_thread = Some 0" "total_energy metered_thread = 55000" "e_cpufreq_get ?e 0 = 1200000"
    "task_dir metered_thread 7 = Some 7" "file_exists metered_thread (r_pid_kobj (reserve metered_thread 7)) ''energy''"
    "kattr_task metered_thread (r_energy_attr (reserve metered_thread 7)) = 7" "r_energy (reserve metered_thread 7) = 42000"
    "fmt_d 1200 = ''1200''" "fmt_d 55 = ''55''" "fmt_d 42 = ''42''" "fmt_d 7 = ''7''" by code_simp+
  have "case getPower ?e metered_thread of Inl _ \<Rightarrow> False | Inr _ \<Rightarrow> True" by code_simp
  then obtain pw where p: "getPower ?e metered_thread = Inr pw" by (auto split: sum.splits)
  from ui_run_shows [OF h(1,3) _ _ h(2) _ _ p refl, of 0 "[0, 7, 812345]"] h show ?thesis by fastforce
qed

text \<open>The error codes differ between the native methods: a missing frequency file is shown as a read error, an empty one as a parse error.\<close>

lemma freq_missing:
  assumes "\<not> file_exists s (rtes_kobj s) ''freq''"
  shows "freqTextview (updateFreq e s u) = ''read error''"
  using assms by (simp add: updateFreq_def getFreq_def read_number_def number_text_def)

text \<open>A thread without an energy file is listed with the energy -1.\<close>

lemma tid_energy_missing: "task_dir s tid = None \<Longrightarrow> energy_row s tid = [''tid: '' @ fmt_d tid, ''Energy: -1'']"
proof -
  have "fmt_d (-1) = ''-1''" by code_simp
  then show "task_dir s tid = None \<Longrightarrow> ?thesis" by (simp add: energy_row_def getTidEnergy_def)
qed

end
