(* ===== verification/Resdev.thy ===== *)
theory Resdev
  imports Jni
begin

text \<open>
  The first version of the reservations, a loadable module with a character device:
  \<^verbatim>\<open>rtes/modules/reserve/resdev.c\<close>. A line written to the device makes or cancels a reservation; a thread that
  exceeds its budget gets a signal instead of being suspended.
  \<^item> Today's \<^verbatim>\<open>linux/reserve.h\<close> has the member \<^verbatim>\<open>p_start\<close> commented out; here it is a member of the module's state.
    The constant \<^verbatim>\<open>MUS_PER_S\<close> is declared nowhere; it is the argument \<open>mus_per_s\<close>.
  \<^item> The module declares \<^verbatim>\<open>util_kobj\<close> and \<^verbatim>\<open>ptr_taskmon_enabled_attribute\<close> itself; they are the members of \<^typ>\<open>kst\<close> that stand
    for the variables of these names.
  \<^item> The callbacks charge \<^verbatim>\<open>current\<close>, the thread that is running when the timer fires (\<open>cur\<close>).
  \<^item> \<open>rd_signals\<close> lists the threads that were sent \<^verbatim>\<open>SIGEXCESS\<close>, the latest first; \<open>rd_majors\<close> are the registered
    device numbers.
\<close>

section \<open>The code\<close>

record resdev =
  rd_k :: kst
  rd_p_start :: "tptr \<Rightarrow> int"
  rd_signals :: "tptr list"
  rd_open :: int
  rd_process_cnt :: int
  rd_majors :: "int set"

abbreviation rd_reserve :: "resdev \<Rightarrow> tptr \<Rightarrow> reserve_t" where
  "rd_reserve d t \<equiv> reserve (rd_k d) t"

definition on_k :: "(kst \<Rightarrow> kst) \<Rightarrow> resdev \<Rightarrow> resdev" where
  "on_k f d = d\<lparr>rd_k := f (rd_k d)\<rparr>"

subsection \<open>The file of samples\<close>

definition tid_step_dev :: "tptr \<Rightarrow> kst \<Rightarrow> string \<Rightarrow> int \<Rightarrow> (kst \<times> string \<times> int) res" where
  "tid_step_dev t s buf integer_part =
     (let r = reserve s t; p = r_periods r; i = r_start r; u = r_utilization r i in
      bindR (emit buf (fmt_u (karray s p i) @ '' '')) (\<lambda>buf1.
        let (u, integer_part, line) =
              (if u < 100 then (u, integer_part, ''0.'' @ fmt_d u @ newline)
               else let (u, integer_part) = take_hundreds u integer_part
                    in (u, integer_part, fmt_d integer_part @ ''.'' @ fmt_d u @ newline)) in
        bindR (emit buf1 line) (\<lambda>buf2.
          Inr ((upd_reserve t (\<lambda>r. r\<lparr>r_utilization := (r_utilization r)(i := u), r_start := ring_next i\<rparr>) s)
                 \<lparr>karray := (karray s)(p := (karray s p)(i := 0))\<rparr>, buf2, integer_part))))"

partial_function (option) tid_loop_dev :: "tptr \<Rightarrow> kst \<Rightarrow> string \<Rightarrow> int \<Rightarrow> (kst \<times> string) res option" where
  "tid_loop_dev t s buf integer_part =
     (let r = reserve s t in
      if r_periods r = 0 then Some (Inl NullDeref)
      else if r_start r < 0 \<or> BUF_LENGTH \<le> r_start r then Some (Inl OutOfBounds)
      else if karray s (r_periods r) (r_start r) \<noteq> 0 then
        (case tid_step_dev t s buf integer_part of
           Inl e \<Rightarrow> Some (Inl e)
         | Inr (s1, buf1, integer_part1) \<Rightarrow> tid_loop_dev t s1 buf1 integer_part1)
      else Some (Inr (s, buf)))"

declare tid_loop_dev.simps [code]

definition tid_show_dev :: "string \<Rightarrow> kst \<Rightarrow> (int \<times> string \<times> kst) res" where
  "tid_show_dev name s =
     (case find_task_by_vpid s (fst (simple_strtol name 10)) of
        None \<Rightarrow> Inr (- ESRCH, [], s)
      | Some t \<Rightarrow> bindR (the_loop (tid_loop_dev t s [] 0)) (\<lambda>(s1, buf). Inr (int (length buf), buf, s1)))"

subsection \<open>The timers\<close>

definition add_interval :: "int \<Rightarrow> timespec \<Rightarrow> timespec" where
  "add_interval mus_per_s acc =
     (let nsec = s32 (tv_nsec acc + RESERVE_INTERVAL_NS)
      in if nsec > mus_per_s then \<lparr>tv_sec = s32 (tv_sec acc + 1), tv_nsec = s32 (nsec - mus_per_s)\<rparr>
         else acc\<lparr>tv_nsec := nsec\<rparr>)"

definition reached :: "timespec \<Rightarrow> timespec \<Rightarrow> bool" where
  "reached acc C \<longleftrightarrow> tv_sec acc > tv_sec C \<or> (tv_sec acc = tv_sec C \<and> tv_nsec acc \<ge> tv_nsec C)"

text \<open>\<open>t\<close> is the thread the timer belongs to; all but the timer itself is of \<^verbatim>\<open>current\<close>.\<close>

definition c_timer_callback_dev :: "kenv \<Rightarrow> int \<Rightarrow> tptr \<Rightarrow> tptr \<Rightarrow> resdev \<Rightarrow> (hrtimer_restart \<times> resdev) res" where
  "c_timer_callback_dev e mus_per_s cur t d =
     (let d1 = on_k (upd_reserve cur (\<lambda>r. r\<lparr>r_acc := add_interval mus_per_s (r_acc r)\<rparr>)) d;
          r = rd_reserve d1 cur;
          d2 = (if reached (r_acc r) (r_C r) \<and> r_sig_sent r = 0
                then (on_k (upd_reserve cur (\<lambda>r. r\<lparr>r_sig_sent := 1\<rparr>)) d1)\<lparr>rd_signals := cur # rd_signals d\<rparr>
                else d1)
      in bindR (hrtimer_forward (e_resolution e) (r_c_timer (rd_reserve d2 t)) (e_now e) (ktime_set 0 RESERVE_INTERVAL_NS)) (\<lambda>(_, timer).
           Inr (HRTIMER_RESTART, on_k (upd_reserve t (\<lambda>r. r\<lparr>r_c_timer := timer\<rparr>)) d2)))"

text \<open>The module divides and multiplies by adding: \<^verbatim>\<open>for (i = 0; i < n; i += by) x += 1\<close> on \<^verbatim>\<open>int\<close>.\<close>

partial_function (option) count_up :: "int \<Rightarrow> int \<Rightarrow> int \<Rightarrow> int \<Rightarrow> int option" where
  "count_up n step i x = (if i < n then count_up n step (s32 (i + step)) (s32 (x + 1)) else Some x)"

declare count_up.simps [code]

text \<open>The variant whose counter is \<^verbatim>\<open>unsigned long long\<close>.\<close>

partial_function (option) count_up_u :: "int \<Rightarrow> int \<Rightarrow> int \<Rightarrow> int \<Rightarrow> int \<Rightarrow> int option" where
  "count_up_u n step weight i x = (if i < n then count_up_u n step weight (u64 (i + step)) (s32 (x + weight)) else Some x)"

declare count_up_u.simps [code]

definition the_count :: "int option \<Rightarrow> int res" where
  "the_count x = (case x of None \<Rightarrow> Inl Diverges | Some v \<Rightarrow> Inr v)"

definition sum_times :: "nat \<Rightarrow> int \<Rightarrow> int \<Rightarrow> int" where
  "sum_times n y x = ((\<lambda>v. s32 (v + y)) ^^ n) x"

definition record_sample_dev :: "tptr \<Rightarrow> kst \<Rightarrow> kst res" where
  "record_sample_dev t s =
     (let r = reserve s t; p = r_periods r; end = ring_next (r_end r) in
      if p = 0 then Inl NullDeref
      else if end < 0 \<or> BUF_LENGTH \<le> end then Inl OutOfBounds
      else
        let start = (if end = r_start r \<and> karray s p (r_start r) \<noteq> 0 then ring_next (r_start r) else r_start r);
            millis = sum_times (nat (tv_sec (r_acc r))) 1000 0 in
        bindR (the_count (count_up (tv_nsec (r_acc r)) 1000000 0 millis)) (\<lambda>computation_time.
        bindR (the_count (count_up (sum_times 100 computation_time 0) (r_period r) 0 0)) (\<lambda>util.
          Inr ((upd_reserve t (\<lambda>r. r\<lparr>r_end := end, r_start := start, r_utilization := (r_utilization r)(end := util)\<rparr>) s)
                 \<lparr>karray := (karray s)(p := (karray s p)(end := r_total_time r))\<rparr>))))"

definition p_timer_callback_dev :: "kenv \<Rightarrow> tptr \<Rightarrow> tptr \<Rightarrow> resdev \<Rightarrow> (hrtimer_restart \<times> resdev) res" where
  "p_timer_callback_dev e cur t d =
     (let s1 = upd_reserve cur (\<lambda>r. r\<lparr>r_sig_sent := 0, r_num_p := u64 (r_num_p r + 1),
                 r_total_time := u64 (r_total_time r + r_period r)\<rparr>) (rd_k d) in
      bindR (if taskmon_attr_set s1 \<and> taskmon_enabled s1 \<noteq> 0 then record_sample_dev cur s1 else Inr s1) (\<lambda>s2.
        let s3 = upd_reserve cur (\<lambda>r. r\<lparr>r_acc := zero_time\<rparr>) s2; T = r_T (reserve s3 cur) in
        bindR (hrtimer_forward (e_resolution e) (r_p_timer (reserve s3 t)) (e_now e) (ktime_set (tv_sec T) (tv_nsec T))) (\<lambda>(_, timer).
          Inr (HRTIMER_RESTART, d\<lparr>rd_k := upd_reserve t (\<lambda>r. r\<lparr>r_p_timer := timer\<rparr>) s3\<rparr>))))"

subsection \<open>Making and cancelling a reservation\<close>

definition add_period :: "timespec \<Rightarrow> int \<Rightarrow> int res" where
  "add_period T period =
     bindR (the_count (count_up_u (u64 (tv_sec T)) 1 1000 0 period)) (\<lambda>p.
       the_count (count_up_u (u64 (tv_nsec T)) 1000000 1 0 p))"

definition create_file_dev :: "kenv \<Rightarrow> tptr \<Rightarrow> int \<Rightarrow> kst \<Rightarrow> (int \<times> kst) res" where
  "create_file_dev e t tid s =
     (if util_kobj s = 0 then Inr (0, s)
      else
        let (buf, s1) = kmalloc e 0 s in
        if buf = 0 then Inr (- ENOMEM, s1)
        else
          let name = snd (snprintf (int ATTR_NAME_BUF_LENGTH) (fmt_d tid));
              s2 = upd_reserve t (\<lambda>r. r\<lparr>r_tid_name := buf\<rparr>) (s1\<lparr>kstr := (kstr s1)(buf := name)\<rparr>);
              (retval, s3) = sysfs_create_file e (util_kobj s2) name s2;
              p = r_periods (reserve s3 t)
          in if retval \<noteq> 0 then Inr (retval, s3)
             else if p = 0 then Inl NullDeref
             else Inr (0, upd_reserve t (\<lambda>r. r\<lparr>r_start := 0, r_end := -1\<rparr>) (s3\<lparr>karray := (karray s3)(p := (\<lambda>_. 0))\<rparr>)))"

definition set_reserve_dev :: "kenv \<Rightarrow> resdev \<Rightarrow> int \<Rightarrow> timespec option \<Rightarrow> timespec option \<Rightarrow> int \<Rightarrow> (int \<times> resdev) res" where
  "set_reserve_dev e d tid C T cpuid =
     (if cpuid < 0 \<or> 3 < cpuid then Inr (EINVAL, d)
      else case (C, T) of
        (Some C, Some T) \<Rightarrow>
          (case find_task_by_vpid (rd_k d) tid of
             None \<Rightarrow> Inr (ESRCH, d)
           | Some t \<Rightarrow>
               if e_setaffinity e tid [cpuid] \<noteq> 0 then Inr (EINVAL, d)
               else
                 bindR (add_period T (r_period (rd_reserve d t))) (\<lambda>period.
                   let s1 = upd_reserve t (\<lambda>r. r\<lparr>r_C := C, r_T := T, r_period := period\<rparr>) (rd_k d);
                       s2 = (if r_flag (reserve s1 t) = 0
                             then upd_reserve t (\<lambda>r. r\<lparr>r_c_timer := (hrtimer_init (r_c_timer r))\<lparr>hr_function := CTimerCallback\<rparr>,
                                    r_p_timer := (hrtimer_init (r_p_timer r))\<lparr>hr_function := PTimerCallback\<rparr>, r_flag := 1\<rparr>) s1
                             else s1)
                   in bindR (create_file_dev e t tid s2) (\<lambda>(retval, s3).
                        Inr (retval, d\<lparr>rd_k := s3, rd_p_start := (rd_p_start d)(t := 0)\<rparr>))))
      | _ \<Rightarrow> Inr (EINVAL, d))"

definition cancel_reserve_dev :: "kenv \<Rightarrow> resdev \<Rightarrow> int \<Rightarrow> (int \<times> resdev) res" where
  "cancel_reserve_dev e d tid =
     (case find_task_by_vpid (rd_k d) tid of
        None \<Rightarrow> Inr (ESRCH, d)
      | Some t \<Rightarrow>
          let rest = (\<lambda>d. bindR (if util_kobj (rd_k d) \<noteq> 0 then sysfs_remove_ptr (util_kobj (rd_k d)) (r_tid_name (rd_reserve d t)) (rd_k d)
                               else Inr (rd_k d)) (\<lambda>s1.
                       bindR (kfree (r_tid_name (reserve s1 t)) s1) (\<lambda>s2. Inr (0, d\<lparr>rd_k := s2\<rparr>))))
          in if r_flag (rd_reserve d t) \<noteq> 0
             then bindR (stop_timers t (rd_k d)) (\<lambda>s1.
                    if e_setaffinity e tid [0, 1, 2, 3] \<noteq> 0 then Inr (EINVAL, d\<lparr>rd_k := s1\<rparr>)
                    else rest (d\<lparr>rd_k := upd_reserve t (\<lambda>r. r\<lparr>r_flag := 0\<rparr>) s1, rd_p_start := (rd_p_start d)(t := 0)\<rparr>))
             else rest d)"

subsection \<open>The device\<close>

text \<open>\<open>major\<close> is what \<^verbatim>\<open>register_chrdev\<close> returns.\<close>

definition resdev_init :: "int \<Rightarrow> resdev \<Rightarrow> int \<times> resdev" where
  "resdev_init major d = (if major < 0 then (major, d) else (0, d\<lparr>rd_majors := insert 98 (rd_majors d)\<rparr>))"

definition resdev_cleanup :: "resdev \<Rightarrow> resdev" where
  "resdev_cleanup d = d\<lparr>rd_majors := rd_majors d - {99}\<rparr>"

definition resdev_open :: "resdev \<Rightarrow> int \<times> resdev" where
  "resdev_open d =
     (if rd_open d \<noteq> 0 then (- EBUSY, d) else (0, d\<lparr>rd_open := s32 (rd_open d + 1), rd_process_cnt := 0\<rparr>))"

definition resdev_release :: "resdev \<Rightarrow> int \<times> resdev" where
  "resdev_release d = (0, d\<lparr>rd_open := s32 (rd_open d - 1)\<rparr>)"

definition resdev_read :: "resdev \<Rightarrow> int \<times> resdev" where
  "resdev_read d = (- EINVAL, d)"

text \<open>A written line; \<open>buff\<close> are the bytes the caller passes. They are searched up to a NUL, which the caller has to
  pass as well: the copy has no room for one of its own. The copy is not freed.\<close>

definition resdev_write :: "kenv \<Rightarrow> resdev \<Rightarrow> string \<Rightarrow> (int \<times> resdev) res" where
  "resdev_write e d0 buff =
     (let (buf, s) = kmalloc e 4 (rd_k d0); d = d0\<lparr>rd_k := s\<rparr> in
      if buf = 0 then Inr (- EINVAL, d)
      else
        bindR (bufreadline buff (length buff) 1000) (\<lambda>(n, _).
          if n = 0 then Inr (- EINVAL, d)
          else if CHR 0x00 \<notin> set buff then Inl OutOfBounds
          else
            let str = c_string buff in
            if take 3 str = ''set'' then
              (case sscanf str ''set %d %d %d %d %d %d'' of
                 (k, [ScanInt tid, ScanInt Csec, ScanInt Cnsec, ScanInt Tsec, ScanInt Tnsec, ScanInt cpuID]) \<Rightarrow>
                   if k \<noteq> 6 then Inr (- EINVAL, d)
                   else if cpuID < 0 \<or> cpuID > 3 then Inr (- EINVAL, d)
                   else
                     bindR (set_reserve_dev e d tid (Some \<lparr>tv_sec = Csec, tv_nsec = Cnsec\<rparr>) (Some \<lparr>tv_sec = Tsec, tv_nsec = Tnsec\<rparr>) cpuID)
                       (\<lambda>(r, d1). Inr (if r \<noteq> 0 then - EINVAL else int n, d1))
               | _ \<Rightarrow> Inr (- EINVAL, d))
            else if take 6 str = ''cancel'' then
              (case sscanf str ''cancel %d'' of
                 (k, [ScanInt tid]) \<Rightarrow>
                   if k \<noteq> 1 then Inr (- EINVAL, d)
                   else bindR (cancel_reserve_dev e d tid) (\<lambda>(r, d1). Inr (int n, d1))
               | _ \<Rightarrow> Inr (- EINVAL, d))
            else Inr (- EINVAL, d)))"
section \<open>Counting loops\<close>

lemma div_up: "0 < b \<Longrightarrow> 0 < a \<Longrightarrow> (a + b - 1) div b = 1 + (if b < a then (a - b + b - 1) div b else (0::int))"
proof -
  assume "0 < b" "0 < a"
  have "a + b - 1 = (a - 1) + b" by simp
  then have e: "(a + b - 1) div b = (a - 1) div b + 1" using \<open>0 < b\<close> by (metis div_add_self2 less_irrefl)
  show ?thesis
  proof (cases "b < a")
    case False
    then have "(a - 1) div b = 0" using \<open>0 < a\<close> by (intro div_pos_pos_trivial) auto
    with e False show ?thesis by simp
  qed (use e in simp)
qed

lemma count_up_eq:
  assumes "0 < step" "n + step < 2 ^ 31"
  shows "0 \<le> i \<Longrightarrow> i < n \<Longrightarrow> 0 \<le> x \<Longrightarrow> x + (n - i) < 2 ^ 31 \<Longrightarrow> count_up n step i x = Some (x + (n - i + step - 1) div step)"
proof (induction "nat (n - i)" arbitrary: i x rule: less_induct)
  case less
  have w: "s32 (i + step) = i + step" "s32 (x + 1) = x + 1" using less.prems assms by (auto intro!: s32_id)
  show ?case
  proof (cases "i + step < n")
    case True
    have "count_up n step (i + step) (x + 1) = Some (x + 1 + (n - (i + step) + step - 1) div step)"
      using less.prems assms True by (intro less.hyps) auto
    then show ?thesis
      using less.prems assms True w div_up [of step "n - i"] by (subst count_up.simps) (simp add: algebra_simps)
  next
    case False
    then have "count_up n step (i + step) (x + 1) = Some (x + 1)" by (simp add: count_up.simps)
    then show ?thesis using less.prems assms False w div_up [of step "n - i"] by (subst count_up.simps) simp
  qed
qed

lemma count_up_u_eq:
  assumes "0 < step" "n + step < 2 ^ 64" "0 \<le> weight"
  shows "0 \<le> i \<Longrightarrow> i < n \<Longrightarrow> 0 \<le> x \<Longrightarrow> x + weight * ((n - i + step - 1) div step) < 2 ^ 31 \<Longrightarrow>
    count_up_u n step weight i x = Some (x + weight * ((n - i + step - 1) div step))"
proof (induction "nat (n - i)" arbitrary: i x rule: less_induct)
  case less
  let ?k = "if i + step < n then (n - (i + step) + step - 1) div step else 0"
  have k: "(n - i + step - 1) div step = 1 + ?k" using div_up [OF assms(1), of "n - i"] less.prems by (simp add: algebra_simps)
  have k0: "0 \<le> ?k" using assms(1) by (auto simp: pos_imp_zdiv_nonneg_iff)
  have t: "x + weight + weight * ?k < 2 ^ 31" using less.prems(4) unfolding k by (simp add: distrib_left)
  moreover have "0 \<le> weight * ?k" using assms(3) k0 by simp
  ultimately have w: "u64 (i + step) = i + step" "s32 (x + weight) = x + weight"
    using less.prems assms by (auto intro!: u64_id s32_id)
  have "count_up_u n step weight (i + step) (x + weight) = Some (x + weight + weight * ?k)"
  proof (cases "i + step < n")
    case True
    then have "count_up_u n step weight (i + step) (x + weight) = Some (x + weight + weight * ((n - (i + step) + step - 1) div step))"
      using less.prems assms t by (intro less.hyps) auto
    with True show ?thesis by simp
  qed (simp add: count_up_u.simps)
  then show ?case using less.prems w unfolding k by (subst count_up_u.simps) (simp add: distrib_left)
qed

text \<open>The period in milliseconds is added to what the member held before, rounded up.\<close>

definition millis_up :: "timespec \<Rightarrow> int" where
  "millis_up T = 1000 * tv_sec T + (tv_nsec T + 999999) div 1000000"

lemma add_period_eq:
  assumes "0 \<le> tv_sec T" "0 \<le> tv_nsec T" "tv_nsec T < 2 ^ 31" "0 \<le> p" "p + millis_up T < 2 ^ 31"
  shows "add_period T p = Inr (p + millis_up T)"
proof -
  have z: "0 \<le> (tv_nsec T + 999999) div 1000000" using assms(2) by simp
  have small: "1000 * tv_sec T < 2 ^ 31" using assms z by (simp add: millis_up_def)
  have u: "u64 (tv_sec T) = tv_sec T" "u64 (tv_nsec T) = tv_nsec T" using assms small by (auto intro!: u64_id)
  have a: "count_up_u (tv_sec T) 1 1000 0 p = Some (p + 1000 * tv_sec T)"
  proof (cases "tv_sec T = 0")
    case False
    then show ?thesis
      using count_up_u_eq [of 1 "tv_sec T" 1000 0 p] assms small z by (simp add: millis_up_def)
  qed (simp add: count_up_u.simps)
  have b: "count_up_u (tv_nsec T) 1000000 1 0 (p + 1000 * tv_sec T) = Some (p + millis_up T)"
  proof (cases "tv_nsec T = 0")
    case False
    then show ?thesis
      using count_up_u_eq [of 1000000 "tv_nsec T" 1 0 "p + 1000 * tv_sec T"] assms by (simp add: millis_up_def algebra_simps)
  qed (simp add: count_up_u.simps millis_up_def)
  show ?thesis by (simp add: add_period_def u a b the_count_def)
qed

section \<open>Commands\<close>

text \<open>Literal characters of a format.\<close>

lemma scan_literal:
  assumes "drop pos buf = c # xs" "\<not> isspace c" "c \<noteq> CHR ''%''" "c \<noteq> CHR 0x00"
  shows "vsscanf_loop buf (c # f) pos num out = vsscanf_loop buf f (Suc pos) num out"
proof -
  have "char_at buf pos = c" using char_at_drop [of pos buf 0] assms(1) by (simp add: char_at_def)
  then show ?thesis using assms by (subst vsscanf_loop.simps) simp
qed

lemma scan_literals:
  assumes "drop pos buf = w @ xs" "\<forall>c\<in>set w. \<not> isspace c \<and> c \<noteq> CHR ''%'' \<and> c \<noteq> CHR 0x00"
  shows "vsscanf_loop buf (w @ f) pos num out = vsscanf_loop buf f (pos + length w) num out"
  using assms
proof (induction w arbitrary: pos)
  case (Cons c w)
  have "vsscanf_loop buf (c # w @ f) pos num out = vsscanf_loop buf (w @ f) (Suc pos) num out"
    using Cons.prems by (intro scan_literal [where xs = "w @ xs"]) auto
  moreover have "drop (Suc pos) buf = w @ xs" using Cons.prems(1) by (metis append_Cons drop_Suc drop_tl list.sel(3))
  ultimately show ?case using Cons.IH [of "Suc pos"] Cons.prems(2) by simp
qed simp

text \<open>A command word followed by numbers.\<close>

lemma sscanf_command:
  assumes w: "\<forall>c\<in>set w. \<not> isspace c \<and> c \<noteq> CHR ''%'' \<and> c \<noteq> CHR 0x00" and n: "ks \<noteq> []" "\<forall>n\<in>set ks. - (2 ^ 31) \<le> n \<and> n < 2 ^ 31"
    and r: "number_ends xs"
  shows "sscanf (w @ CHR '' '' # ints_text CHR '' '' ks @ xs) (w @ CHR '' '' # ints_fmt (length ks)) =
    (int (length ks), map ScanInt ks)"
proof -
  let ?buf = "w @ CHR '' '' # ints_text CHR '' '' ks @ xs"
  obtain f where f: "ints_fmt (length ks) = CHR ''%'' # f" using ints_fmt_first [of "length ks"] n(1) by auto
  have sp: "isspace CHR '' ''" by (simp add: isspace_def ord_c_def)
  have "vsscanf_loop ?buf (w @ CHR '' '' # ints_fmt (length ks)) 0 0 [] = vsscanf_loop ?buf (CHR '' '' # ints_fmt (length ks)) (length w) 0 []"
    using scan_literals [of 0 ?buf w _ "CHR '' '' # ints_fmt (length ks)" 0 "[]"] w by simp
  also have "\<dots> = vsscanf_loop ?buf (ints_fmt (length ks)) (length w + 1) 0 []"
    unfolding f using ints_text_first [OF n, of "CHR '' ''"] sp
    by (subst scan_blank [where ws = "[CHR '' '']" and xs = "ints_text CHR '' '' ks @ xs"]) simp_all
  also have "\<dots> = vsscanf_loop ?buf [] (length ?buf - length xs) (int (length ks)) (map ScanInt ks)"
    using scan_ints [of "length w + 1" ?buf "CHR '' ''" ks xs "[]" 0 "[]"] n sp r by simp
  finally show ?thesis by (simp add: sscanf_def vsscanf_loop.simps [of _ "[]"] scan_tail_def char_at_def)
qed

lemma fmt_d_chars:
  assumes "- (2 ^ 31) \<le> n" "n < 2 ^ 31" "c \<in> set (fmt_d n)"
  shows "isdigit c \<or> c = CHR ''-''"
proof (cases "0 \<le> n")
  case True
  then show ?thesis using assms isdigit_decimal [of n c] by (simp add: fmt_d_decimal)
next
  case False
  then show ?thesis using assms isdigit_decimal [of "- n" c] by (auto simp: fmt_d_negative)
qed

lemma ints_text_chars:
  assumes "\<forall>n\<in>set ks. - (2 ^ 31) \<le> n \<and> n < 2 ^ 31" "c \<in> set (ints_text CHR '' '' ks)"
  shows "isdigit c \<or> c = CHR ''-'' \<or> c = CHR '' ''"
  using assms by (induction "CHR '' ''" ks rule: ints_text.induct) (auto dest: fmt_d_chars [simplified])

text \<open>The line of a command as the caller passes it: ended by a newline and a NUL.\<close>

definition command :: "string \<Rightarrow> int list \<Rightarrow> string" where
  "command w ks = w @ CHR '' '' # ints_text CHR '' '' ks @ [CHR 0x0A]"

lemma line_chars: "isspace CHR 0x0A" "\<not> isdigit CHR 0x0A" "\<not> isdigit CHR 0x00" "number_ends [CHR 0x0A]"
  by code_simp+

lemma command_read:
  assumes w: "\<forall>c\<in>set w. \<not> isspace c \<and> c \<noteq> CHR ''%'' \<and> c \<noteq> CHR 0x00" and n: "ks \<noteq> []" "\<forall>n\<in>set ks. - (2 ^ 31) \<le> n \<and> n < 2 ^ 31"
    and l: "length (command w ks) \<le> 1000"
  shows "bufreadline (command w ks @ [CHR 0x00]) (Suc (length (command w ks))) 1000 = Inr (length (command w ks), command w ks)"
    "c_string (command w ks @ [CHR 0x00]) = command w ks"
    "sscanf (command w ks) (w @ CHR '' '' # ints_fmt (length ks)) = (int (length ks), map ScanInt ks)"
proof -
  let ?body = "w @ CHR '' '' # ints_text CHR '' '' ks"
  have ws: "c \<noteq> CHR 0x0A" if "c \<in> set w" for c using bspec [OF w that] line_chars(1) by blast
  have d: "c \<noteq> CHR 0x0A \<and> c \<noteq> CHR 0x00" if "c \<in> set (ints_text CHR '' '' ks)" for c
    using ints_text_chars [OF n(2) that] line_chars(2-) by auto
  have body: "\<forall>c\<in>set ?body. c \<noteq> CHR 0x0A \<and> c \<noteq> CHR 0x00"
    unfolding set_append set_simps ball_Un ball_simps using bspec [OF w] ws d by blast
  have e: "command w ks @ [CHR 0x00] = ?body @ CHR 0x0A # [CHR 0x00]" by (simp add: command_def)
  show "bufreadline (command w ks @ [CHR 0x00]) (Suc (length (command w ks))) 1000 = Inr (length (command w ks), command w ks)"
    unfolding e using bufreadline_line [OF body, of "Suc (length (command w ks))" 1000 "[CHR 0x00]"] l by (simp add: command_def)
  have "\<forall>c\<in>set (command w ks). c \<noteq> CHR 0x00" using body by (simp add: command_def)
  then show "c_string (command w ks @ [CHR 0x00]) = command w ks" by (simp add: c_string_def takeWhile_append2)
  from sscanf_command [OF w n line_chars(4)] show "sscanf (command w ks) (w @ CHR '' '' # ints_fmt (length ks)) = (int (length ks), map ScanInt ks)"
    by (simp add: command_def)
qed

lemma formats_eq:
  "''set'' @ CHR '' '' # ints_fmt 6 = ''set %d %d %d %d %d %d''"
  "''cancel'' @ CHR '' '' # ints_fmt 1 = ''cancel %d''"
  by code_simp+

lemma words_plain:
  "\<forall>c\<in>set ''set''. \<not> isspace c \<and> c \<noteq> CHR ''%'' \<and> c \<noteq> CHR 0x00"
  "\<forall>c\<in>set ''cancel''. \<not> isspace c \<and> c \<noteq> CHR ''%'' \<and> c \<noteq> CHR 0x00"
  by code_simp+

lemma command_ends: "CHR 0x00 \<in> set (command w ks @ [CHR 0x00])" "0 < length (command w ks)"
  by (simp_all add: command_def)

text \<open>C36. A reservation request is carried out as written: the line \<^verbatim>\<open>set tid C.sec C.nsec T.sec T.nsec cpu\<close>, printed from
  any six numbers of type \<^verbatim>\<open>int\<close> with a processor from 0 to 3, makes the device call \<^verbatim>\<open>set_reserve\<close> with exactly these numbers, and the line
  \<^verbatim>\<open>cancel tid\<close> makes it call \<^verbatim>\<open>cancel_reserve\<close> with this thread. A successful request returns the length of the line; a
  failed \<^verbatim>\<open>set\<close> returns \<^verbatim>\<open>-EINVAL\<close>, and a failed \<^verbatim>\<open>cancel\<close> is not reported.\<close>

theorem resdev_write_parses:
  assumes b: "\<forall>n\<in>{tid, Csec, Cnsec, Tsec, Tnsec, cpu}. - (2 ^ 31) \<le> n \<and> n < 2 ^ 31" and c: "0 \<le> cpu" "cpu \<le> 3"
    and k: "fst (kmalloc e 4 (rd_k d)) \<noteq> 0"
    and l: "length (command ''set'' [tid, Csec, Cnsec, Tsec, Tnsec, cpu]) \<le> 1000" "length (command ''cancel'' [tid]) \<le> 1000"
  shows "resdev_write e d (command ''set'' [tid, Csec, Cnsec, Tsec, Tnsec, cpu] @ [CHR 0x00]) =
      bindR (set_reserve_dev e (d\<lparr>rd_k := snd (kmalloc e 4 (rd_k d))\<rparr>) tid (Some \<lparr>tv_sec = Csec, tv_nsec = Cnsec\<rparr>)
               (Some \<lparr>tv_sec = Tsec, tv_nsec = Tnsec\<rparr>) cpu)
        (\<lambda>(r, d1). Inr (if r \<noteq> 0 then - EINVAL else int (length (command ''set'' [tid, Csec, Cnsec, Tsec, Tnsec, cpu])), d1)) \<and>
    resdev_write e d (command ''cancel'' [tid] @ [CHR 0x00]) =
      bindR (cancel_reserve_dev e (d\<lparr>rd_k := snd (kmalloc e 4 (rd_k d))\<rparr>) tid)
        (\<lambda>(r, d1). Inr (int (length (command ''cancel'' [tid])), d1))"
proof -
  let ?ks = "[tid, Csec, Cnsec, Tsec, Tnsec, cpu]"
  have b6: "\<forall>n\<in>set ?ks. - (2 ^ 31) \<le> n \<and> n < 2 ^ 31" and b1: "\<forall>n\<in>set [tid]. - (2 ^ 31) \<le> n \<and> n < 2 ^ 31" using b by simp_all
  note s = command_read [OF words_plain(1) _ b6 l(1)]
  note x = command_read [OF words_plain(2) _ b1 l(2)]
  obtain buf s1 where m: "kmalloc e 4 (rd_k d) = (buf, s1)" "buf \<noteq> 0" using k by (cases "kmalloc e 4 (rd_k d)") auto
  have six: "length ?ks = 6" "length [tid] = 1" by simp_all
  have t: "take 3 (command ''set'' ?ks) = ''set''" "take 6 (command ''cancel'' [tid]) = ''cancel''" "take 3 (command ''cancel'' [tid]) \<noteq> ''set''"
    by (simp_all add: command_def)
  have f: "sscanf (command ''set'' ?ks) ''set %d %d %d %d %d %d'' = (6, map ScanInt ?ks)"
    using s(3) unfolding six formats_eq by simp
  have g: "sscanf (command ''cancel'' [tid]) ''cancel %d'' = (1, [ScanInt tid])"
    using x(3) unfolding six formats_eq by simp
  show ?thesis
    using c m(2) command_ends t(3)
    by (simp add: resdev_write_def m(1) s(1,2) x(1,2) t(1,2) f g del: set_append take_append)
qed

theorem resdev_write_parses_witness:
  "resdev_write one_cpu_env \<lparr>rd_k = boot_state [7], rd_p_start = (\<lambda>_. 0), rd_signals = [], rd_open = 1, rd_process_cnt = 0, rd_majors = {98}\<rparr>
     (command ''cancel'' [8] @ [CHR 0x00]) =
   Inr (9, \<lparr>rd_k = snd (kmalloc one_cpu_env 4 (boot_state [7])), rd_p_start = (\<lambda>_. 0), rd_signals = [], rd_open = 1, rd_process_cnt = 0, rd_majors = {98}\<rparr>)"
proof -
  have "fst (kmalloc one_cpu_env 4 (boot_state [7])) \<noteq> 0" "length (command ''set'' [8, 0, 1, 0, 2, 1]) \<le> 1000" "length (command ''cancel'' [8]) = 9"
    "find_task_by_vpid (snd (kmalloc one_cpu_env 4 (boot_state [7]))) 8 = None"
    by code_simp+
  then show ?thesis
    using resdev_write_parses [of 8 0 1 0 2 1 one_cpu_env
        "\<lparr>rd_k = boot_state [7], rd_p_start = (\<lambda>_. 0), rd_signals = [], rd_open = 1, rd_process_cnt = 0, rd_majors = {98}\<rparr>"]
    by (simp add: cancel_reserve_dev_def)
qed

section \<open>The timers and the samples\<close>

text \<open>The signal goes out when the budget is reached, at most once until the period timer clears the mark, and to the running thread.\<close>

lemma c_timer_signals:
  assumes "c_timer_callback_dev e m cur t d = Inr (x, d')"
  shows "x = HRTIMER_RESTART \<and>
    (if reached (add_interval m (r_acc (rd_reserve d cur))) (r_C (rd_reserve d cur)) \<and> r_sig_sent (rd_reserve d cur) = 0
     then rd_signals d' = cur # rd_signals d \<and> r_sig_sent (rd_reserve d' cur) = 1
     else rd_signals d' = rd_signals d \<and> r_sig_sent (rd_reserve d' cur) = r_sig_sent (rd_reserve d cur)) \<and>
    r_acc (rd_reserve d' cur) = add_interval m (r_acc (rd_reserve d cur))"
  using assms by (auto simp: c_timer_callback_dev_def on_k_def Let_def bindR_eq_Inr split: if_splits)

lemma p_timer_clears:
  assumes "p_timer_callback_dev e cur t d = Inr (x, d')" "taskmon_attr_set (rd_k d) = False"
  shows "x = HRTIMER_RESTART \<and> r_sig_sent (rd_reserve d' cur) = 0 \<and> r_acc (rd_reserve d' cur) = zero_time \<and> rd_signals d' = rd_signals d"
  using assms by (auto simp: p_timer_callback_dev_def Let_def bindR_eq_Inr split: if_splits)

text \<open>A thread's timer that fires while another thread runs charges the other thread.\<close>

lemma c_timer_charges_running:
  assumes "c_timer_callback_dev e m cur t d = Inr (x, d')" "cur \<noteq> t"
  shows "r_acc (rd_reserve d' t) = r_acc (rd_reserve d t)"
  using assms by (auto simp: c_timer_callback_dev_def on_k_def Let_def bindR_eq_Inr split: if_splits)

text \<open>A period of zero milliseconds: the division by repeated addition does not end.\<close>

lemma count_up_stuck: "count_up n 0 0 x = Some y \<Longrightarrow> n \<le> 0"
  using count_up.raw_induct [of "\<lambda>n (k :: int) (i :: int) x y. k = 0 \<longrightarrow> i = 0 \<longrightarrow> n \<le> 0" "(((n, 0), 0), x)" y]
  by (auto split: if_splits simp: s32_id)

lemma sum_times_eq: "0 \<le> x \<Longrightarrow> 0 \<le> y \<Longrightarrow> x + int n * y < 2 ^ 31 \<Longrightarrow> sum_times n y x = x + int n * y"
proof (induction n)
  case (Suc n)
  define a where "a = int n * y"
  have a: "0 \<le> a" "int (Suc n) * y = a + y" using Suc.prems(2) by (simp_all add: a_def distrib_right)
  have b: "x + a + y < 2 ^ 31" using Suc.prems(3) unfolding a(2) by simp
  then have "sum_times n y x = x + a" using Suc.IH Suc.prems(1,2) unfolding a_def [symmetric] by simp
  moreover have "s32 (x + a + y) = x + a + y" using Suc.prems(1,2) a(1) b by (intro s32_id) simp_all
  ultimately show ?case unfolding a(2) by (simp add: sum_times_def)
qed (simp add: sum_times_def)

text \<open>The recorded sample: percent of the period, each division rounded up.\<close>

definition util_up :: "timespec \<Rightarrow> int \<Rightarrow> int" where
  "util_up acc period = (100 * millis_up acc + period - 1) div period"

lemma record_sample_dev_eq:
  fixes s t
  defines "r \<equiv> reserve s t"
  assumes p: "r_periods r \<noteq> 0" "0 \<le> ring_next (r_end r)" "ring_next (r_end r) < BUF_LENGTH"
    and a: "0 \<le> tv_sec (r_acc r)" "0 \<le> tv_nsec (r_acc r)" "tv_nsec (r_acc r) < 10 ^ 9" "100 * millis_up (r_acc r) + r_period r < 2 ^ 31"
    and P: "0 < r_period r"
  shows "\<exists>s'. record_sample_dev t s = Inr s' \<and>
    r_end (reserve s' t) = ring_next (r_end r) \<and>
    r_utilization (reserve s' t) (ring_next (r_end r)) = util_up (r_acc r) (r_period r) \<and>
    karray s' (r_periods r) (ring_next (r_end r)) = r_total_time r"
proof -
  let ?S = "tv_sec (r_acc r)" and ?N = "tv_nsec (r_acc r)"
  let ?M = "millis_up (r_acc r)"
  have z: "0 \<le> (?N + 999999) div 1000000" using a(2) by simp
  have M: "?M = 1000 * ?S + (?N + 999999) div 1000000" by (simp add: millis_up_def)
  have b: "0 \<le> ?M" "100 * ?M < 2 ^ 31" using a z P M by linarith+
  have S: "sum_times (nat ?S) 1000 0 = 1000 * ?S" using sum_times_eq [of 0 1000 "nat ?S"] a(1) z b M by simp
  have N: "the_count (count_up ?N 1000000 0 (1000 * ?S)) = Inr ?M"
  proof (cases "?N = 0")
    case False
    then have "1000 * ?S + ?N < 2 ^ 31" using a b z M by simp
    with False show ?thesis using count_up_eq [of 1000000 ?N 0 "1000 * ?S"] a M by (simp add: the_count_def)
  qed (simp add: M count_up.simps the_count_def)
  have H: "sum_times 100 ?M 0 = 100 * ?M" using sum_times_eq [of 0 ?M 100] b by simp
  have U: "the_count (count_up (100 * ?M) (r_period r) 0 0) = Inr (util_up (r_acc r) (r_period r))"
  proof (cases "?M = 0")
    case False
    with b show ?thesis using count_up_eq [of "r_period r" "100 * ?M" 0 0] a(4) P by (simp add: the_count_def util_up_def)
  next
    case True
    then show ?thesis using P by (simp add: count_up.simps the_count_def util_up_def)
  qed
  show ?thesis
    using p unfolding record_sample_dev_def Let_def r_def [symmetric] S N H by (simp add: S N H U)
qed

text \<open>Reading the samples ends.\<close>

lemma tid_step_dev_longer:
  assumes "tid_step_dev t s buf i = Inr (s1, buf1, i1)"
  shows "length buf < length buf1 \<and> length buf1 < 4096"
proof -
  let ?r = "reserve s t"
  obtain b where b: "emit buf (fmt_u (karray s (r_periods ?r) (r_start ?r)) @ '' '') = Inr b" and "\<exists>l. emit b l = Inr buf1"
    using assms by (auto simp: tid_step_dev_def Let_def bindR_eq_Inr split: prod.splits if_splits)
  with emit_nonempty [OF b] emit_longer [of b] show ?thesis by fastforce
qed

lemma tid_loop_dev_total: "\<exists>x. tid_loop_dev t s buf i = Some x"
proof (induction "4096 - length buf" arbitrary: s buf i rule: less_induct)
  case less
  show ?case
  proof (cases "tid_step_dev t s buf i")
    case (Inl e)
    then show ?thesis by (subst tid_loop_dev.simps) (simp add: Let_def)
  next
    case (Inr x)
    obtain s1 buf1 i1 where x: "x = (s1, buf1, i1)" by (cases x)
    with Inr tid_step_dev_longer have "length buf < length buf1 \<and> length buf1 < 4096" by blast
    then have "4096 - length buf1 < 4096 - length buf" by arith
    from less [OF this] obtain y where "tid_loop_dev t s1 buf1 i1 = Some y" by blast
    with Inr x show ?thesis by (subst tid_loop_dev.simps) (simp add: Let_def)
  qed
qed

section \<open>What the module leaves behind\<close>

text \<open>The device number the module registered stays registered when the module is removed.\<close>

lemma resdev_unload: "0 \<le> major \<Longrightarrow> 98 \<in> rd_majors (resdev_cleanup (snd (resdev_init major d)))"
  by (simp add: resdev_init_def resdev_cleanup_def)

text \<open>A line without its NUL is searched past the end of the copy.\<close>

lemma resdev_write_unended:
  assumes "CHR 0x00 \<notin> set buff" "buff \<noteq> []" "fst (kmalloc e 4 (rd_k d)) \<noteq> 0" "bufreadline buff (length buff) 1000 = Inr (n, l)" "n \<noteq> 0"
  shows "resdev_write e d buff = Inl OutOfBounds"
  using assms by (auto simp: resdev_write_def Let_def split: prod.splits)

text \<open>Two requests for one thread add their periods.\<close>

lemma find_task_upd_reserve: "find_task_by_vpid (upd_reserve t f s) tid = find_task_by_vpid s tid"
  unfolding find_task_by_vpid_def by (rule find_cong) (simp_all add: upd_reserve_def upd_task_def)

lemma set_reserve_dev_eq:
  assumes "find_task_by_vpid (rd_k d) tid = Some t" "e_setaffinity e tid [cpu] = 0" "0 \<le> cpu" "cpu \<le> 3" "util_kobj (rd_k d) = 0"
    "0 \<le> tv_sec T" "0 \<le> tv_nsec T" "tv_nsec T < 2 ^ 31" "0 \<le> r_period (rd_reserve d t)" "r_period (rd_reserve d t) + millis_up T < 2 ^ 31"
  shows "\<exists>d'. set_reserve_dev e d tid (Some C) (Some T) cpu = Inr (0, d') \<and> r_C (rd_reserve d' t) = C \<and> r_T (rd_reserve d' t) = T \<and>
    r_period (rd_reserve d' t) = r_period (rd_reserve d t) + millis_up T \<and> util_kobj (rd_k d') = 0 \<and>
    find_task_by_vpid (rd_k d') tid = Some t"
  using assms by (auto simp: set_reserve_dev_def add_period_eq create_file_dev_def find_task_upd_reserve Let_def)

lemma set_reserve_dev_twice:
  assumes "find_task_by_vpid (rd_k d) tid = Some t" "e_setaffinity e tid [cpu] = 0" "0 \<le> cpu" "cpu \<le> 3" "util_kobj (rd_k d) = 0"
    "0 \<le> tv_sec T" "0 \<le> tv_nsec T" "tv_nsec T < 2 ^ 31" "r_period (rd_reserve d t) = 0" "2 * millis_up T < 2 ^ 31"
  shows "\<exists>d' d''. set_reserve_dev e d tid (Some C) (Some T) cpu = Inr (0, d') \<and> set_reserve_dev e d' tid (Some C) (Some T) cpu = Inr (0, d'') \<and>
    r_T (rd_reserve d'' t) = T \<and> r_period (rd_reserve d'' t) = 2 * millis_up T"
proof -
  have m: "0 \<le> millis_up T" using assms by (simp add: millis_up_def)
  from set_reserve_dev_eq [OF assms(1-8), of C] assms m obtain d' where d': "set_reserve_dev e d tid (Some C) (Some T) cpu = Inr (0, d')"
    "r_period (rd_reserve d' t) = millis_up T" "util_kobj (rd_k d') = 0" "find_task_by_vpid (rd_k d') tid = Some t" by auto
  from set_reserve_dev_eq [OF d'(4) assms(2-4) d'(3) assms(6-8), of C] assms(10) m d' show ?thesis by auto
qed

end
