(* ===== verification/Calc.thy ===== *)
theory Calc
  imports Prelude
begin

text \<open>
  The calculator system call of \<^verbatim>\<open>rtes/kernel/calc.c\<close>: the four operations on IEEE 754 single precision
  numbers with integer instructions. All its variables are \<^verbatim>\<open>u32\<close>, so the model works on \<^typ>\<open>32 word\<close>.
  \<^item> The search for the leading one counts an unsigned \<^verbatim>\<open>pos\<close> down while \<^verbatim>\<open>pos >= 0\<close>, which always holds; it is
    a \<open>partial_function\<close>, and a search that never ends is the fault \<open>Diverges\<close>.
  \<^item> A shift by 32 and more is what the processor makes of it: the amount is the lowest byte of the register
    and everything is shifted out.
\<close>

unbundle bit_operations_syntax

section \<open>The code\<close>

definition EXP_MASK :: "32 word" where "EXP_MASK = 0x7f800000"
definition FRAC_MASK :: "32 word" where "FRAC_MASK = 0x007fffff"
definition SIGN_MASK :: "32 word" where "SIGN_MASK = 0x80000000"
definition EXP_BIAS :: "32 word" where "EXP_BIAS = 127"
definition EXP_MAX :: "32 word" where "EXP_MAX = 255"
definition CALC_EINVAL :: "32 word" where "CALC_EINVAL = 22"

lemmas calc_consts = EXP_MASK_def FRAC_MASK_def SIGN_MASK_def EXP_BIAS_def EXP_MAX_def CALC_EINVAL_def

definition arm_shl :: "32 word \<Rightarrow> 32 word \<Rightarrow> 32 word" where
  "arm_shl x amount = push_bit (unat (amount AND 0xff)) x"

definition arm_shr :: "32 word \<Rightarrow> 32 word \<Rightarrow> 32 word" where
  "arm_shr x amount = drop_bit (unat (amount AND 0xff)) x"

definition exp_of :: "32 word \<Rightarrow> 32 word" where
  "exp_of n = drop_bit 23 (n AND EXP_MASK) - EXP_BIAS"

definition frac_of :: "32 word \<Rightarrow> 32 word" where
  "frac_of n = (n AND FRAC_MASK) OR push_bit 23 1"

definition sign_of :: "32 word \<Rightarrow> 32 word" where
  "sign_of n = drop_bit 31 (n AND SIGN_MASK)"

text \<open>The alignment of the fractions to the larger exponent.\<close>

definition align :: "32 word \<Rightarrow> 32 word \<Rightarrow> 32 word \<Rightarrow> 32 word \<Rightarrow> 32 word \<times> 32 word \<times> 32 word" where
  "align exp1 frac1 exp2 frac2 =
     (if exp1 > exp2 then (frac1, arm_shr frac2 (exp1 - exp2), exp1)
      else (arm_shr frac1 (exp2 - exp1), frac2, exp2))"

text \<open>The result of adding, for each combination of signs, as fraction and sign.\<close>

definition add_signed :: "32 word \<Rightarrow> 32 word \<Rightarrow> 32 word \<Rightarrow> 32 word \<Rightarrow> 32 word \<times> 32 word" where
  "add_signed sign1 frac1 sign2 frac2 =
     (if sign1 \<noteq> 0 \<and> sign2 \<noteq> 0 then (frac1 + frac2, 1)
      else if sign1 = 0 \<and> sign2 = 0 then (frac1 + frac2, 0)
      else if sign1 \<noteq> 0 then (if frac1 > frac2 then (frac1 - frac2, 1) else (frac2 - frac1, 0))
      else (if frac1 > frac2 then (frac1 - frac2, 0) else (frac2 - frac1, 1)))"

definition sub_signed :: "32 word \<Rightarrow> 32 word \<Rightarrow> 32 word \<Rightarrow> 32 word \<Rightarrow> 32 word \<times> 32 word" where
  "sub_signed sign1 frac1 sign2 frac2 =
     (if sign1 = 0 \<and> sign2 \<noteq> 0 then (frac1 + frac2, 0)
      else if sign1 \<noteq> 0 \<and> sign2 = 0 then (frac1 + frac2, 1)
      else if sign1 \<noteq> 0 then (if frac1 > frac2 then (frac1 - frac2, 1) else (frac2 - frac1, 0))
      else (if frac1 > frac2 then (frac1 - frac2, 0) else (frac2 - frac1, 1)))"

text \<open>\<^verbatim>\<open>for (pos = 32; pos >= 0; pos--) if (frac & (1 << pos)) break;\<close>\<close>

partial_function (option) lead_loop :: "32 word \<Rightarrow> 32 word \<Rightarrow> 32 word option" where
  "lead_loop frac pos = (if frac AND arm_shl 1 pos \<noteq> 0 then Some pos else lead_loop frac (pos - 1))"

declare lead_loop.simps [code]

definition reconstruct :: "32 word \<Rightarrow> 32 word \<Rightarrow> 32 word \<Rightarrow> 32 word res" where
  "reconstruct sign frac exp =
     (case lead_loop frac 32 of
        None \<Rightarrow> Inl Diverges
      | Some pos \<Rightarrow>
          let (frac, exp) = (if pos > 23 then (arm_shr frac (pos - 23), exp + (pos - 23))
                             else (arm_shl frac (23 - pos), exp - (23 - pos)));
              frac = frac AND NOT (push_bit 23 1);
              exp = exp + EXP_BIAS
          in if exp > EXP_MAX then Inr CALC_EINVAL
             else if exp = EXP_MAX \<and> frac \<noteq> 0 then Inr CALC_EINVAL
             else Inr ((push_bit 31 sign AND SIGN_MASK) OR (frac AND FRAC_MASK) OR (push_bit 23 exp AND EXP_MASK)))"

definition calc :: "32 word \<Rightarrow> 32 word \<Rightarrow> char \<Rightarrow> 32 word res" where
  "calc n1 n2 op =
     (let exp1 = exp_of n1; frac1 = frac_of n1; sign1 = sign_of n1;
          exp2 = exp_of n2; frac2 = frac_of n2; sign2 = sign_of n2
      in if op \<noteq> CHR ''+'' \<and> op \<noteq> CHR ''-'' \<and> op \<noteq> CHR ''*'' \<and> op \<noteq> CHR ''/'' then Inr CALC_EINVAL
         else if op = CHR ''+'' \<or> op = CHR ''-'' then
           let (frac1, frac2, exp) = align exp1 frac1 exp2 frac2;
               (frac, sign) = (if op = CHR ''+'' then add_signed sign1 frac1 sign2 frac2
                               else sub_signed sign1 frac1 sign2 frac2)
           in reconstruct sign frac exp
         else if op = CHR ''*'' then
           let tmp_frac = (ucast frac1 :: 64 word) * ucast frac2
           in reconstruct (sign1 XOR sign2) (ucast (drop_bit 23 tmp_frac)) (exp1 + exp2)
         else if frac2 = push_bit 23 1 then Inr CALC_EINVAL
         else reconstruct (sign1 XOR sign2) (push_bit 8 frac1 div drop_bit 15 frac2) (exp1 - exp2))"

section \<open>Numbers\<close>

text \<open>The members of a number: sign, exponent and the significand with its leading one. Every bit pattern
  is read this way, so there is no zero.\<close>

definition sgn_bit :: "32 word \<Rightarrow> int" where "sgn_bit n = uint n div 2 ^ 31"
definition expo :: "32 word \<Rightarrow> int" where "expo n = uint n div 2 ^ 23 mod 256"
definition sig :: "32 word \<Rightarrow> int" where "sig n = uint n mod 2 ^ 23 + 2 ^ 23"

definition number_of :: "int \<Rightarrow> int \<Rightarrow> int \<Rightarrow> 32 word" where
  "number_of s e m = word_of_int (s * 2 ^ 31 + e * 2 ^ 23 + (m - 2 ^ 23))"

lemma uint_take_bit: "uint (take_bit k (w :: 32 word)) = uint w mod 2 ^ k"
  unfolding unsigned_take_bit_eq by (simp only: take_bit_eq_mod)

lemma uint_drop_bit: "uint (drop_bit k (w :: 32 word)) = uint w div 2 ^ k"
proof -
  have "take_bit 32 (uint w) = uint w" using uint_lt2p [of w] by (simp add: take_bit_int_eq_self)
  then show ?thesis unfolding unsigned_drop_bit_eq by (simp add: drop_bit_eq_div)
qed

lemma exp_raw: "uint (drop_bit 23 (n AND EXP_MASK)) = expo n"
proof -
  have "drop_bit 23 (n AND EXP_MASK) = take_bit 8 (drop_bit 23 n)"
    by (simp add: drop_bit_and calc_consts take_bit_eq_mask mask_eq_exp_minus_1)
  then show ?thesis by (simp add: uint_take_bit uint_drop_bit expo_def)
qed

lemma exp_of_eq: "exp_of n = word_of_int (expo n - 127)"
proof -
  have "drop_bit 23 (n AND EXP_MASK) = word_of_int (expo n)" using exp_raw [of n] by (metis word_of_int_uint)
  then show ?thesis by (simp add: exp_of_def calc_consts)
qed

lemma frac_of_eq: "uint (frac_of n) = sig n"
proof -
  have m: "n AND FRAC_MASK = take_bit 23 n" by (simp add: calc_consts take_bit_eq_mask mask_eq_exp_minus_1)
  have "take_bit 23 n AND push_bit 23 1 = 0" by (rule bit_eqI) (simp only: bit_simps, auto)
  then have "frac_of n = take_bit 23 n + push_bit 23 1" unfolding frac_of_def m by (simp add: disjunctive_add_eq_or)
  moreover have "uint n mod 8388608 < 8388608" by simp
  ultimately show ?thesis by (simp add: sig_def uint_word_ariths uint_take_bit push_bit_eq_mult)
qed

lemma sign_of_eq: "uint (sign_of n) = sgn_bit n" "sign_of n = word_of_int (sgn_bit n)" "sgn_bit n = 0 \<or> sgn_bit n = 1"
proof -
  have a: "sign_of n = take_bit 1 (drop_bit 31 n)"
    by (simp add: sign_of_def drop_bit_and calc_consts take_bit_eq_mask mask_eq_exp_minus_1)
  have "uint n < 2 ^ 32" using uint_lt2p [of n] by simp
  then have lt: "uint n div 2 ^ 31 < 2" by (simp add: div_less_iff_less_mult)
  have ge: "0 \<le> uint n div 2 ^ 31" by (simp add: pos_imp_zdiv_nonneg_iff)
  show u: "uint (sign_of n) = sgn_bit n" unfolding a uint_take_bit uint_drop_bit sgn_bit_def using lt ge by simp
  then show "sign_of n = word_of_int (sgn_bit n)" by (metis word_of_int_uint)
  show "sgn_bit n = 0 \<or> sgn_bit n = 1" using lt ge unfolding sgn_bit_def by linarith
qed

lemma sig_range: "2 ^ 23 \<le> sig n \<and> sig n < 2 ^ 24"
  by (simp add: sig_def)

lemma expo_range: "0 \<le> expo n \<and> expo n \<le> 255"
proof -
  have "expo n < 256" by (simp add: expo_def)
  then show ?thesis by (simp add: expo_def)
qed

section \<open>The leading one\<close>

lemma low_byte: "k \<le> 255 \<Longrightarrow> unat ((of_nat k :: 32 word) AND 0xff) = k"
proof -
  assume k: "k \<le> 255"
  have "(of_nat k :: 32 word) AND 0xff = take_bit 8 (of_nat k)" by (simp add: take_bit_eq_mask mask_eq_exp_minus_1)
  moreover have "unat (take_bit 8 (of_nat k :: 32 word)) = unat (of_nat k :: 32 word) mod 2 ^ 8"
    unfolding unsigned_take_bit_eq by (simp only: take_bit_eq_mod)
  moreover have "unat (of_nat k :: 32 word) = k" using k by (simp add: unat_of_nat take_bit_eq_mod)
  ultimately show ?thesis using k by simp
qed

lemma lead_test: "k \<le> 255 \<Longrightarrow> frac AND arm_shl 1 (of_nat k) \<noteq> 0 \<longleftrightarrow> bit frac k"
  unfolding arm_shl_def low_byte by (simp add: bit_iff_and_push_bit_not_eq_0)

lemma bit_top:
  assumes "uint (w :: 32 word) < 2 ^ Suc k" "k < 32"
  shows "bit w k \<longleftrightarrow> 2 ^ k \<le> uint w"
proof -
  define q where "q = uint w div 2 ^ k"
  have "bit w k = bit (uint w) k" using assms(2) by (simp add: bit_uint_iff)
  then have bq: "bit w k = odd q" by (simp add: bit_iff_odd q_def)
  have "q < 2" using le_div_iff_int [of "2 ^ k" 2 "uint w"] assms(1) by (simp add: q_def)
  moreover have "0 \<le> q" by (simp add: pos_imp_zdiv_nonneg_iff q_def)
  ultimately have "q = 0 \<or> q = 1" by linarith
  moreover have "1 \<le> q \<longleftrightarrow> 2 ^ k \<le> uint w" using le_div_iff_int [of "2 ^ k" 1 "uint w"] by (simp add: q_def)
  ultimately show ?thesis using bq by auto
qed

lemma lead_loop_spec:
  assumes "k \<le> 32" "0 < uint frac" "uint frac < 2 ^ Suc k"
  shows "\<exists>p. p \<le> 31 \<and> lead_loop frac (of_nat k) = Some (of_nat p) \<and> 2 ^ p \<le> uint frac \<and> uint frac < 2 ^ Suc p"
  using assms
proof (induction k)
  case 0
  then have "bit frac 0" using bit_top [of frac 0] by simp
  then show ?case using lead_test [of 0 frac] 0 by (subst lead_loop.simps) (auto intro!: exI [of _ 0])
next
  case (Suc k)
  show ?case
  proof (cases "bit frac (Suc k)")
    case True
    then have "Suc k < 32" using bit_imp_le_length [of frac "Suc k"] by simp
    then show ?thesis
      using True lead_test [of "Suc k" frac] Suc.prems bit_top [of frac "Suc k"]
      by (subst lead_loop.simps) (auto intro!: exI [of _ "Suc k"])
  next
    case False
    have "uint frac < 2 ^ Suc k"
    proof (cases "Suc k < 32")
      case True
      then show ?thesis using bit_top [OF Suc.prems(3) True] False by simp
    next
      case f: False
      then have "Suc k = 32" using Suc.prems(1) by simp
      then show ?thesis using uint_lt2p [of frac] by simp
    qed
    moreover have "(of_nat (Suc k) :: 32 word) - 1 = of_nat k" by simp
    ultimately show ?thesis
      using Suc lead_test [of "Suc k" frac] False by (subst lead_loop.simps) auto
  qed
qed

lemma lead_loop_bit: "lead_loop frac pos = Some y \<Longrightarrow> frac AND arm_shl 1 y \<noteq> 0"
  by (rule lead_loop.raw_induct [of "\<lambda>frac pos y. frac AND arm_shl 1 y \<noteq> 0"]) (auto split: if_splits)

lemma lead_loop_zero: "lead_loop 0 pos = None"
  using lead_loop_bit [of 0 pos] by (cases "lead_loop 0 pos") auto

section \<open>Putting the number together\<close>

lemma pack_eq:
  "(push_bit 31 sign AND SIGN_MASK) OR (f AND FRAC_MASK) OR (push_bit 23 e AND EXP_MASK) =
   push_bit 31 sign + take_bit 23 f + push_bit 23 (take_bit 8 e)"
proof -
  have s: "push_bit 31 sign AND SIGN_MASK = push_bit 31 sign"
  proof -
    have m: "SIGN_MASK = push_bit 31 1" by (simp add: calc_consts)
    show ?thesis unfolding m by (rule bit_eqI) (simp only: bit_simps, auto)
  qed
  have f: "f AND FRAC_MASK = take_bit 23 f" by (simp add: calc_consts take_bit_eq_mask mask_eq_exp_minus_1)
  have e: "push_bit 23 e AND EXP_MASK = push_bit 23 (take_bit 8 e)"
  proof -
    have m: "EXP_MASK = push_bit 23 (mask 8)" by (simp add: calc_consts mask_eq_exp_minus_1)
    show ?thesis unfolding m by (rule bit_eqI) (simp only: bit_simps, auto)
  qed
  have 1: "push_bit 31 sign AND take_bit 23 f = 0" by (rule bit_eqI) (simp only: bit_simps, auto)
  have 2: "(push_bit 31 sign OR take_bit 23 f) AND push_bit 23 (take_bit 8 e) = 0" by (rule bit_eqI) (simp only: bit_simps, auto)
  show ?thesis unfolding s f e disjunctive_add_eq_or [OF 1] disjunctive_add_eq_or [OF 2] by (simp only: or.assoc)
qed

text \<open>The significand and the exponent that a fraction with its leading one at \<open>p\<close> is brought to.\<close>

definition norm_sig :: "int \<Rightarrow> nat \<Rightarrow> int" where
  "norm_sig x p = (if 23 < p then x div 2 ^ (p - 23) else x * 2 ^ (23 - p))"

lemma norm_sig_range:
  assumes "2 ^ p \<le> x" "x < 2 ^ Suc p"
  shows "2 ^ 23 \<le> norm_sig x p \<and> norm_sig x p < 2 ^ 24"
proof (cases "23 < p")
  case True
  have "p = 23 + (p - 23)" "Suc p = 24 + (p - 23)" using True by simp_all
  then have e: "(2::int) ^ p = 2 ^ 23 * 2 ^ (p - 23)" "(2::int) ^ Suc p = 2 ^ 24 * 2 ^ (p - 23)"
    by (simp_all only: power_add [symmetric])
  have "2 ^ 23 \<le> x div 2 ^ (p - 23)" using le_div_iff_int [of "2 ^ (p - 23)" "2 ^ 23" x] assms(1) e(1) by simp
  moreover have "\<not> 2 ^ 24 \<le> x div 2 ^ (p - 23)" using le_div_iff_int [of "2 ^ (p - 23)" "2 ^ 24" x] assms(2) e(2) by simp
  ultimately show ?thesis using True by (simp add: norm_sig_def)
next
  case False
  have "p + (23 - p) = 23" "Suc p + (23 - p) = 24" using False by simp_all
  then have e: "(2::int) ^ p * 2 ^ (23 - p) = 2 ^ 23" "(2::int) ^ Suc p * 2 ^ (23 - p) = 2 ^ 24"
    by (simp_all only: power_add [symmetric])
  have "2 ^ p * 2 ^ (23 - p) \<le> x * 2 ^ (23 - p)" using assms(1) by (intro mult_right_mono) simp_all
  moreover have "x * 2 ^ (23 - p) < 2 ^ Suc p * 2 ^ (23 - p)" using assms(2) by (intro mult_strict_right_mono) simp_all
  ultimately show ?thesis using False unfolding e by (simp add: norm_sig_def)
qed

lemma normalised_frac:
  fixes frac :: "32 word"
  assumes "p \<le> 31" "2 ^ p \<le> uint frac" "uint frac < 2 ^ Suc p"
  shows "uint (if 23 < p then drop_bit (p - 23) frac else push_bit (23 - p) frac) = norm_sig (uint frac) p"
proof (cases "23 < p")
  case True
  then show ?thesis by (simp add: uint_drop_bit norm_sig_def)
next
  case False
  have "uint (push_bit (23 - p) frac) = uint frac * 2 ^ (23 - p) mod 2 ^ 32"
    unfolding unsigned_push_bit_eq by (simp add: take_bit_eq_mod push_bit_eq_mult)
  moreover have "0 \<le> uint frac * 2 ^ (23 - p)" "uint frac * 2 ^ (23 - p) < 2 ^ 32"
    using norm_sig_range [OF assms(2,3)] False by (simp_all add: norm_sig_def)
  ultimately show ?thesis using False by (simp add: norm_sig_def)
qed

lemma word_small: "0 \<le> x \<Longrightarrow> x < 4294967296 \<Longrightarrow> uint (word_of_int x :: 32 word) = x"
  by (simp add: uint_word_of_int)

lemma reconstruct_spec:
  assumes p: "p \<le> 31" "2 ^ p \<le> uint frac" "uint frac < 2 ^ Suc p" and s: "s = 0 \<or> s = 1"
    and e: "0 \<le> E + int p - 23" "E + int p - 23 \<le> 254"
  shows "reconstruct (word_of_int s) frac (word_of_int (E - 127)) =
    Inr (number_of s (E + int p - 23) (norm_sig (uint frac) p))"
proof -
  have "(0::int) < 2 ^ p" by simp
  then have "0 < uint frac" using p(2) by (rule less_le_trans)
  moreover have "uint frac < 2 ^ Suc 32" using uint_lt2p [of frac] by simp
  ultimately obtain q where q: "q \<le> 31" "lead_loop frac (of_nat 32) = Some (of_nat q)" "2 ^ q \<le> uint frac" "uint frac < 2 ^ Suc q"
    using lead_loop_spec [of 32 frac] by auto
  have "q = p"
  proof -
    have "(2::int) ^ q < 2 ^ Suc p" "(2::int) ^ p < 2 ^ Suc q" using q(3,4) p(2,3) by linarith+
    then have "q < Suc p" "p < Suc q" by (simp_all only: power_strict_increasing_iff one_less_numeral_iff semiring_norm)
    then show ?thesis by simp
  qed
  let ?M = "norm_sig (uint frac) p" and ?E = "E + int p - 23"
  have big: "(of_nat p :: 32 word) > 23 \<longleftrightarrow> 23 < p" using p(1) by (simp add: word_less_nat_alt unat_of_nat take_bit_eq_mod)
  have d1: "(of_nat p :: 32 word) - 23 = of_nat (p - 23)" if "23 < p" using that by simp
  have d2: "23 - (of_nat p :: 32 word) = of_nat (23 - p)" if "\<not> 23 < p" using that by (simp add: of_nat_diff)
  let ?X = "if 23 < p then drop_bit (p - 23) frac else push_bit (23 - p) frac"
  have w1: "(word_of_int (E - 127) :: 32 word) + of_nat (p - 23) = word_of_int (?E - 127)" if "23 < p"
  proof -
    have "E - 127 + int (p - 23) = ?E - 127" using that by simp
    then show ?thesis by (metis of_int_add of_int_of_nat_eq)
  qed
  have w2: "(word_of_int (E - 127) :: 32 word) - of_nat (23 - p) = word_of_int (?E - 127)" if "\<not> 23 < p"
  proof -
    have "E - 127 - int (23 - p) = ?E - 127" using that by simp
    then show ?thesis by (metis of_int_diff of_int_of_nat_eq)
  qed
  have X: "(if of_nat p > (23 :: 32 word) then (arm_shr frac (of_nat p - 23), (word_of_int (E - 127) :: 32 word) + (of_nat p - 23))
      else (arm_shl frac (23 - of_nat p), word_of_int (E - 127) - (23 - of_nat p))) = (?X, word_of_int (?E - 127))"
  proof (cases "23 < p")
    case True
    have "p - 23 \<le> 255" using p(1) by simp
    from low_byte [OF this] show ?thesis by (simp only: big d1 [OF True] w1 [OF True] arm_shr_def True if_True)
  next
    case False
    have "23 - p \<le> 255" by simp
    from low_byte [OF this] show ?thesis by (simp only: big d2 [OF False] w2 [OF False] arm_shl_def False if_False)
  qed
  have uX: "uint ?X = ?M" by (rule normalised_frac [OF p])
  have M: "2 ^ 23 \<le> ?M" "?M < 2 ^ 24" using norm_sig_range [OF p(2,3)] by simp_all
  have ee: "word_of_int (?E - 127) + EXP_BIAS = (word_of_int ?E :: 32 word)" by (simp add: calc_consts)
  have uE: "uint (word_of_int ?E :: 32 word) = ?E" using e by (intro word_small) simp_all
  have lim: "\<not> (word_of_int ?E :: 32 word) > EXP_MAX" "(word_of_int ?E :: 32 word) \<noteq> EXP_MAX"
    using uE e by (auto simp: word_less_def calc_consts)
  have "take_bit 23 (?X AND NOT (push_bit 23 1)) = take_bit 23 ?X" by (rule bit_eqI) (simp only: bit_simps, auto)
  moreover have "uint (take_bit 23 ?X) = ?M - 2 ^ 23"
    unfolding uint_take_bit uX using M mod_pos_pos_trivial [of "?M - 8388608" 8388608] by simp
  ultimately have f: "take_bit 23 (?X AND NOT (push_bit 23 1)) = word_of_int (?M - 2 ^ 23)" by (metis word_of_int_uint)
  have "uint (take_bit 8 (word_of_int ?E :: 32 word)) = ?E" unfolding uint_take_bit uE using e by simp
  then have e8: "take_bit 8 (word_of_int ?E :: 32 word) = word_of_int ?E" by (metis word_of_int_uint)
  have "reconstruct (word_of_int s) frac (word_of_int (E - 127)) =
      Inr (push_bit 31 (word_of_int s) + word_of_int (?M - 2 ^ 23) + push_bit 23 (word_of_int ?E))"
    using q(2) lim unfolding \<open>q = p\<close>
    by (simp only: reconstruct_def of_nat_numeral option.case X Let_def prod.case ee if_False simp_thms pack_eq f e8)
  also have "\<dots> = Inr (number_of s ?E ?M)"
    by (simp add: number_of_def push_bit_eq_mult)
  finally show ?thesis .
qed

section \<open>Multiplication\<close>

lemma product_frac:
  "uint (ucast (drop_bit 23 ((ucast (frac_of n1) :: 64 word) * ucast (frac_of n2))) :: 32 word) = sig n1 * sig n2 div 2 ^ 23"
proof -
  let ?P = "sig n1 * sig n2"
  have r: "2 ^ 23 \<le> sig n1" "sig n1 < 2 ^ 24" "2 ^ 23 \<le> sig n2" "sig n2 < 2 ^ 24" using sig_range [of n1] sig_range [of n2] by simp_all
  then have P: "0 \<le> ?P" "?P < 2 ^ 48"
    using mult_strict_mono [of "sig n1" "2 ^ 24" "sig n2" "2 ^ 24"] by simp_all
  let ?w = "(ucast (frac_of n1) :: 64 word) * ucast (frac_of n2)"
  have u: "uint (ucast (frac_of n) :: 64 word) = sig n" for n
    using sig_range [of n] by (simp add: frac_of_eq unsigned_ucast_eq take_bit_int_eq_self)
  have "uint ?w = ?P" using P by (simp add: uint_word_ariths u)
  moreover have "uint (drop_bit 23 ?w) = uint ?w div 2 ^ 23"
    unfolding unsigned_drop_bit_eq using uint_lt2p [of ?w] by (simp add: drop_bit_eq_div take_bit_int_eq_self)
  ultimately have "uint (drop_bit 23 ?w) = ?P div 2 ^ 23" by simp
  moreover have "0 \<le> ?P div 2 ^ 23" "?P div 2 ^ 23 < 2 ^ 32"
    using P by (simp_all add: pos_imp_zdiv_nonneg_iff div_less_iff_less_mult)
  ultimately show ?thesis by (simp add: unsigned_ucast_eq take_bit_int_eq_self)
qed

lemma sign_xor:
  "sign_of n1 XOR sign_of n2 = word_of_int (if sgn_bit n1 = sgn_bit n2 then 0 else 1)"
  using sign_of_eq(3) [of n1] sign_of_eq(3) [of n2] unfolding sign_of_eq(2) by auto

section \<open>Addition\<close>

lemma shr_by:
  assumes "0 \<le> d" "d \<le> 255"
  shows "uint (arm_shr w (word_of_int d)) = uint w div 2 ^ nat d"
proof -
  have "(word_of_int d :: 32 word) = of_nat (nat d)" using assms(1) by simp
  then show ?thesis using assms low_byte [of "nat d"] by (simp only: arm_shr_def) (simp add: uint_drop_bit)
qed

lemma exp_less:
  assumes "127 \<le> expo n1 \<longleftrightarrow> 127 \<le> expo n2"
  shows "exp_of n1 > exp_of n2 \<longleftrightarrow> expo n2 < expo n1"
proof -
  have u: "uint (exp_of n) = (if 127 \<le> expo n then expo n - 127 else expo n - 127 + 2 ^ 32)" for n
  proof (cases "127 \<le> expo n")
    case True
    then show ?thesis unfolding exp_of_eq using expo_range [of n] by (subst word_small) simp_all
  next
    case False
    have "(word_of_int (expo n - 127) :: 32 word) = word_of_int (expo n - 127 + 2 ^ 32)" by simp
    then show ?thesis unfolding exp_of_eq using False expo_range [of n] by (simp add: word_small del: of_int_add of_int_diff)
  qed
  show ?thesis using assms by (simp add: word_less_def u)
qed

text \<open>Aligning truncates the smaller number; adding then truncates the exact sum.\<close>

definition exact_sum :: "32 word \<Rightarrow> 32 word \<Rightarrow> int" where
  "exact_sum n1 n2 = sig n1 * 2 ^ nat (expo n1 - expo n2) + sig n2 * 2 ^ nat (expo n2 - expo n1)"

lemma align_sum:
  assumes "127 \<le> expo n1 \<longleftrightarrow> 127 \<le> expo n2" "align (exp_of n1) (frac_of n1) (exp_of n2) (frac_of n2) = (f1, f2, e)"
  shows "e = word_of_int (max (expo n1) (expo n2) - 127)"
    "uint f1 + uint f2 = exact_sum n1 n2 div 2 ^ nat \<bar>expo n1 - expo n2\<bar>" "0 \<le> uint f1" "uint f1 < 2 ^ 24" "uint f2 < 2 ^ 24"
    "2 ^ 23 \<le> uint f1 + uint f2"
proof -
  have r: "0 \<le> expo n1" "expo n1 \<le> 255" "0 \<le> expo n2" "expo n2 \<le> 255" using expo_range by blast+
  have sg: "2 ^ 23 \<le> sig n1" "sig n1 < 2 ^ 24" "2 ^ 23 \<le> sig n2" "sig n2 < 2 ^ 24" using sig_range [of n1] sig_range [of n2] by simp_all
  have le: "0 \<le> sig n div 2 ^ k \<and> sig n div 2 ^ k \<le> sig n" for n and k :: nat
  proof -
    have "0 \<le> sig n" using sig_range [of n] by simp
    then show ?thesis using div_le_dividend_int [of "sig n" "2 ^ k"] by (simp add: pos_imp_zdiv_nonneg_iff)
  qed
  have d: "exp_of n1 - exp_of n2 = word_of_int (expo n1 - expo n2)" "exp_of n2 - exp_of n1 = word_of_int (expo n2 - expo n1)"
    by (simp_all add: exp_of_eq)
  have "e = word_of_int (max (expo n1) (expo n2) - 127) \<and>
    uint f1 + uint f2 = exact_sum n1 n2 div 2 ^ nat \<bar>expo n1 - expo n2\<bar> \<and> uint f1 < 2 ^ 24 \<and> uint f2 < 2 ^ 24 \<and>
    2 ^ 23 \<le> uint f1 + uint f2"
  proof (cases "expo n2 < expo n1")
    case True
    then have f: "f1 = frac_of n1" "f2 = arm_shr (frac_of n2) (word_of_int (expo n1 - expo n2))" "e = exp_of n1"
      using assms exp_less [OF assms(1)] by (simp_all add: align_def d)
    have "uint f2 = sig n2 div 2 ^ nat (expo n1 - expo n2)" unfolding f(2) using True r by (subst shr_by) (simp_all add: frac_of_eq)
    moreover have "exact_sum n1 n2 div 2 ^ nat \<bar>expo n1 - expo n2\<bar> = sig n1 + sig n2 div 2 ^ nat (expo n1 - expo n2)"
      using True by (simp add: exact_sum_def)
    ultimately show ?thesis using True sg f le [of n2 "nat (expo n1 - expo n2)"] by (simp add: frac_of_eq exp_of_eq)
  next
    case False
    then have f: "f2 = frac_of n2" "f1 = arm_shr (frac_of n1) (word_of_int (expo n2 - expo n1))" "e = exp_of n2"
      using assms exp_less [OF assms(1)] by (simp_all add: align_def d)
    have "uint f1 = sig n1 div 2 ^ nat (expo n2 - expo n1)" unfolding f(2) using False r by (subst shr_by) (simp_all add: frac_of_eq)
    moreover have "exact_sum n1 n2 div 2 ^ nat \<bar>expo n1 - expo n2\<bar> = sig n1 div 2 ^ nat (expo n2 - expo n1) + sig n2"
      using False by (simp add: exact_sum_def abs_minus_commute add.commute)
    ultimately show ?thesis using False sg f le [of n1 "nat (expo n2 - expo n1)"] by (simp add: frac_of_eq exp_of_eq)
  qed
  then show "e = word_of_int (max (expo n1) (expo n2) - 127)"
    "uint f1 + uint f2 = exact_sum n1 n2 div 2 ^ nat \<bar>expo n1 - expo n2\<bar>" "uint f1 < 2 ^ 24" "uint f2 < 2 ^ 24"
    "2 ^ 23 \<le> uint f1 + uint f2" "0 \<le> uint f1" by simp_all
qed

lemma add_signed_same: "sgn_bit n1 = sgn_bit n2 \<Longrightarrow>
   add_signed (sign_of n1) f1 (sign_of n2) f2 = (f1 + f2, word_of_int (sgn_bit n1))"
  using sign_of_eq(3) [of n1] by (auto simp: add_signed_def sign_of_eq(2))

text \<open>A fraction of 24 or 25 bits.\<close>

lemma reconstruct_carry:
  assumes x: "2 ^ 23 \<le> uint frac" "uint frac < 2 ^ 25" and s: "s = 0 \<or> s = 1"
    and k: "k = (if uint frac < 2 ^ 24 then 0 else 1)" and e: "0 \<le> E + int k" "E + int k \<le> 254"
  shows "reconstruct (word_of_int s) frac (word_of_int (E - 127)) = Inr (number_of s (E + int k) (uint frac div 2 ^ k))"
proof -
  have "norm_sig (uint frac) (23 + k) = uint frac div 2 ^ k" by (simp add: norm_sig_def k)
  moreover have "2 ^ (23 + k) \<le> uint frac" "uint frac < 2 ^ Suc (23 + k)" "23 + k \<le> 31" using x k by auto
  ultimately show ?thesis using reconstruct_spec [of "23 + k" frac s E] s e by simp
qed

section \<open>Properties\<close>



text \<open>C30. Adding numbers of the same sign gives the exact sum truncated to 24 bits, provided both are at
  least 1 in absolute value or both are less than 1.\<close>

theorem calc_add_truncates:
  fixes n1 n2 :: "32 word"
  assumes "sgn_bit n1 = sgn_bit n2" "127 \<le> expo n1 \<longleftrightarrow> 127 \<le> expo n2"
    and "d = nat \<bar>expo n1 - expo n2\<bar>" "k = (if exact_sum n1 n2 div 2 ^ d < 2 ^ 24 then 0 else 1)"
    and "max (expo n1) (expo n2) + int k \<le> 254"
  shows "calc n1 n2 (CHR ''+'') =
     Inr (number_of (sgn_bit n1) (max (expo n1) (expo n2) + int k) (exact_sum n1 n2 div 2 ^ (d + k)))"
proof -
  obtain f1 f2 e where al: "align (exp_of n1) (frac_of n1) (exp_of n2) (frac_of n2) = (f1, f2, e)"
    by (cases "align (exp_of n1) (frac_of n1) (exp_of n2) (frac_of n2)")
  note a = align_sum [OF assms(2) al]
  have "uint (f1 + f2) = uint f1 + uint f2" using a(3-5) by (simp add: uint_word_ariths)
  then have u: "uint (f1 + f2) = exact_sum n1 n2 div 2 ^ d" using a(2) assms(3) by simp
  have x: "2 ^ 23 \<le> uint (f1 + f2)" "uint (f1 + f2) < 2 ^ 25" "k = (if uint (f1 + f2) < 2 ^ 24 then 0 else 1)"
    using a(2-6) assms(3,4) unfolding u by simp_all
  have e0: "0 \<le> max (expo n1) (expo n2) + int k" using expo_range [of n1] by linarith
  have "exact_sum n1 n2 div 2 ^ d div 2 ^ k = exact_sum n1 n2 div 2 ^ (d + k)"
    by (simp add: zdiv_zmult2_eq power_add)
  with reconstruct_carry [OF x(1,2) sign_of_eq(3) [of n1] x(3) e0 assms(5)] u
  show ?thesis by (simp add: calc_def Let_def al add_signed_same [OF assms(1)] a(1))
qed

theorem calc_add_truncates_witness:
  "calc 0x41000000 0x3FC00000 (CHR ''+'') = Inr 0x41180000"
proof -
  have "sig 0x41000000 = 8388608" "sig 0x3FC00000 = 12582912" "expo 0x41000000 = 130" "expo 0x3FC00000 = 127"
    "sgn_bit 0x41000000 = 0" "sgn_bit 0x3FC00000 = 0" by (simp_all add: sig_def expo_def sgn_bit_def)
  then show ?thesis
    using calc_add_truncates [of "0x41000000" "0x3FC00000" 3 0] by (simp add: number_of_def exact_sum_def)
qed

text \<open>The exponents are compared as unsigned numbers, so a number below 1 counts as the larger one:
  8 + 0.5 is 0.5.\<close>

lemma calc_add_below_one:
  "calc 0x41000000 0x3F000000 (CHR ''+'') = Inr 0x3F000000"
  by code_simp

text \<open>C31. Subtracting a number from itself never returns: no bit of the difference is ever found, and the
  unsigned position counts down for ever.\<close>

theorem calc_sub_self_hangs:
  "calc n n (CHR ''-'') = Inl Diverges"
proof -
  have "arm_shr f 0 = f" for f :: "32 word" by (simp add: arm_shr_def)
  then show ?thesis by (simp add: calc_def Let_def align_def sub_signed_def reconstruct_def lead_loop_zero)
qed

text \<open>Division by a power of two, and so by zero, is refused.\<close>

lemma calc_div_power_of_two:
  assumes "sig n2 = 2 ^ 23"
  shows "calc n1 n2 (CHR ''/'') = Inr CALC_EINVAL"
proof -
  have "uint (frac_of n2) = uint (push_bit 23 1 :: 32 word)" using assms by (simp add: frac_of_eq)
  then have "frac_of n2 = push_bit 23 1" by (metis word_of_int_uint)
  then show ?thesis by (simp add: calc_def Let_def)
qed

end
