(* ===== verification/Jfloat.thy ===== *)
theory Jfloat
  imports Complex_Main
begin

text \<open>
  Numbers of type \<^verbatim>\<open>double\<close> and \<^verbatim>\<open>float\<close> of Java, and its \<^verbatim>\<open>int\<close> arithmetic as the game uses it.
  \<^item> A floating-point value is the real number it stands for. Each operation computes the exact result and rounds it
    to the nearest value of the format, a tie to the even one: \<open>dbl\<close> with 53 significant bits and \<open>flt\<close> with 24. Values
    too small for the full precision are on the grid of the smallest ones. Infinities and NaN are not represented:
    no operation of the game divides by zero, and its values are far from the largest ones. The sign of a zero is not
    represented.
  \<^item> \<open>d2i\<close> is the conversion to \<^verbatim>\<open>int\<close>: towards zero, and the nearest \<^verbatim>\<open>int\<close> when out of range.
\<close>

section \<open>Rounding\<close>

text \<open>The nearest integer, a tie to the even one.\<close>

definition rne :: "real \<Rightarrow> int" where
  "rne y = (let f = \<lfloor>y\<rfloor>; d = y - of_int f in if d < 1 / 2 \<or> (d = 1 / 2 \<and> even f) then f else f + 1)"

text \<open>The exponent of the last place of a number with \<open>p\<close> significant bits, at least \<open>m\<close>.\<close>

definition last_place :: "int \<Rightarrow> int \<Rightarrow> real \<Rightarrow> int" where
  "last_place p m x = max (\<lfloor>log 2 \<bar>x\<bar>\<rfloor> - p + 1) m"

definition round_to :: "int \<Rightarrow> int \<Rightarrow> real \<Rightarrow> real" where
  "round_to p m x = (if x = 0 then 0 else let u = 2 powr of_int (last_place p m x) in of_int (rne (x / u)) * u)"

definition dbl :: "real \<Rightarrow> real" where
  "dbl = round_to 53 (- 1074)"

definition flt :: "real \<Rightarrow> real" where
  "flt = round_to 24 (- 149)"

definition d2i :: "real \<Rightarrow> int" where
  "d2i x = max (- (2 ^ 31)) (min (2 ^ 31 - 1) (if 0 \<le> x then \<lfloor>x\<rfloor> else \<lceil>x\<rceil>))"

section \<open>Rounding to an integer\<close>

lemma rne_of_int [simp]: "rne (of_int n) = n"
  by (simp add: rne_def)

lemma rne_mono: "x \<le> y \<Longrightarrow> rne x \<le> rne y"
proof -
  assume xy: "x \<le> y"
  have f: "rne z = \<lfloor>z\<rfloor> \<or> rne z = \<lfloor>z\<rfloor> + 1" for z by (simp add: rne_def Let_def)
  have "\<lfloor>x\<rfloor> \<le> \<lfloor>y\<rfloor>" using xy by (rule floor_mono)
  then consider "\<lfloor>x\<rfloor> < \<lfloor>y\<rfloor>" | "\<lfloor>x\<rfloor> = \<lfloor>y\<rfloor>" by linarith
  then show ?thesis
  proof cases
    case 1
    with f [of x] f [of y] show ?thesis by linarith
  next
    case 2
    with xy show ?thesis by (auto simp: rne_def Let_def)
  qed
qed

lemma rne_minus: "rne (- y) = - rne y"
proof (cases "of_int \<lfloor>y\<rfloor> = y")
  case True
  then show ?thesis by (metis of_int_minus rne_of_int)
next
  case False
  then have "\<lceil>y\<rceil> = \<lfloor>y\<rfloor> + 1" by (simp add: ceiling_altdef)
  then have "\<lfloor>- y\<rfloor> = - \<lfloor>y\<rfloor> - 1" by (simp add: floor_minus)
  then show ?thesis by (simp add: rne_def Let_def) (auto simp: field_simps)
qed

lemma rne_between: "of_int a \<le> x \<Longrightarrow> x \<le> of_int b \<Longrightarrow> a \<le> rne x \<and> rne x \<le> b"
  using rne_mono [of "of_int a" x] rne_mono [of x "of_int b"] by simp

section \<open>Rounding to a format\<close>

lemma round_to_0 [simp]: "round_to p m 0 = 0"
  by (simp add: round_to_def)

lemma round_to_minus: "round_to p m (- x) = - round_to p m x"
  by (simp add: round_to_def last_place_def Let_def rne_minus)

lemma log_bounds:
  assumes "0 < x"
  shows "2 powr of_int \<lfloor>log 2 x\<rfloor> \<le> x \<and> x < 2 powr (of_int \<lfloor>log 2 x\<rfloor> + 1)"
  using floor_log_eq_powr_iff [OF assms, of 2 "\<lfloor>log 2 x\<rfloor>"] by simp

lemma powr_pow: "0 \<le> p \<Longrightarrow> (2 :: real) powr (of_int e + of_int p) = 2 powr of_int e * of_int (2 ^ nat p)"
  by (simp add: powr_add powr_realpow [symmetric])

text \<open>The significand is within its bits, and above half of them unless the number is small.\<close>

lemma significand_le:
  assumes "0 < x" "0 \<le> p"
  shows "rne (x / 2 powr of_int (last_place p m x)) \<le> 2 ^ nat p"
proof -
  let ?e = "last_place p m x"
  have "x < 2 powr (of_int \<lfloor>log 2 x\<rfloor> + 1)" using log_bounds [OF assms(1)] by simp
  also have "\<dots> \<le> 2 powr (of_int ?e + of_int p)" using assms(1) by (intro powr_mono) (auto simp: last_place_def)
  finally have "x / 2 powr of_int ?e \<le> of_int (2 ^ nat p)" by (simp add: powr_pow assms(2) divide_le_eq mult.commute)
  then show ?thesis using rne_mono by (metis rne_of_int)
qed

lemma significand_ge:
  assumes "0 < x" "1 \<le> p" "m < last_place p m x"
  shows "2 ^ nat (p - 1) \<le> rne (x / 2 powr of_int (last_place p m x))"
proof -
  let ?e = "last_place p m x"
  have "2 powr (of_int ?e + of_int (p - 1)) = 2 powr of_int \<lfloor>log 2 x\<rfloor>" using assms by (simp add: last_place_def max_def split: if_splits)
  also have "\<dots> \<le> x" using log_bounds [OF assms(1)] by simp
  finally have "of_int (2 ^ nat (p - 1)) \<le> x / 2 powr of_int ?e" using assms(2) by (subst (asm) powr_pow) (simp_all add: le_divide_eq mult.commute)
  then show ?thesis using rne_mono by (metis rne_of_int)
qed

lemma round_to_pos_mono:
  assumes "0 < x" "x \<le> y" "1 \<le> p"
  shows "round_to p m x \<le> round_to p m y"
proof -
  let ?ex = "last_place p m x" and ?ey = "last_place p m y"
  have y: "0 < y" using assms by simp
  have "\<lfloor>log 2 \<bar>x\<bar>\<rfloor> \<le> \<lfloor>log 2 \<bar>y\<bar>\<rfloor>" using assms y by (intro floor_mono) simp
  then have le: "?ex \<le> ?ey" by (simp add: last_place_def max_def)
  have r: "round_to p m z = of_int (rne (z / 2 powr of_int (last_place p m z))) * 2 powr of_int (last_place p m z)" if "0 < z" for z
    using that by (simp add: round_to_def Let_def)
  show ?thesis
  proof (cases "?ex = ?ey")
    case True
    have "rne (x / 2 powr of_int ?ey) \<le> rne (y / 2 powr of_int ?ey)" using assms by (intro rne_mono divide_right_mono) auto
    then show ?thesis using r [OF assms(1)] r [OF y] True by (simp add: mult_right_mono)
  next
    case False
    then have lt: "?ex + 1 \<le> ?ey" "m < ?ey" using le by (auto simp: last_place_def)
    have "round_to p m x \<le> of_int (2 ^ nat p) * 2 powr of_int ?ex"
      unfolding r [OF assms(1)] using significand_le [OF assms(1), of p m] assms(3)
      by (intro mult_right_mono) (simp_all only: of_int_le_iff, simp_all)
    also have "\<dots> = 2 powr (of_int ?ex + of_int p)" using assms(3) by (simp add: powr_pow)
    also have "\<dots> \<le> 2 powr (of_int ?ey + of_int (p - 1))" using lt by (intro powr_mono) auto
    also have "\<dots> = of_int (2 ^ nat (p - 1)) * 2 powr of_int ?ey" using assms(3) by (subst powr_pow) simp_all
    also have "\<dots> \<le> round_to p m y"
      unfolding r [OF y] using significand_ge [OF y assms(3) lt(2)] by (intro mult_right_mono) (simp_all only: of_int_le_iff, simp_all)
    finally show ?thesis .
  qed
qed

lemma round_to_nonneg: "0 \<le> x \<Longrightarrow> 0 \<le> round_to p m x"
proof -
  assume "0 \<le> x"
  then have "0 \<le> rne (x / 2 powr of_int (last_place p m x))" using rne_mono [of "of_int 0" "x / 2 powr of_int (last_place p m x)"] unfolding rne_of_int by simp
  then show ?thesis by (simp add: round_to_def Let_def)
qed

lemma round_to_mono:
  assumes "x \<le> y" "1 \<le> p"
  shows "round_to p m x \<le> round_to p m y"
proof -
  consider "0 < x" | "y < 0" | "x \<le> 0" "0 \<le> y" by linarith
  then show ?thesis
  proof cases
    case 2
    then have "round_to p m (- y) \<le> round_to p m (- x)" using assms by (intro round_to_pos_mono) auto
    then show ?thesis by (simp add: round_to_minus)
  next
    case 3
    then show ?thesis using round_to_nonneg [of y p m] round_to_nonneg [of "- x" p m] by (simp add: round_to_minus)
  qed (use assms round_to_pos_mono in blast)
qed

text \<open>Numbers of the format are kept.\<close>

lemma round_to_exact:
  assumes x: "x = of_int a * 2 powr of_int k" and a: "\<bar>a\<bar> < 2 ^ nat p" and k: "m \<le> k" and p: "1 \<le> p"
  shows "round_to p m x = x"
proof (cases "a = 0")
  case False
  let ?e = "last_place p m x"
  have "\<bar>x\<bar> = of_int \<bar>a\<bar> * 2 powr of_int k" using x by (simp add: abs_mult)
  also have "\<dots> < of_int (2 ^ nat p) * 2 powr of_int k" using a by (intro mult_strict_right_mono) (simp_all only: of_int_less_iff, simp)
  also have "\<dots> = 2 powr (of_int k + of_int p)" using p by (simp add: powr_pow)
  finally have "log 2 \<bar>x\<bar> < of_int (k + p)" using False x by (simp add: log_less_iff)
  then have "?e \<le> k" using k by (simp add: last_place_def floor_less_iff [symmetric] del: of_int_add)
  then have "2 powr real_of_int k = 2 powr of_int ?e * of_int (2 ^ nat (k - ?e))" using powr_pow [of "k - ?e" ?e] by simp
  then have "x = of_int (a * 2 ^ nat (k - ?e)) * 2 powr of_int ?e" by (subst x) simp
  then have "x / 2 powr of_int ?e = of_int (a * 2 ^ nat (k - ?e))" by (metis nonzero_mult_div_cancel_right powr_eq_0_iff zero_neq_numeral)
  then have "rne (x / 2 powr of_int ?e) = a * 2 ^ nat (k - ?e)" by (metis rne_of_int)
  then show ?thesis using \<open>x = of_int (a * 2 ^ nat (k - ?e)) * 2 powr of_int ?e\<close> by (simp add: round_to_def Let_def)
qed (use x in simp)

lemma round_to_int:
  assumes "\<bar>n\<bar> < 2 ^ nat p" "m \<le> 0" "1 \<le> p"
  shows "round_to p m (of_int n) = of_int n"
  using assms by (intro round_to_exact [where a = n and k = 0]) auto

lemma round_to_idem:
  assumes p: "1 \<le> p"
  shows "round_to p m (round_to p m x) = round_to p m x"
proof -
  have pos: "round_to p m (round_to p m z) = round_to p m z" if z: "0 < z" for z
  proof -
    let ?e = "last_place p m z" and ?a = "rne (z / 2 powr of_int (last_place p m z))"
    have r: "round_to p m z = of_int ?a * 2 powr of_int ?e" using z by (simp add: round_to_def Let_def)
    have a: "0 \<le> ?a" "?a \<le> 2 ^ nat p" "m \<le> ?e"
      using rne_mono [of "of_int 0" "z / 2 powr of_int ?e"] z significand_le [OF z, of p m] p unfolding rne_of_int
      by (simp_all add: last_place_def)
    show ?thesis
    proof (cases "?a = 2 ^ nat p")
      case True
      have "round_to p m z = of_int (2 ^ nat (p - 1)) * 2 powr of_int (?e + 1)"
        unfolding r True using powr_pow [of p ?e] powr_pow [of "p - 1" "?e + 1"] p by (simp add: add.assoc mult.commute)
      then show ?thesis by (rule round_to_exact) (use a p in \<open>auto intro!: power_strict_increasing\<close>)
    next
      case False
      from r show ?thesis by (rule round_to_exact) (use a p False in auto)
    qed
  qed
  consider "x = 0" | "0 < x" | "x < 0" by linarith
  then show ?thesis
  proof cases
    case 3
    then show ?thesis using pos [of "- x"] by (simp add: round_to_minus)
  qed (simp_all add: pos)
qed

section \<open>What the game relies on\<close>

text \<open>The interface of a format: rounding is monotone, idempotent and keeps the small integers.\<close>

locale format =
  fixes rd :: "real \<Rightarrow> real" and bits :: nat
  assumes mono: "x \<le> y \<Longrightarrow> rd x \<le> rd y" and idem: "rd (rd x) = rd x" and keeps: "\<bar>n\<bar> < 2 ^ bits \<Longrightarrow> rd (of_int n) = of_int n"
begin

lemma zero: "rd 0 = 0"
  using keeps [of 0] by simp

lemma nonneg: "0 \<le> x \<Longrightarrow> 0 \<le> rd x"
  using mono [of 0 x] zero by simp

lemma nonpos: "x \<le> 0 \<Longrightarrow> rd x \<le> 0"
  using mono [of x 0] zero by simp

lemma le_int: "x \<le> of_int n \<Longrightarrow> \<bar>n\<bar> < 2 ^ bits \<Longrightarrow> rd x \<le> of_int n"
  using mono [of x "of_int n"] keeps [of n] by simp

lemma ge_int: "of_int n \<le> x \<Longrightarrow> \<bar>n\<bar> < 2 ^ bits \<Longrightarrow> of_int n \<le> rd x"
  using mono [of "of_int n" x] keeps [of n] by simp

text \<open>Subtracting what is there: the result is not negative and not more than before.\<close>

lemma sub_between: "0 \<le> y \<Longrightarrow> y \<le> x \<Longrightarrow> rd x = x \<Longrightarrow> 0 \<le> rd (x - y) \<and> rd (x - y) \<le> x"
  using mono [of "x - y" x] nonneg [of "x - y"] by simp

end

interpretation db: format dbl 53
  by unfold_locales (simp_all add: dbl_def round_to_mono round_to_idem round_to_int)

interpretation fl: format flt 24
  by unfold_locales (simp_all add: flt_def round_to_mono round_to_idem round_to_int)

lemma dbl_0 [simp]: "dbl 0 = 0"
  by (rule db.zero)

lemma dbl_numeral [simp]: "numeral k < (2 :: int) ^ 53 \<Longrightarrow> dbl (numeral k) = numeral k"
  using db.keeps [of "numeral k"] by simp

lemma dbl_1 [simp]: "dbl 1 = 1"
  using db.keeps [of 1] by simp

lemma dbl_minus: "dbl (- x) = - dbl x"
  by (simp add: dbl_def round_to_minus)

end
