(* ===== verification/Lander.thy ===== *)
theory Lander
  imports Fmt Jfloat
begin

text \<open>
  The game \<^verbatim>\<open>lunarlander\<close> that runs under reservations: \<^verbatim>\<open>LunarView.java\<close> and \<^verbatim>\<open>LunarLander.java\<close>.
  \<^item> \<open>lander\<close> is the state of the thread \<^verbatim>\<open>LunarThread\<close> that outlives a call. \<open>sent\<close> are the messages passed to the text
    view, the latest first, each with its visibility; \<open>started\<close> says that \<^verbatim>\<open>start\<close> was called; \<open>draws\<close> counts the calls of
    \<^verbatim>\<open>Math.random\<close>. The images enter with their size only.
  \<^item> \<open>lenv\<close> is what the game takes from its surroundings: the random numbers, the texts of the resources by their names,
    and sine and cosine, which Java leaves free in the last place.
  \<^item> The methods hold the lock of the surface, so that each call is one step. \<open>now\<close> is the clock in a call.
  \<^item> \<^verbatim>\<open>None\<close> as the result of a call means that it does not return.
\<close>

section \<open>The code\<close>

record lenv =
  le_sin :: "real \<Rightarrow> real"
  le_cos :: "real \<Rightarrow> real"
  le_random :: "nat \<Rightarrow> real"
  le_text :: "string \<Rightarrow> string"

record lander =
  mCanvasHeight :: int
  mCanvasWidth :: int
  mDifficulty :: int
  mDX :: real
  mDY :: real
  mEngineFiring :: bool
  mFuel :: real
  mGoalAngle :: int
  mGoalSpeed :: int
  mGoalWidth :: int
  mGoalX :: int
  mHeading :: real
  mLanderHeight :: int
  mLanderWidth :: int
  mLastTime :: int
  mMode :: int
  mRotating :: int
  mRun :: bool
  mWinsInARow :: int
  mX :: real
  mY :: real
  paused :: bool
  destroyed_called :: bool
  started :: bool
  draws :: nat
  sent :: "(string \<times> bool) list"

definition DIFFICULTY_EASY :: int where "DIFFICULTY_EASY = 0"

definition DIFFICULTY_HARD :: int where "DIFFICULTY_HARD = 1"

definition DIFFICULTY_MEDIUM :: int where "DIFFICULTY_MEDIUM = 2"

definition STATE_LOSE :: int where "STATE_LOSE = 1"

definition STATE_PAUSE :: int where "STATE_PAUSE = 2"

definition STATE_READY :: int where "STATE_READY = 3"

definition STATE_RUNNING :: int where "STATE_RUNNING = 4"

definition STATE_WIN :: int where "STATE_WIN = 5"

definition PHYS_DOWN_ACCEL_SEC :: int where "PHYS_DOWN_ACCEL_SEC = 35"

definition PHYS_FIRE_ACCEL_SEC :: int where "PHYS_FIRE_ACCEL_SEC = 80"

definition PHYS_FUEL_INIT :: int where "PHYS_FUEL_INIT = 100"

definition PHYS_FUEL_MAX :: int where "PHYS_FUEL_MAX = 100"

definition PHYS_FUEL_SEC :: int where "PHYS_FUEL_SEC = 10"

definition PHYS_SLEW_SEC :: int where "PHYS_SLEW_SEC = 120"

definition PHYS_SPEED_HYPERSPACE :: int where "PHYS_SPEED_HYPERSPACE = 180"

definition PHYS_SPEED_INIT :: int where "PHYS_SPEED_INIT = 30"

definition PHYS_SPEED_MAX :: int where "PHYS_SPEED_MAX = 120"

definition TARGET_ANGLE :: int where "TARGET_ANGLE = 18"

definition TARGET_BOTTOM_PADDING :: int where "TARGET_BOTTOM_PADDING = 17"

definition TARGET_PAD_HEIGHT :: int where "TARGET_PAD_HEIGHT = 8"

definition TARGET_SPEED :: int where "TARGET_SPEED = 28"

definition TARGET_WIDTH :: real where "TARGET_WIDTH = dbl (16 / 10)"

definition UI_BAR :: int where "UI_BAR = 100"

definition UI_BAR_HEIGHT :: int where "UI_BAR_HEIGHT = 10"

lemmas lander_consts = DIFFICULTY_EASY_def DIFFICULTY_HARD_def DIFFICULTY_MEDIUM_def STATE_LOSE_def STATE_PAUSE_def
  STATE_READY_def STATE_RUNNING_def STATE_WIN_def PHYS_DOWN_ACCEL_SEC_def PHYS_FIRE_ACCEL_SEC_def PHYS_FUEL_INIT_def
  PHYS_FUEL_MAX_def PHYS_FUEL_SEC_def PHYS_SLEW_SEC_def PHYS_SPEED_HYPERSPACE_def PHYS_SPEED_INIT_def PHYS_SPEED_MAX_def
  TARGET_ANGLE_def TARGET_BOTTOM_PADDING_def TARGET_PAD_HEIGHT_def TARGET_SPEED_def UI_BAR_def UI_BAR_HEIGHT_def

text \<open>The constructor, for a lander image of this size.\<close>

definition LunarThread :: "int \<Rightarrow> int \<Rightarrow> lander" where
  "LunarThread width height = \<lparr>mCanvasHeight = 1, mCanvasWidth = 1, mDifficulty = DIFFICULTY_MEDIUM, mDX = 0, mDY = 0, mEngineFiring = True,
     mFuel = of_int PHYS_FUEL_INIT, mGoalAngle = 0, mGoalSpeed = 0, mGoalWidth = 0, mGoalX = 0, mHeading = 0,
     mLanderHeight = height, mLanderWidth = width, mLastTime = 0, mMode = 0, mRotating = 0, mRun = False, mWinsInARow = 0,
     mX = of_int width, mY = of_int (s32 (height * 2)), paused = True, destroyed_called = False, started = False, draws = 0, sent = []\<rparr>"

subsection \<open>The mode\<close>

definition mode_text :: "lenv \<Rightarrow> int \<Rightarrow> int \<Rightarrow> string" where
  "mode_text e mode wins =
     (if mode = STATE_READY then le_text e ''mode_ready''
      else if mode = STATE_PAUSE then le_text e ''mode_pause''
      else if mode = STATE_LOSE then le_text e ''mode_lose''
      else if mode = STATE_WIN then le_text e ''mode_win_prefix'' @ fmt_d wins @ '' '' @ le_text e ''mode_win_suffix''
      else [])"

definition setState_message :: "lenv \<Rightarrow> int \<Rightarrow> string option \<Rightarrow> lander \<Rightarrow> lander" where
  "setState_message e mode message s0 =
     (let s = s0\<lparr>mMode := mode\<rparr> in
      if mMode s = STATE_RUNNING then s\<lparr>sent := ([], False) # sent s\<rparr>
      else
        let str = mode_text e (mMode s) (mWinsInARow s);
            str = (case message of None \<Rightarrow> str | Some m \<Rightarrow> m @ CHR 0x0A # str)
        in s\<lparr>mRotating := 0, mEngineFiring := False, mWinsInARow := (if mMode s = STATE_LOSE then 0 else mWinsInARow s),
             sent := (str, True) # sent s\<rparr>)"

definition setState :: "lenv \<Rightarrow> int \<Rightarrow> lander \<Rightarrow> lander" where
  "setState e mode = setState_message e mode None"

definition pause :: "lenv \<Rightarrow> lander \<Rightarrow> lander" where
  "pause e s = (if mMode s = STATE_RUNNING then setState e STATE_PAUSE s else s)"

definition unpause :: "lenv \<Rightarrow> int \<Rightarrow> lander \<Rightarrow> lander" where
  "unpause e now s = setState e STATE_RUNNING (s\<lparr>mLastTime := s64 (now + 100)\<rparr>)"

definition setDifficulty :: "int \<Rightarrow> lander \<Rightarrow> lander" where
  "setDifficulty difficulty s = s\<lparr>mDifficulty := difficulty\<rparr>"

definition setFiring :: "bool \<Rightarrow> lander \<Rightarrow> lander" where
  "setFiring firing s = s\<lparr>mEngineFiring := firing\<rparr>"

definition setRunning :: "bool \<Rightarrow> lander \<Rightarrow> lander" where
  "setRunning b s = s\<lparr>mRun := b\<rparr>"

definition setSurfaceSize :: "int \<Rightarrow> int \<Rightarrow> lander \<Rightarrow> lander" where
  "setSurfaceSize width height s = s\<lparr>mCanvasWidth := width, mCanvasHeight := height\<rparr>"

subsection \<open>Starting a game\<close>

text \<open>What the difficulty decides: fuel, width of the pad, allowed speed and angle, initial speed.\<close>

definition game_params :: "int \<Rightarrow> int \<Rightarrow> real \<times> int \<times> int \<times> int \<times> int" where
  "game_params difficulty landerWidth =
     (let fuel = of_int PHYS_FUEL_INIT; goalWidth = d2i (dbl (of_int landerWidth * TARGET_WIDTH));
          goalSpeed = TARGET_SPEED; goalAngle = TARGET_ANGLE; speedInit = PHYS_SPEED_INIT in
      if difficulty = DIFFICULTY_EASY
      then (dbl (dbl (fuel * 3) / 2), s32 (goalWidth * 4) sdiv 3, s32 (goalSpeed * 3) sdiv 2, s32 (goalAngle * 4) sdiv 3, s32 (speedInit * 3) sdiv 4)
      else if difficulty = DIFFICULTY_HARD
      then (dbl (dbl (fuel * 7) / 8), s32 (goalWidth * 3) sdiv 4, s32 (goalSpeed * 7) sdiv 8, goalAngle, s32 (speedInit * 4) sdiv 3)
      else (fuel, goalWidth, goalSpeed, goalAngle, speedInit))"

definition goal_draw :: "lenv \<Rightarrow> lander \<Rightarrow> nat \<Rightarrow> int" where
  "goal_draw e s k = d2i (dbl (le_random e k * of_int (s32 (mCanvasWidth s - mGoalWidth s))))"

definition far_enough :: "lander \<Rightarrow> int \<Rightarrow> bool" where
  "far_enough s goalX \<longleftrightarrow>
     \<bar>dbl (of_int goalX - dbl (mX s - of_int (mLanderWidth s sdiv 2)))\<bar> > of_int (mCanvasHeight s sdiv 6)"

partial_function (option) pick_goal :: "lenv \<Rightarrow> lander \<Rightarrow> nat \<Rightarrow> (int \<times> nat) option" where
  "pick_goal e s k =
     (let goalX = goal_draw e s k in if far_enough s goalX then Some (goalX, Suc k) else pick_goal e s (Suc k))"

declare pick_goal.simps [code]

definition start_motion :: "lenv \<Rightarrow> lander \<Rightarrow> lander" where
  "start_motion e s =
     (let (fuel, goalWidth, goalSpeed, goalAngle, speedInit) = game_params (mDifficulty s) (mLanderWidth s); k = draws s in
      s\<lparr>mFuel := fuel, mEngineFiring := False, mGoalWidth := goalWidth, mGoalSpeed := goalSpeed, mGoalAngle := goalAngle,
        mX := of_int (mCanvasWidth s sdiv 2), mY := of_int (s32 (mCanvasHeight s - mLanderHeight s sdiv 2)),
        mDY := dbl (le_random e k * of_int (- speedInit)),
        mDX := dbl (dbl (dbl (le_random e (Suc k) * 2) * of_int speedInit) - of_int speedInit),
        mHeading := 0, draws := k + 2\<rparr>)"

definition doStart :: "lenv \<Rightarrow> int \<Rightarrow> lander \<Rightarrow> lander option" where
  "doStart e now s =
     (let s1 = start_motion e s in
      case pick_goal e s1 (draws s1) of
        None \<Rightarrow> None
      | Some (goalX, k) \<Rightarrow> Some (setState e STATE_RUNNING (s1\<lparr>mGoalX := goalX, draws := k, mLastTime := s64 (now + 100)\<rparr>)))"

subsection \<open>The flight\<close>

definition elapsed_time :: "int \<Rightarrow> lander \<Rightarrow> real" where
  "elapsed_time now s = dbl (dbl (of_int (s64 (now - mLastTime s))) / 1000)"

definition rotate_ship :: "real \<Rightarrow> lander \<Rightarrow> lander" where
  "rotate_ship elapsed s =
     (if mRotating s \<noteq> 0 then
        let h = dbl (mHeading s + dbl (of_int (mRotating s) * dbl (of_int PHYS_SLEW_SEC * elapsed)))
        in s\<lparr>mHeading := (if h < 0 then dbl (h + 360) else if h \<ge> 360 then dbl (h - 360) else h)\<rparr>
      else s)"

text \<open>The changes of the speed, and the state with the fuel used.\<close>

definition thrust :: "lenv \<Rightarrow> real \<Rightarrow> lander \<Rightarrow> real \<times> real \<times> lander" where
  "thrust e elapsed s =
     (let ddx = 0; ddy = dbl (of_int (- PHYS_DOWN_ACCEL_SEC) * elapsed) in
      if mEngineFiring s then
        let elapsedFiring = elapsed; fuelUsed = dbl (elapsedFiring * of_int PHYS_FUEL_SEC);
            (elapsedFiring, fuelUsed, firing) =
              (if fuelUsed > mFuel s then (dbl (dbl (mFuel s / fuelUsed) * elapsed), mFuel s, False)
               else (elapsedFiring, fuelUsed, True));
            accel = dbl (of_int PHYS_FIRE_ACCEL_SEC * elapsedFiring);
            radians = dbl (dbl (dbl (2 * dbl pi) * mHeading s) / 360)
        in (dbl (le_sin e radians * accel), dbl (ddy + dbl (le_cos e radians * accel)),
            s\<lparr>mFuel := dbl (mFuel s - fuelUsed), mEngineFiring := firing\<rparr>)
      else (ddx, ddy, s))"

definition move :: "int \<Rightarrow> real \<Rightarrow> real \<Rightarrow> real \<Rightarrow> lander \<Rightarrow> lander" where
  "move now elapsed ddx ddy s =
     (let dx = dbl (mDX s + ddx); dy = dbl (mDY s + ddy) in
      s\<lparr>mDX := dx, mDY := dy, mX := dbl (mX s + dbl (dbl (elapsed * dbl (dx + mDX s)) / 2)),
        mY := dbl (mY s + dbl (dbl (elapsed * dbl (dy + mDY s)) / 2)), mLastTime := now\<rparr>)"

definition yLowerBound :: "lander \<Rightarrow> real" where
  "yLowerBound s = of_int (s32 (s32 (TARGET_PAD_HEIGHT + mLanderHeight s sdiv 2) - TARGET_BOTTOM_PADDING))"

definition speed :: "lander \<Rightarrow> real" where
  "speed s = dbl (sqrt (dbl (dbl (mDX s * mDX s) + dbl (mDY s * mDY s))))"

definition onGoal :: "lander \<Rightarrow> bool" where
  "onGoal s \<longleftrightarrow> of_int (mGoalX s) \<le> dbl (mX s - of_int (mLanderWidth s sdiv 2)) \<and>
     dbl (mX s + of_int (mLanderWidth s sdiv 2)) \<le> of_int (s32 (mGoalX s + mGoalWidth s))"

definition landing :: "lenv \<Rightarrow> int \<Rightarrow> lander \<Rightarrow> lander option" where
  "landing e now s0 =
     (let s = s0\<lparr>mY := yLowerBound s0\<rparr>; won = s\<lparr>mWinsInARow := s32 (mWinsInARow s + 1)\<rparr> in
      if onGoal s \<and> \<bar>dbl (mHeading s - 180)\<bar> < of_int (mGoalAngle s) \<and> speed s > of_int PHYS_SPEED_HYPERSPACE
      then doStart e now won
      else if \<not> onGoal s then Some (setState_message e STATE_LOSE (Some (le_text e ''message_off_pad'')) s)
      else if \<not> (mHeading s \<le> of_int (mGoalAngle s) \<or> mHeading s \<ge> of_int (s32 (360 - mGoalAngle s)))
      then Some (setState_message e STATE_LOSE (Some (le_text e ''message_bad_angle'')) s)
      else if speed s > of_int (mGoalSpeed s) then Some (setState_message e STATE_LOSE (Some (le_text e ''message_too_fast'')) s)
      else Some (setState_message e STATE_WIN (Some []) won))"

definition fly :: "lenv \<Rightarrow> int \<Rightarrow> lander \<Rightarrow> lander" where
  "fly e now s =
     (let elapsed = elapsed_time now s; (ddx, ddy, s1) = thrust e elapsed (rotate_ship elapsed s)
      in move now elapsed ddx ddy s1)"

definition updatePhysics :: "lenv \<Rightarrow> int \<Rightarrow> lander \<Rightarrow> lander option" where
  "updatePhysics e now s =
     (if mLastTime s > now then Some s
      else let s1 = fly e now s in if mY s1 \<le> yLowerBound s1 then landing e now s1 else Some s1)"

subsection \<open>The picture\<close>

datatype paint = LinePaint | LinePaintBad

datatype image = CrashedImage | FiringImage | LanderImage

datatype shape = Background | Rect int int int int paint | Line int int int int paint | Save | Rotate real real real
  | Ship image int int int int | Restore

definition doDraw :: "lander \<Rightarrow> shape list" where
  "doDraw s =
     (let yTop = s32 (mCanvasHeight s - s32 (d2i (mY s) + mLanderHeight s sdiv 2));
          xLeft = s32 (d2i (mX s) - mLanderWidth s sdiv 2);
          fuelWidth = d2i (dbl (dbl (of_int UI_BAR * mFuel s) / of_int PHYS_FUEL_MAX));
          speedWidth = d2i (dbl (dbl (of_int UI_BAR * speed s) / of_int PHYS_SPEED_MAX));
          bar = 4 + UI_BAR + 4;
          gauge = (\<lambda>w. Rect bar 4 (s32 (bar + w)) (4 + UI_BAR_HEIGHT));
          pad = s32 (s32 (1 + mCanvasHeight s) - TARGET_PAD_HEIGHT);
          image = (if mMode s = STATE_LOSE then CrashedImage else if mEngineFiring s then FiringImage else LanderImage)
      in [Background, Rect 4 4 (s32 (4 + fuelWidth)) (4 + UI_BAR_HEIGHT) LinePaint] @
         (if speed s \<le> of_int (mGoalSpeed s) then [gauge speedWidth LinePaint]
          else [gauge speedWidth LinePaintBad, gauge (s32 (UI_BAR * mGoalSpeed s) sdiv PHYS_SPEED_MAX) LinePaint]) @
         [Line (mGoalX s) pad (s32 (mGoalX s + mGoalWidth s)) pad LinePaint, Save,
          Rotate (flt (mHeading s)) (flt (mX s)) (flt (flt (of_int (mCanvasHeight s)) - flt (mY s))),
          Ship image xLeft yTop (s32 (xLeft + mLanderWidth s)) (s32 (yTop + mLanderHeight s)), Restore])"

text \<open>One round of the thread's loop; none while it sleeps or after it ended.\<close>

definition run_round :: "lenv \<Rightarrow> int \<Rightarrow> lander \<Rightarrow> (lander \<times> shape list) option" where
  "run_round e now s =
     (if mRun s \<and> \<not> paused s then
        case (if mMode s = STATE_RUNNING then updatePhysics e now s else Some s) of
          None \<Rightarrow> None
        | Some s1 \<Rightarrow> Some (s1, if mRun s1 then doDraw s1 else [])
      else Some (s, []))"

subsection \<open>Saving and restoring\<close>

text \<open>A \<^verbatim>\<open>Bundle\<close> with its entries of type \<^verbatim>\<open>int\<close> and \<^verbatim>\<open>double\<close>; a missing entry reads as zero.\<close>

record bundle_t =
  b_int :: "string \<Rightarrow> int option"
  b_double :: "string \<Rightarrow> real option"

definition putInt :: "string \<Rightarrow> int \<Rightarrow> bundle_t \<Rightarrow> bundle_t" where
  "putInt key v b = b\<lparr>b_int := (b_int b)(key := Some v)\<rparr>"

definition putDouble :: "string \<Rightarrow> real \<Rightarrow> bundle_t \<Rightarrow> bundle_t" where
  "putDouble key v b = b\<lparr>b_double := (b_double b)(key := Some v)\<rparr>"

definition getInt :: "bundle_t \<Rightarrow> string \<Rightarrow> int" where
  "getInt b key = (case b_int b key of None \<Rightarrow> 0 | Some v \<Rightarrow> v)"

definition getDouble :: "bundle_t \<Rightarrow> string \<Rightarrow> real" where
  "getDouble b key = (case b_double b key of None \<Rightarrow> 0 | Some v \<Rightarrow> v)"

definition saveState :: "lander \<Rightarrow> bundle_t option \<Rightarrow> bundle_t option" where
  "saveState s m = (case m of None \<Rightarrow> None | Some b \<Rightarrow> Some
     (putDouble ''mFuel'' (mFuel s) (putInt ''mWinsInARow'' (mWinsInARow s) (putInt ''mGoalWidth'' (mGoalWidth s)
     (putInt ''mGoalAngle'' (mGoalAngle s) (putInt ''mGoalSpeed'' (mGoalSpeed s) (putInt ''mGoalX'' (mGoalX s)
     (putInt ''mLanderHeight'' (mLanderHeight s) (putInt ''mLanderWidth'' (mLanderWidth s) (putDouble ''mHeading'' (mHeading s)
     (putDouble ''mDY'' (mDY s) (putDouble ''mDX'' (mDX s) (putDouble ''mY'' (mY s) (putDouble ''mX'' (mX s)
     (putInt ''mDifficulty'' (mDifficulty s) b)))))))))))))))"

definition restoreState :: "lenv \<Rightarrow> bundle_t \<Rightarrow> lander \<Rightarrow> lander" where
  "restoreState e b s =
     (setState e STATE_PAUSE s)\<lparr>mRotating := 0, mEngineFiring := False, mDifficulty := getInt b ''mDifficulty'',
       mX := getDouble b ''mX'', mY := getDouble b ''mY'', mDX := getDouble b ''mDX'', mDY := getDouble b ''mDY'',
       mHeading := getDouble b ''mHeading'', mLanderWidth := getInt b ''mLanderWidth'', mLanderHeight := getInt b ''mLanderHeight'',
       mGoalX := getInt b ''mGoalX'', mGoalSpeed := getInt b ''mGoalSpeed'', mGoalAngle := getInt b ''mGoalAngle'',
       mGoalWidth := getInt b ''mGoalWidth'', mWinsInARow := getInt b ''mWinsInARow'', mFuel := getDouble b ''mFuel''\<rparr>"

subsection \<open>Keys, buttons, the menu and the surface\<close>

datatype key = DpadUp | DpadDown | KeyS | DpadCenter | Space | DpadLeft | KeyQ | DpadRight | KeyW | OtherKey

definition doKeyDown :: "lenv \<Rightarrow> int \<Rightarrow> key \<Rightarrow> lander \<Rightarrow> (bool \<times> lander) option" where
  "doKeyDown e now keyCode s =
     (let okStart = (keyCode \<in> {DpadUp, DpadDown, KeyS}) in
      if okStart \<and> (mMode s = STATE_READY \<or> mMode s = STATE_LOSE \<or> mMode s = STATE_WIN)
      then map_option (Pair True) (doStart e now s)
      else if mMode s = STATE_PAUSE \<and> okStart then Some (True, unpause e now s)
      else if mMode s = STATE_RUNNING then
        (if keyCode = DpadCenter \<or> keyCode = Space then Some (True, setFiring True s)
         else if keyCode = DpadLeft \<or> keyCode = KeyQ then Some (True, s\<lparr>mRotating := -1\<rparr>)
         else if keyCode = DpadRight \<or> keyCode = KeyW then Some (True, s\<lparr>mRotating := 1\<rparr>)
         else if keyCode = DpadUp then Some (True, pause e s)
         else Some (False, s))
      else Some (False, s))"

definition doKeyUp :: "key \<Rightarrow> lander \<Rightarrow> bool \<times> lander" where
  "doKeyUp keyCode s =
     (if mMode s = STATE_RUNNING then
        (if keyCode = DpadCenter \<or> keyCode = Space then (True, setFiring False s)
         else if keyCode \<in> {DpadLeft, KeyQ, DpadRight, KeyW} then (True, s\<lparr>mRotating := 0\<rparr>)
         else (False, s))
      else (False, s))"

datatype action = ACTION_DOWN | ACTION_UP | OtherAction

text \<open>The listener of a screen button that stands for a key.\<close>

definition onTouch :: "lenv \<Rightarrow> int \<Rightarrow> key \<Rightarrow> action \<Rightarrow> lander \<Rightarrow> lander option" where
  "onTouch e now keyCode act s =
     (case act of ACTION_DOWN \<Rightarrow> map_option snd (doKeyDown e now keyCode s)
      | ACTION_UP \<Rightarrow> Some (snd (doKeyUp keyCode s))
      | OtherAction \<Rightarrow> Some s)"

datatype menu = MENU_EASY | MENU_HARD | MENU_MEDIUM | MENU_PAUSE | MENU_RESUME | MENU_START | MENU_STOP | OtherItem

definition onOptionsItemSelected :: "lenv \<Rightarrow> int \<Rightarrow> menu \<Rightarrow> lander \<Rightarrow> (bool \<times> lander) option" where
  "onOptionsItemSelected e now item s =
     (case item of
        MENU_START \<Rightarrow> map_option (Pair True) (doStart e now s)
      | MENU_STOP \<Rightarrow> Some (True, setState_message e STATE_LOSE (Some (le_text e ''message_stopped'')) s)
      | MENU_PAUSE \<Rightarrow> Some (True, pause e s)
      | MENU_RESUME \<Rightarrow> Some (True, unpause e now s)
      | MENU_EASY \<Rightarrow> Some (True, setDifficulty DIFFICULTY_EASY s)
      | MENU_MEDIUM \<Rightarrow> Some (True, setDifficulty DIFFICULTY_MEDIUM s)
      | MENU_HARD \<Rightarrow> Some (True, setDifficulty DIFFICULTY_HARD s)
      | OtherItem \<Rightarrow> Some (False, s))"

definition onWindowFocusChanged :: "lenv \<Rightarrow> bool \<Rightarrow> lander \<Rightarrow> lander" where
  "onWindowFocusChanged e hasWindowFocus s = (if \<not> hasWindowFocus then pause e s else s)"

text \<open>\<^verbatim>\<open>None\<close>: a thread that was started is started again, which throws.\<close>

definition surfaceCreated :: "lander \<Rightarrow> lander option" where
  "surfaceCreated s0 =
     (let s = (setRunning True s0)\<lparr>paused := False\<rparr> in
      if destroyed_called s then Some s else if started s then None else Some (s\<lparr>started := True\<rparr>))"

definition surfaceDestroyed :: "lander \<Rightarrow> lander" where
  "surfaceDestroyed s = s\<lparr>paused := True, destroyed_called := True\<rparr>"

definition onCreate :: "lenv \<Rightarrow> bundle_t option \<Rightarrow> lander \<Rightarrow> lander" where
  "onCreate e saved s = (case saved of None \<Rightarrow> setState e STATE_READY s | Some b \<Rightarrow> restoreState e b s)"

definition onPause :: "lenv \<Rightarrow> lander \<Rightarrow> lander" where
  "onPause e s = pause e s"

definition onSaveInstanceState :: "bundle_t \<Rightarrow> lander \<Rightarrow> bundle_t option" where
  "onSaveInstanceState outState s = saveState s (Some outState)"

section \<open>The type of the state\<close>

definition core_ok :: "lander \<Rightarrow> bool" where
  "core_ok s \<longleftrightarrow> mDifficulty s \<in> {DIFFICULTY_EASY, DIFFICULTY_HARD, DIFFICULTY_MEDIUM} \<and>
     dbl (mDX s) = mDX s \<and> dbl (mDY s) = mDY s \<and> dbl (mX s) = mX s \<and> dbl (mY s) = mY s \<and>
     dbl (mFuel s) = mFuel s \<and> 0 \<le> mFuel s \<and> mFuel s \<le> 150 \<and>
     dbl (mHeading s) = mHeading s \<and> 0 \<le> mHeading s \<and> mHeading s \<le> 360 \<and>
     mGoalAngle s \<in> {0, 18, 24} \<and> mGoalSpeed s \<in> {0, 24, 28, 42} \<and>
     - (2 ^ 31) \<le> mWinsInARow s \<and> mWinsInARow s < 2 ^ 31 \<and> - (2 ^ 31) \<le> mGoalX s \<and> mGoalX s < 2 ^ 31 \<and>
     - (2 ^ 31) \<le> mCanvasWidth s \<and> mCanvasWidth s < 2 ^ 31"

definition mode_ok :: "lander \<Rightarrow> bool" where
  "mode_ok s \<longleftrightarrow> mMode s \<in> {STATE_LOSE, STATE_PAUSE, STATE_READY, STATE_RUNNING, STATE_WIN} \<and> mRotating s \<in> {-1, 0, 1} \<and>
     (mMode s \<noteq> STATE_RUNNING \<longrightarrow> mRotating s = 0 \<and> \<not> mEngineFiring s)"

definition lander_ok :: "lander \<Rightarrow> bool" where
  "lander_ok s \<longleftrightarrow> core_ok s \<and> mode_ok s"

lemma d2i_range: "- (2 ^ 31) \<le> d2i x \<and> d2i x < 2 ^ 31"
  by (auto simp: d2i_def)

lemma dbl_int: "- (2 ^ 31) \<le> n \<Longrightarrow> n < 2 ^ 31 \<Longrightarrow> dbl (of_int n) = of_int n"
  by (rule db.keeps) (auto simp: abs_if)

lemma dbl_s32 [simp]: "dbl (of_int (s32 n)) = of_int (s32 n)"
  using s32_range [of n] by (intro dbl_int) auto

lemma setState_core: "core_ok s \<Longrightarrow> core_ok (setState_message e mode message s)"
  by (simp add: core_ok_def setState_message_def Let_def)

lemma setState_mode:
  "mode \<in> {STATE_LOSE, STATE_PAUSE, STATE_READY, STATE_WIN} \<Longrightarrow> mode_ok (setState_message e mode message s)"
  "mRotating s \<in> {-1, 0, 1} \<Longrightarrow> mode_ok (setState_message e STATE_RUNNING message s)"
  by (auto simp: mode_ok_def setState_message_def Let_def lander_consts)

lemma pause_ok: "lander_ok s \<Longrightarrow> lander_ok (pause e s)"
  by (simp add: pause_def lander_ok_def setState_def setState_core setState_mode)

lemma unpause_ok: "lander_ok s \<Longrightarrow> lander_ok (unpause e now s)"
  unfolding lander_ok_def unpause_def setState_def
  by (rule conjI, rule setState_core, simp add: core_ok_def, rule setState_mode(2), simp add: mode_ok_def)

lemma pick_goal_SomeD:
  assumes "pick_goal e s k = Some (g, k')"
  shows "k < k' \<and> g = goal_draw e s (k' - 1) \<and> far_enough s g"
proof -
  have "case (g, k') of (g, k') \<Rightarrow> k < k' \<and> g = goal_draw e s (k' - 1) \<and> far_enough s g"
    by (rule pick_goal.raw_induct [OF _ assms]) (force simp: Let_def split: if_splits)
  then show ?thesis by auto
qed

lemma pick_goal_finds: "far_enough s (goal_draw e s (k + n)) \<Longrightarrow> \<exists>x. pick_goal e s k = Some x"
proof (induction n arbitrary: k)
  case 0
  then show ?case by (subst pick_goal.simps) simp
next
  case (Suc n)
  then have "\<exists>x. pick_goal e s (Suc k) = Some x" by simp
  then show ?case by (subst pick_goal.simps) (simp add: Let_def)
qed

lemma game_params_ok:
  assumes "game_params d w = (fuel, goalWidth, goalSpeed, goalAngle, speedInit)"
  shows "dbl fuel = fuel \<and> 0 \<le> fuel \<and> fuel \<le> 150 \<and> goalSpeed \<in> {24, 28, 42} \<and> goalAngle \<in> {18, 24} \<and> speedInit \<in> {22, 30, 40}"
proof -
  have h: "dbl (175 / 2) = 175 / 2"
    unfolding dbl_def by (rule round_to_exact [where a = 175 and k = "-1"]) (simp_all add: powr_minus)
  have k: "dbl 150 = 150" "dbl 100 = 100" by simp_all
  have f: "fuel \<in> {150, 175 / 2, 100}" "goalSpeed \<in> {24, 28, 42} \<and> goalAngle \<in> {18, 24} \<and> speedInit \<in> {22, 30, 40}"
    using assms by (auto simp: game_params_def Let_def lander_consts s32_id sdiv_nonneg h split: if_splits)
  have "dbl fuel = fuel" using f(1) by (elim insertE emptyE) (simp_all only: h k)
  then show ?thesis using f by auto
qed

lemma dbl_sdiv2: "- (2 ^ 31) \<le> n \<Longrightarrow> n < 2 ^ 31 \<Longrightarrow> dbl (of_int (n sdiv 2)) = of_int (n sdiv 2)"
  by (rule dbl_int) (auto simp: signed_divide_int_def sgn_if)

lemma start_motion_ok:
  assumes "core_ok s"
  shows "core_ok (start_motion e s)" "mRotating (start_motion e s) = mRotating s" "mWinsInARow (start_motion e s) = mWinsInARow s"
proof -
  obtain fuel w v a i where g: "game_params (mDifficulty s) (mLanderWidth s) = (fuel, w, v, a, i)"
    by (cases "game_params (mDifficulty s) (mLanderWidth s)")
  show "core_ok (start_motion e s)"
    using assms game_params_ok [OF g] by (auto simp: core_ok_def start_motion_def g Let_def db.idem dbl_sdiv2)
qed (simp_all add: start_motion_def Let_def split: prod.split)

lemma doStart_ok:
  assumes "core_ok s" "mRotating s \<in> {-1, 0, 1}" "doStart e now s = Some s'"
  shows "lander_ok s'"
proof -
  let ?s1 = "start_motion e s"
  obtain g k where p: "pick_goal e ?s1 (draws ?s1) = Some (g, k)"
    and s': "s' = setState e STATE_RUNNING (?s1\<lparr>mGoalX := g, draws := k, mLastTime := s64 (now + 100)\<rparr>)"
    using assms(3) by (auto simp: doStart_def Let_def split: option.splits)
  have "core_ok (?s1\<lparr>mGoalX := g, draws := k, mLastTime := s64 (now + 100)\<rparr>)"
    using start_motion_ok [OF assms(1), of e] pick_goal_SomeD [OF p] d2i_range by (simp add: core_ok_def goal_draw_def)
  then show ?thesis
    using start_motion_ok(2) [OF assms(1), of e] assms(2) unfolding s' lander_ok_def setState_def
    by (simp add: setState_core setState_mode)
qed

section \<open>A frame\<close>

text \<open>A frame of at most three seconds turns the ship by at most one round.\<close>

lemma elapsed_range:
  assumes "mLastTime s \<le> now" "now - mLastTime s \<le> 3000"
  shows "0 \<le> elapsed_time now s \<and> elapsed_time now s \<le> 3"
proof -
  let ?d = "now - mLastTime s"
  have "s64 ?d = ?d" using assms by (intro s64_id) auto
  moreover have "dbl (of_int ?d) = of_int ?d" using assms by (intro dbl_int) auto
  ultimately have "elapsed_time now s = dbl (of_int ?d / 1000)" by (simp add: elapsed_time_def)
  moreover have "0 \<le> real_of_int ?d" "real_of_int ?d \<le> 3000" using assms by linarith+
  ultimately show ?thesis using db.nonneg [of "of_int ?d / 1000"] db.le_int [of "of_int ?d / 1000" 3] by simp
qed

lemma rotate_ok:
  assumes "core_ok s" "mRotating s \<in> {-1, 0, 1}" "0 \<le> t" "t \<le> 3"
  shows "core_ok (rotate_ship t s)"
proof -
  let ?w = "dbl (120 * t)"
  let ?v = "dbl (of_int (mRotating s) * ?w)"
  let ?h = "dbl (mHeading s + ?v)"
  have w: "0 \<le> ?w" "?w \<le> 360" using db.nonneg [of "120 * t"] db.le_int [of "120 * t" 360] assms(3,4) by auto
  have "\<bar>of_int (mRotating s) * ?w\<bar> \<le> 360" using w assms(2) by auto
  then have v: "- 360 \<le> ?v" "?v \<le> 360"
    using db.ge_int [of "- 360" "of_int (mRotating s) * ?w"] db.le_int [of "of_int (mRotating s) * ?w" 360] by auto
  have h: "- 360 \<le> ?h" "?h \<le> 720"
    using db.ge_int [of "- 360" "mHeading s + ?v"] db.le_int [of "mHeading s + ?v" 720] v assms(1) by (auto simp: core_ok_def)
  have "0 \<le> dbl (?h + 360) \<and> dbl (?h + 360) \<le> 360" if "?h < 0"
    using that h db.nonneg [of "?h + 360"] db.le_int [of "?h + 360" 360] by simp
  moreover have "0 \<le> dbl (?h - 360) \<and> dbl (?h - 360) \<le> 360" if "?h \<ge> 360"
    using that h db.nonneg [of "?h - 360"] db.le_int [of "?h - 360" 360] by simp
  ultimately show ?thesis using assms(1) by (auto simp: core_ok_def rotate_ship_def Let_def lander_consts db.idem)
qed

text \<open>The engine takes fuel only as long as there is some.\<close>

lemma thrust_fuel:
  assumes "core_ok s" "0 \<le> t" "thrust e t s = (ddx, ddy, s')"
  shows "0 \<le> mFuel s' \<and> mFuel s' \<le> mFuel s \<and> dbl (mFuel s') = mFuel s' \<and>
    s' = s\<lparr>mFuel := mFuel s', mEngineFiring := mEngineFiring s'\<rparr> \<and> (mEngineFiring s' \<longrightarrow> mEngineFiring s)"
proof -
  have u: "0 \<le> dbl (t * 10)" using assms(2) by (intro db.nonneg) simp
  have f: "0 \<le> mFuel s" "dbl (mFuel s) = mFuel s" using assms(1) by (simp_all add: core_ok_def)
  note b = db.sub_between [OF u _ f(2)]
  show ?thesis
    using assms(3) f b by (auto simp: thrust_def Let_def lander_consts db.idem split: if_splits)
qed

lemma fly_ok:
  assumes "lander_ok s" "mLastTime s \<le> now" "now - mLastTime s \<le> 3000"
  shows "core_ok (fly e now s)" "mMode (fly e now s) = mMode s" "mRotating (fly e now s) = mRotating s" "mFuel (fly e now s) \<le> mFuel s"
    "mEngineFiring (fly e now s) \<Longrightarrow> mEngineFiring s"
proof -
  let ?t = "elapsed_time now s"
  let ?r = "rotate_ship ?t s"
  have t: "0 \<le> ?t" "?t \<le> 3" using elapsed_range assms(2,3) by blast+
  have r: "core_ok ?r" using rotate_ok assms(1) t by (simp add: lander_ok_def mode_ok_def)
  obtain ddx ddy s1 where th: "thrust e ?t ?r = (ddx, ddy, s1)" by (cases "thrust e ?t ?r")
  have f: "0 \<le> mFuel s1" "mFuel s1 \<le> mFuel ?r" "dbl (mFuel s1) = mFuel s1"
    "s1 = ?r\<lparr>mFuel := mFuel s1, mEngineFiring := mEngineFiring s1\<rparr>" "mEngineFiring s1 \<longrightarrow> mEngineFiring ?r"
    using thrust_fuel [OF r t(1) th] by blast+
  have c: "core_ok s1" by (subst f(4)) (use r f(1-3) in \<open>simp add: core_ok_def\<close>)
  have y: "fly e now s = move now ?t ddx ddy s1" by (simp add: fly_def th)
  show "core_ok (fly e now s)" unfolding y using c by (simp add: core_ok_def move_def Let_def db.idem)
  have k: "mMode s1 = mMode s" "mRotating s1 = mRotating s" by (subst f(4), simp add: rotate_ship_def Let_def)+
  have l: "mFuel s1 \<le> mFuel s" "mEngineFiring s1 \<longrightarrow> mEngineFiring s" using f(2,5) by (simp_all add: rotate_ship_def Let_def split: if_splits)
  show "mMode (fly e now s) = mMode s" "mRotating (fly e now s) = mRotating s" "mFuel (fly e now s) \<le> mFuel s"
    "mEngineFiring (fly e now s) \<Longrightarrow> mEngineFiring s"
    unfolding y using k l by (simp_all add: move_def Let_def)
qed

lemma updatePhysics_ok:
  assumes "lander_ok s" "mMode s = STATE_RUNNING" "mLastTime s \<le> now \<longrightarrow> now - mLastTime s \<le> 3000" "updatePhysics e now s = Some s'"
  shows "lander_ok s'"
proof (cases "mLastTime s > now")
  case False
  let ?f = "fly e now s"
  let ?y = "?f\<lparr>mY := yLowerBound ?f\<rparr>"
  have t: "mLastTime s \<le> now" "now - mLastTime s \<le> 3000" using False assms(3) by auto
  note f = fly_ok [OF assms(1) t, of e]
  have y: "core_ok ?y" "mRotating ?y = mRotating s" using f(1,3) by (simp_all add: core_ok_def yLowerBound_def)
  have w: "core_ok (?y\<lparr>mWinsInARow := s32 (mWinsInARow ?y + 1)\<rparr>)" using y(1) s32_range by (simp add: core_ok_def)
  have r: "mRotating s \<in> {-1, 0, 1}" using assms(1) by (simp add: lander_ok_def mode_ok_def)
  have L: "lander_ok s'" if "landing e now ?f = Some s'"
    using that y w r doStart_ok [OF w] by (auto simp: landing_def Let_def lander_ok_def setState_core setState_mode split: if_splits)
  show ?thesis
  proof (cases "mY ?f \<le> yLowerBound ?f")
    case False
    then have "s' = ?f" using assms(4) \<open>\<not> mLastTime s > now\<close> by (simp add: updatePhysics_def Let_def)
    then show ?thesis using f r assms(2) by (simp add: lander_ok_def mode_ok_def)
  qed (use L assms(4) False in \<open>simp add: updatePhysics_def Let_def\<close>)
qed (use assms in \<open>simp add: updatePhysics_def\<close>)

section \<open>Everything that happens to the game\<close>

text \<open>The rounds of the thread, the user and the system, in any order. A process that is killed comes back with a new
  thread and the saved state. A frame of a running game takes at most three seconds.\<close>

inductive lstep :: "lenv \<Rightarrow> lander \<Rightarrow> lander \<Rightarrow> bool" for e where
  frame: "run_round e now s = Some (s', picture) \<Longrightarrow>
    (mMode s = STATE_RUNNING \<and> mLastTime s \<le> now \<longrightarrow> now - mLastTime s \<le> 3000) \<Longrightarrow> lstep e s s'"
| key_down: "doKeyDown e now k s = Some (handled, s') \<Longrightarrow> lstep e s s'"
| key_up: "doKeyUp k s = (handled, s') \<Longrightarrow> lstep e s s'"
| touch: "onTouch e now k act s = Some s' \<Longrightarrow> lstep e s s'"
| menu: "onOptionsItemSelected e now item s = Some (handled, s') \<Longrightarrow> lstep e s s'"
| focus: "lstep e s (onWindowFocusChanged e has s)"
| left: "lstep e s (onPause e s)"
| resized: "- (2 ^ 31) \<le> w \<Longrightarrow> w < 2 ^ 31 \<Longrightarrow> lstep e s (setSurfaceSize w h s)"
| surface: "surfaceCreated s = Some s' \<Longrightarrow> lstep e s s'"
| no_surface: "lstep e s (surfaceDestroyed s)"
| recreated: "lstep e s (onCreate e (onSaveInstanceState b s) (LunarThread w h))"

inductive lreach :: "lenv \<Rightarrow> lander \<Rightarrow> bool" for e where
  created: "- (2 ^ 31) \<le> w \<Longrightarrow> w < 2 ^ 31 \<Longrightarrow> lreach e (onCreate e None (LunarThread w h))"
| later: "lreach e s \<Longrightarrow> lstep e s s' \<Longrightarrow> lreach e s'"

lemma getInt_put [simp]:
  "getInt (putInt k v b) k' = (if k' = k then v else getInt b k')" "getInt (putDouble k x b) k' = getInt b k'"
  by (simp_all add: getInt_def putInt_def putDouble_def)

lemma getDouble_put [simp]:
  "getDouble (putDouble k x b) k' = (if k' = k then x else getDouble b k')" "getDouble (putInt k v b) k' = getDouble b k'"
  by (simp_all add: getDouble_def putInt_def putDouble_def)

lemma restore_saved:
  "saveState s (Some b0) = Some b \<Longrightarrow>
    restoreState e b t = t\<lparr>mMode := STATE_PAUSE, mRotating := 0, mEngineFiring := False, sent := (le_text e ''mode_pause'', True) # sent t,
      mDifficulty := mDifficulty s, mX := mX s, mY := mY s, mDX := mDX s, mDY := mDY s, mHeading := mHeading s,
      mLanderWidth := mLanderWidth s, mLanderHeight := mLanderHeight s, mGoalX := mGoalX s, mGoalSpeed := mGoalSpeed s,
      mGoalAngle := mGoalAngle s, mGoalWidth := mGoalWidth s, mWinsInARow := mWinsInARow s, mFuel := mFuel s\<rparr>"
  by (auto simp: saveState_def restoreState_def setState_def setState_message_def mode_text_def lander_consts Let_def)

lemma recreated_ok:
  assumes "lander_ok s"
  shows "lander_ok (onCreate e (onSaveInstanceState b0 s) (LunarThread w h))"
proof -
  obtain b where b: "saveState s (Some b0) = Some b" by (simp add: saveState_def)
  then show ?thesis
    using assms by (simp add: onCreate_def onSaveInstanceState_def restore_saved [OF b] lander_ok_def core_ok_def mode_ok_def LunarThread_def lander_consts)
qed

lemma core_ok_upd [simp]:
  "core_ok (s\<lparr>mRotating := r\<rparr>) = core_ok s" "core_ok (setFiring f s) = core_ok s" "core_ok (s\<lparr>paused := p\<rparr>) = core_ok s"
  "core_ok (s\<lparr>destroyed_called := p\<rparr>) = core_ok s" "core_ok (s\<lparr>started := p\<rparr>) = core_ok s" "core_ok (setRunning p s) = core_ok s"
  by (simp_all add: core_ok_def setFiring_def setRunning_def)

lemma mode_ok_upd [simp]:
  "mode_ok (s\<lparr>paused := p\<rparr>) = mode_ok s" "mode_ok (s\<lparr>destroyed_called := p\<rparr>) = mode_ok s" "mode_ok (s\<lparr>started := p\<rparr>) = mode_ok s"
  "mode_ok (setRunning p s) = mode_ok s" "mode_ok (setSurfaceSize w h s) = mode_ok s" "mode_ok (setDifficulty d s) = mode_ok s"
  by (simp_all add: mode_ok_def setRunning_def setSurfaceSize_def setDifficulty_def)

lemma running_ok:
  "lander_ok s \<Longrightarrow> mMode s = STATE_RUNNING \<Longrightarrow> r \<in> {-1, 0, 1} \<Longrightarrow> lander_ok (s\<lparr>mRotating := r\<rparr>)"
  "lander_ok s \<Longrightarrow> mMode s = STATE_RUNNING \<Longrightarrow> lander_ok (setFiring f s)"
  by (simp_all add: lander_ok_def mode_ok_def setFiring_def core_ok_upd [unfolded setFiring_def])

lemma doKeyDown_cases:
  assumes "doKeyDown e now k s = Some (x, s')"
  shows "doStart e now s = Some s' \<or> s' \<in> {unpause e now s, pause e s, s} \<or>
    mMode s = STATE_RUNNING \<and> s' \<in> {setFiring True s, s\<lparr>mRotating := -1\<rparr>, s\<lparr>mRotating := 1\<rparr>}"
  using assms by (cases k) (simp_all add: doKeyDown_def Let_def split: if_split_asm)

lemma doKeyDown_ok:
  assumes "lander_ok s" "doKeyDown e now k s = Some (x, s')"
  shows "lander_ok s'"
proof -
  have r: "mRotating s \<in> {-1, 0, 1}" "core_ok s" using assms(1) by (simp_all add: lander_ok_def mode_ok_def)
  from doKeyDown_cases [OF assms(2)]
  consider "doStart e now s = Some s'" | "s' \<in> {unpause e now s, pause e s, s}"
    | "mMode s = STATE_RUNNING" "s' \<in> {setFiring True s, s\<lparr>mRotating := -1\<rparr>, s\<lparr>mRotating := 1\<rparr>}" by blast
  then show ?thesis
  proof cases
    case 1
    with r doStart_ok show ?thesis by blast
  next
    case 2
    with assms(1) unpause_ok pause_ok show ?thesis by auto
  next
    case 3
    then show ?thesis using running_ok [OF assms(1)] by auto
  qed
qed

lemma doKeyUp_ok: "lander_ok s \<Longrightarrow> doKeyUp k s = (x, s') \<Longrightarrow> lander_ok s'"
  by (cases k) (auto simp: doKeyUp_def running_ok split: if_split_asm)

lemma difficulty_ok: "lander_ok s \<Longrightarrow> d \<in> {DIFFICULTY_EASY, DIFFICULTY_HARD, DIFFICULTY_MEDIUM} \<Longrightarrow> lander_ok (setDifficulty d s)"
  by (simp add: lander_ok_def) (simp add: core_ok_def setDifficulty_def)

lemma resized_ok: "lander_ok s \<Longrightarrow> - (2 ^ 31) \<le> w \<Longrightarrow> w < 2 ^ 31 \<Longrightarrow> lander_ok (setSurfaceSize w h s)"
  by (simp add: lander_ok_def) (simp add: core_ok_def setSurfaceSize_def)

lemma destroyed_ok: "lander_ok s \<Longrightarrow> lander_ok (surfaceDestroyed s)"
  by (simp add: lander_ok_def surfaceDestroyed_def)

lemma menu_ok:
  assumes "lander_ok s" "onOptionsItemSelected e now item s = Some (x, s')"
  shows "lander_ok s'"
proof (cases item)
  case MENU_START
  with assms doStart_ok show ?thesis by (auto simp: onOptionsItemSelected_def lander_ok_def mode_ok_def)
next
  case MENU_STOP
  with assms show ?thesis by (auto simp: onOptionsItemSelected_def lander_ok_def setState_core setState_mode)
qed (use assms pause_ok unpause_ok difficulty_ok in \<open>auto simp: onOptionsItemSelected_def\<close>)

lemma lstep_ok: "lstep e s s' \<Longrightarrow> lander_ok s \<Longrightarrow> lander_ok s'"
proof (induction rule: lstep.induct)
  case (frame now s s' picture)
  then show ?case by (auto simp: run_round_def intro: updatePhysics_ok split: if_splits option.splits)
next
  case (touch now k act s s')
  then show ?case by (cases act) (auto simp: onTouch_def intro: doKeyDown_ok doKeyUp_ok [OF _ prod.collapse [symmetric]])
next
  case (surface s s')
  then show ?case by (auto simp: surfaceCreated_def Let_def lander_ok_def split: if_splits)
qed (auto intro: doKeyDown_ok doKeyUp_ok menu_ok pause_ok recreated_ok resized_ok destroyed_ok
    simp: onWindowFocusChanged_def onPause_def)


definition still :: lenv where
  "still = \<lparr>le_sin = (\<lambda>_. 0), le_cos = (\<lambda>_. 1), le_random = (\<lambda>_. 0), le_text = (\<lambda>_. [])\<rparr>"


text \<open>What a game is made of survives the end of its process: restoring the saved state into a new thread gives the position, the speed, the
  heading, the fuel, the goals, the difficulty and the wins of the saved game. The game is paused then, neither turning
  nor firing. The rest of the state is the new thread's.\<close>

lemma save_restore:
  "\<exists>b. saveState s (Some b0) = Some b \<and>
     restoreState e b t = s\<lparr>mMode := STATE_PAUSE, mRotating := 0, mEngineFiring := False, mCanvasHeight := mCanvasHeight t,
       mCanvasWidth := mCanvasWidth t, mLastTime := mLastTime t, mRun := mRun t, paused := paused t,
       destroyed_called := destroyed_called t, started := started t, draws := draws t, sent := (le_text e ''mode_pause'', True) # sent t\<rparr>"
proof -
  obtain b where b: "saveState s (Some b0) = Some b" by (simp add: saveState_def)
  show ?thesis by (rule exI [of _ b], rule conjI [OF b], subst restore_saved [OF b]) (cases s, cases t, simp)
qed


section \<open>Winning twice\<close>

definition landed_well :: "lander \<Rightarrow> bool" where
  "landed_well s \<longleftrightarrow> mY s = yLowerBound s \<and> onGoal s \<and> (mHeading s \<le> of_int (mGoalAngle s) \<or> mHeading s \<ge> of_int (s32 (360 - mGoalAngle s))) \<and>
     speed s \<le> of_int (mGoalSpeed s)"

lemma doStart_runs: "doStart e now s = Some s' \<Longrightarrow> mMode s' = STATE_RUNNING"
  by (auto simp: doStart_def setState_def setState_message_def Let_def split: option.splits)

lemma landing_wins:
  assumes "landing e now s = Some s'" "mMode s' = STATE_WIN"
  shows "landed_well s'"
proof -
  let ?y = "s\<lparr>mY := yLowerBound s\<rparr>"
  have h: "s' = setState_message e STATE_WIN (Some []) (?y\<lparr>mWinsInARow := s32 (mWinsInARow ?y + 1)\<rparr>)"
    and g: "onGoal ?y" "mHeading s \<le> of_int (mGoalAngle s) \<or> mHeading s \<ge> of_int (s32 (360 - mGoalAngle s))" "speed ?y \<le> of_int (mGoalSpeed s)"
    using assms doStart_runs
    by (auto simp: landing_def Let_def setState_message_def lander_consts split: if_splits)
  have "mY s' = yLowerBound s'" "onGoal s' = onGoal ?y" "speed s' = speed ?y" "mHeading s' = mHeading s" "mGoalAngle s' = mGoalAngle s" "mGoalSpeed s' = mGoalSpeed s"
    unfolding h by (simp_all add: setState_message_def Let_def onGoal_def speed_def yLowerBound_def lander_consts)
  with g show ?thesis by (simp add: landed_well_def)
qed

text \<open>A frame of no length leaves the ship where it is.\<close>

lemma fly_still:
  assumes "core_ok s" "mRotating s = 0" "\<not> mEngineFiring s" "mLastTime s = now"
  shows "fly e now s = s"
  using assms
  by (simp add: fly_def elapsed_time_def s64_id rotate_ship_def thrust_def move_def Let_def core_ok_def lander_consts)

lemma landing_again:
  assumes "core_ok s" "landed_well s"
  shows "landing e now s = Some (setState_message e STATE_WIN (Some []) (s\<lparr>mWinsInARow := s32 (mWinsInARow s + 1)\<rparr>))"
proof -
  have y: "s\<lparr>mY := yLowerBound s\<rparr> = s" using assms(2) by (cases s) (simp add: landed_well_def yLowerBound_def)
  have "\<not> 180 < speed s" using assms by (auto simp: core_ok_def landed_well_def)
  then show ?thesis using assms(2) by (simp add: landing_def Let_def y landed_well_def lander_consts)
qed

text \<open>A won game can be won again without being played. After a landing that wins, the menu entry to resume runs the game, since
  \<^verbatim>\<open>unpause\<close> does not ask whether the game is paused; the next frame finds the ship on the pad and counts another win.\<close>

lemma resume_wins_again:
  assumes ok: "lander_ok s0" "mMode s0 = STATE_RUNNING" "mLastTime s0 \<le> t0" "t0 - mLastTime s0 \<le> 3000"
    and win: "updatePhysics e t0 s0 = Some s" "mMode s = STATE_WIN"
    and t: "- (2 ^ 63) \<le> t" "t + 100 < 2 ^ 63"
  shows "\<exists>s1 s2. onOptionsItemSelected e t MENU_RESUME s = Some (True, s1) \<and> updatePhysics e (t + 100) s1 = Some s2 \<and>
    mMode s2 = STATE_WIN \<and> mWinsInARow s2 = s32 (mWinsInARow s + 1)"
proof -
  let ?s1 = "unpause e t s"
  let ?f = "fly e t0 s0"
  have s: "lander_ok s" using updatePhysics_ok [OF ok(1,2) _ win(1)] ok(4) by simp
  have "mMode ?f = STATE_RUNNING" using fly_ok(2) [OF ok(1,3,4)] ok(2) by simp
  then have "landing e t0 ?f = Some s"
    using win ok(3) by (auto simp: updatePhysics_def Let_def lander_consts split: if_splits)
  then have w: "landed_well s" using landing_wins win(2) by blast
  have c: "core_ok ?s1" using unpause_ok [OF s] by (simp add: lander_ok_def)
  have k: "mRotating ?s1 = 0" "\<not> mEngineFiring ?s1" "mLastTime ?s1 = t + 100" "mWinsInARow ?s1 = mWinsInARow s"
    using s win(2) t by (auto simp: unpause_def setState_def setState_message_def Let_def lander_ok_def mode_ok_def lander_consts s64_id)
  have w1: "landed_well ?s1" "mY ?s1 = yLowerBound ?s1"
    using w by (simp_all add: unpause_def setState_def setState_message_def Let_def landed_well_def onGoal_def speed_def yLowerBound_def lander_consts)
  have "updatePhysics e (t + 100) ?s1 = landing e (t + 100) ?s1"
    using w1(2) k(3) by (simp add: updatePhysics_def fly_still [OF c k(1-3)])
  then have "updatePhysics e (t + 100) ?s1 = Some (setState_message e STATE_WIN (Some []) (?s1\<lparr>mWinsInARow := s32 (mWinsInARow s + 1)\<rparr>))"
    by (simp add: landing_again [OF c w1(1)] k(4))
  then show ?thesis by (simp add: onOptionsItemSelected_def setState_message_def Let_def lander_consts)
qed

text \<open>The fuel gauge of an easy game reaches into the speed gauge, which begins at 108.\<close>

lemma fuel_gauge_overlaps: "mFuel s = 150 \<Longrightarrow> Rect 4 4 154 14 LinePaint \<in> set (doDraw s)"
  by (simp add: doDraw_def Let_def lander_consts d2i_def s32_id)

text \<open>No step stops the thread: its loop goes on for ever.\<close>

lemma setState_run: "mRun (setState_message e mode m s) = mRun s"
  by (simp add: setState_message_def Let_def)

lemma doStart_run: "doStart e now s = Some s' \<Longrightarrow> mRun s' = mRun s"
  by (auto simp: doStart_def start_motion_def setState_def setState_run Let_def split: option.splits prod.splits)

lemma fly_run: "mRun (fly e now s) = mRun s"
  by (simp add: fly_def rotate_ship_def thrust_def move_def Let_def)

lemma updatePhysics_run: "updatePhysics e now s = Some s' \<Longrightarrow> mRun s' = mRun s"
  by (auto simp: updatePhysics_def landing_def setState_run fly_run Let_def dest!: doStart_run split: if_splits)

lemma run_round_runs: "run_round e now s = Some (s', picture) \<Longrightarrow> mRun s' = mRun s"
  by (auto simp: run_round_def updatePhysics_run split: if_splits option.splits)

text \<open>A frame longer than three seconds can leave the range of the heading.\<close>

lemma rotate_leaves_range:
  assumes "mHeading s = 0" "mRotating s = 1" "t = 7"
  shows "mHeading (rotate_ship t s) = 480"
  using assms by (simp add: rotate_ship_def Let_def lander_consts)

end
