(* ===== verification/Spec2Isabelle.thy ===== *)
theory Spec2Isabelle
  imports System Schedule Texts Ui Resdev Calc Lander
begin

text \<open>
  Verification of a resource reservation framework for Linux on 32-bit ARM: the kernel code under
  \<^verbatim>\<open>src/kernel/rtes\<close> with its hooks in the scheduler, \<^verbatim>\<open>fork\<close> and \<^verbatim>\<open>exit\<close>, the modules that show its state,
  and the programs that use it.

  \<^bold>\<open>The program.\<close>  A thread reserves a budget of processor time in every period with the system call
  \<^verbatim>\<open>set_reserve\<close>.  The call chooses a processor (one of five packing policies, or the one the caller names),
  tests whether the tasks of that processor stay schedulable, moves the thread there, switches idle processors
  off, computes the least clock frequency that meets every deadline, and starts two timers: one that counts
  the budget while the thread runs and suspends it when it is used up, one that replenishes it at the end of
  the period.  The scheduler starts and stops the budget timer at a context switch and charges the energy of
  the run; \<^verbatim>\<open>fork\<close> and \<^verbatim>\<open>exit\<close> keep the arrays of reserved tasks in step with the threads.  A module shows
  utilization samples, the reservations, powers and energies under \<^verbatim>\<open>/sys/rtes\<close>, another lists the real-time
  processes; an Android application and command line programs read both.  An earlier version of the reservations is a
  character device of its own, and a game serves as a workload.

  \<^bold>\<open>The theories\<close>, in the order of their imports, with the files under \<^verbatim>\<open>src/\<close> they model.
  \<^item> \<open>Prelude\<close>: runs that may fault (\<open>'a res\<close>), the widths of C integers, C division, error numbers.
  \<^item> \<open>Hrtimer\<close>: \<^verbatim>\<open>kernel/include/linux/ktime.h\<close>, \<^verbatim>\<open>kernel/kernel/hrtimer.c\<close>: times of 64 bits and the life of a
    timer.  \<^verbatim>\<open>hrtimer_forward\<close> moves the expiry to the first multiple of the period in the future.
  \<^item> \<open>KState\<close>: the state of the kernel as one record (\<open>kst\<close>): the live threads, their \<^verbatim>\<open>task_struct\<close> with the
    reservation (\<^verbatim>\<open>include/linux/reserve.h\<close>), the global variables of the program, the live blocks of the
    allocator and the files of sysfs; and the answers of the services the program calls (\<open>kenv\<close>).
  \<^item> \<open>Response\<close>: the scheduling theory as a specification (demand, deadlines, scheduling points).  The locale
    \<open>monotone_demand\<close> is the interface of the response time iteration.
  \<^item> \<open>Admission\<close>: \<^verbatim>\<open>try_bind\<close> and \<^verbatim>\<open>sortCPU\<close> of \<^verbatim>\<open>rtes/kernel/reserve.c\<close>.  The response time loop ends and decides
    exactly the specification; \<^verbatim>\<open>try_bind\<close> returns 0 exactly when the processor admits the task, keeps the array
    ordered by period, and taking the task out again restores it.  The locale \<open>admission_test\<close> is what the
    policies rely on.
  \<^item> \<open>Schedule\<close>: a processor that always runs the first ready thread of the array.  The response-time test accepts
    exactly the arrays whose every sporadic pattern of releases meets its deadlines; arrays accepted by the
    utilization bound alone can miss one.
  \<^item> \<open>Partition\<close>: the packing policies of \<^verbatim>\<open>set_reserve\<close>: where each of them puts a task, and when it gives up.
  \<^item> \<open>Sysclock\<close>: \<^verbatim>\<open>rtes/kernel/sysclock.c\<close> and the governor \<^verbatim>\<open>drivers/cpufreq/cpufreq_sysclock.c\<close>.  The computation
    returns, and returns the least sufficient frequency, rounded down; bounds outside of which it wraps around.
  \<^item> \<open>Fmt\<close>, \<open>Scanf\<close>, \<open>Printf\<close>: \<^verbatim>\<open>lib/vsprintf.c\<close>, \<^verbatim>\<open>lib/string.c\<close>: printing and reading numbers, \<^verbatim>\<open>vsscanf\<close> and
    \<^verbatim>\<open>vsnprintf\<close>.  The decimal conversion without division is correct for every 64-bit number, what \<^verbatim>\<open>%d\<close> prints is
    read back, and a format is printed piece by piece, cut at the size of the buffer.
  \<^item> \<open>Reserve\<close>: \<^verbatim>\<open>set_reserve\<close>, \<^verbatim>\<open>cancel_reserve\<close>, \<^verbatim>\<open>end_job\<close>, stage by stage, every error return included.
    \<open>sys_ok\<close> is the invariant of the reservations: each array is ordered and within its capacity, and holds
    exactly the threads marked as reserved there.  The frame relations \<open>kept\<close>, \<open>same_res\<close> and \<open>others\<close> say what
    an operation leaves alone.
  \<^item> \<open>Timers\<close>: both timer callbacks.  Budgets are enforced and replenished.
  \<^item> \<open>Monitor\<close>: \<^verbatim>\<open>tid_show\<close>, which drains the ring buffer of samples; the locale \<open>sample_log\<close> is the queue
    it refines during its first lap.
  \<^item> \<open>Energy\<close>: \<^verbatim>\<open>rtes/kernel/energy.c\<close> and the hooks in \<^verbatim>\<open>schedule()\<close> of \<^verbatim>\<open>kernel/sched.c\<close>: each run is charged
    to its thread and to the total.
  \<^item> \<open>Lifecycle\<close>: the hooks in \<^verbatim>\<open>kernel/fork.c\<close> and \<^verbatim>\<open>kernel/exit.c\<close>, and that they and \<^verbatim>\<open>cancel_reserve\<close> keep
    the invariant whatever the kernel answers.
  \<^item> \<open>Taskmon\<close>: \<^verbatim>\<open>rtes/modules/taskmon/taskmon.c\<close>; loading and unloading leave no block behind.
  \<^item> \<open>System\<close>: the steps of the running system, its reachable states, and the abstract table of reservations
    that they refine.
  \<^item> \<open>Psdev\<close>: \<^verbatim>\<open>rtes/kernel/ps.c\<close>, \<^verbatim>\<open>rtes/modules/psdev/psdev.c\<close>, \<^verbatim>\<open>rtes/apps/rtps/rtps.c\<close>.
  \<^item> \<open>Jni\<close>: \<^verbatim>\<open>src/taskmon/TaskMon/jni/taskmon-jni.c\<close>.  The list the application shows is the kernel's list.
  \<^item> \<open>Ui\<close>: \<^verbatim>\<open>src/taskmon/TaskMon/src/.../MainActivity.java\<close>, from the screen through the native code to the kernel.
  \<^item> \<open>Apps\<close>: \<^verbatim>\<open>rtes/apps\<close> (reserve, energymon, periodic, easyperiodic, almostperiodic, test_cleanup) and
    \<^verbatim>\<open>rtes/modules/cleanup/cleanup.c\<close>.
  \<^item> \<open>Texts\<close>: the texts of the modules are what \<^verbatim>\<open>vsnprintf\<close> prints for the format strings in their source.
  \<^item> \<open>Resdev\<close>: \<^verbatim>\<open>rtes/modules/reserve/resdev.c\<close>, the first version of the reservations, as a character device.  A
    command line reaches \<^verbatim>\<open>set_reserve\<close> with the numbers written.
  \<^item> \<open>Calc\<close>: \<^verbatim>\<open>rtes/kernel/calc.c\<close>, single precision arithmetic on bit patterns.
  \<^item> \<open>Jfloat\<close>: floating-point numbers of Java as reals with rounding; the locale \<open>format\<close> is what the game relies on.
  \<^item> \<open>Lander\<close>: \<^verbatim>\<open>src/lunarlander/src/.../LunarView.java\<close>, \<^verbatim>\<open>LunarLander.java\<close>: the game used as a workload.  Its
    state keeps its type under every sequence of events; saving and restoring; when starting a game returns.

  \<^bold>\<open>Conventions.\<close>  A C object of a fixed width is an integer that every store wraps (\<open>s32\<close>, \<open>u64\<close>, ...), except
  in \<open>Calc\<close>, which works on \<^typ>\<open>32 word\<close>.  What C leaves undefined or what stops the kernel is a value of
  \<open>fault\<close>: division by zero, an access outside an array, a second \<^verbatim>\<open>kfree\<close>, the use of memory that was never
  written, an endless loop.  Loops that may not end are partial functions, whose missing result becomes the
  fault \<open>Diverges\<close>; that they do end is proved, not assumed.  No fuel is used.

  \<^bold>\<open>Bounds.\<close>  Periods up to 1000 s (\<open>MAX_PERIOD\<close>) and budgets up to 214 s keep the arithmetic of the admission
  test within 32 bits.  The clock computation has room for 100 tasks per processor, and its products
  stay within 32 bits up to a demand of 42 s.  The theorems outside these bounds show what goes wrong there.
  Frames of the game take at most three seconds; a longer one can leave the range of the heading.

  \<^bold>\<open>Not modelled.\<close>  The allocator, sysfs, hotplug, the affinity of the scheduler and the cpufreq driver are
  effects on the state and answers of the environment.  Interrupts are taken between operations, not within
  them; locks therefore have no effect.  \<^verbatim>\<open>printk\<close> is left out, except for the report of the cleanup module.
  Of \<^verbatim>\<open>kernel/hrtimer.c\<close> the tree of armed timers and the clock devices are left out.  In the game, infinities, NaN and the
  sign of zero are not represented, and images and layout are left out.  The calculator program, which only
  converts its arguments with the C library and calls \<^verbatim>\<open>calc\<close>, and the programs that print a constant are left out.
\<close>

end
